(* ===== verification/Prelude.thy ===== *)
theory Prelude
  imports "HOL-Library.Word"
begin

text \<open>
  What every component theory shares: the integer types of the program's target (Linux on
  x86_64 and arm64, where \<^verbatim>\<open>long\<close> has 64 bits), the bounds of \<^verbatim>\<open>limits.h\<close> the code
  uses, two's complement reduction for the signed types, the fact collections of the
  development and generic lemmas on lists and options.
\<close>

section \<open>Fact collections\<close>

named_theorems c_char_simps \<open>classification of literal characters\<close>
named_theorems fs_simps \<open>reading a file system back after one operation\<close>
named_theorems dbl_simps \<open>sign and order facts of binary64 arithmetic\<close>
named_theorems stats_defs \<open>the per-process update operations, unfolded\<close>

section \<open>Machine integers\<close>

type_synonym u32 = "32 word"
type_synonym u64 = "64 word"

text \<open>
  Unsigned types are words, so that \<open>+\<close>, \<open>-\<close> and \<open>*\<close> wrap as they do in C. The signed
  types are \<^typ>\<open>int\<close>; where the code's arithmetic could leave the type's range the result is
  reduced explicitly by \<open>to_int\<close> or \<open>to_long\<close> (two's complement).
\<close>

definition to_int :: "int \<Rightarrow> int" where
  "to_int x = (x + 2 ^ 31) mod 2 ^ 32 - 2 ^ 31"

definition to_long :: "int \<Rightarrow> int" where
  "to_long x = (x + 2 ^ 63) mod 2 ^ 64 - 2 ^ 63"

definition INT_MAX :: int where "INT_MAX = 2147483647"
definition LONG_MAX :: int where "LONG_MAX = 9223372036854775807"
definition LONG_MIN :: int where "LONG_MIN = - 9223372036854775808"
definition ULLONG_MAX :: nat where "ULLONG_MAX = 18446744073709551615"
definition PATH_MAX :: nat where "PATH_MAX = 4096"

lemmas limits_defs = INT_MAX_def LONG_MAX_def LONG_MIN_def ULLONG_MAX_def

lemma to_int_id: "- 2147483648 \<le> x \<Longrightarrow> x \<le> 2147483647 \<Longrightarrow> to_int x = x"
  by (simp add: to_int_def)

lemma to_long_id: "LONG_MIN \<le> x \<Longrightarrow> x \<le> LONG_MAX \<Longrightarrow> to_long x = x"
  by (simp add: to_long_def limits_defs)

lemma to_long_range: "LONG_MIN \<le> to_long x \<and> to_long x \<le> LONG_MAX"
proof -
  have "0 \<le> (x + 2 ^ 63) mod 2 ^ 64" and "(x + 2 ^ 63) mod 2 ^ 64 < 2 ^ 64"
    by simp_all
  then show ?thesis by (simp add: to_long_def limits_defs)
qed

lemma to_long_add_left: "to_long (to_long x + y) = to_long (x + y)"
proof -
  have "((x + 2 ^ 63) mod 2 ^ 64 + y) mod 2 ^ 64 = (x + 2 ^ 63 + y) mod (2 ^ 64 :: int)"
    by (rule mod_add_left_eq)
  then show ?thesis by (simp add: to_long_def ac_simps)
qed

lemma to_long_zero [simp]: "to_long 0 = 0"
  by (simp add: to_long_def)

lemma sint_long: "sint (w :: u64) = to_long (uint w)"
  by (simp add: to_long_def sint_uint signed_take_bit_eq_take_bit_shift take_bit_eq_mod)

lemma sint_of_nat: "int n \<le> LONG_MAX \<Longrightarrow> sint (of_nat n :: u64) = int n"
  by (simp add: sint_long unsigned_of_nat take_bit_eq_mod to_long_def limits_defs zmod_int)

section \<open>Lists\<close>

lemma dropWhile_idem [simp]: "dropWhile P (dropWhile P xs) = dropWhile P xs"
  by (induction xs) auto

lemma takeWhile_all: "list_all P xs \<Longrightarrow> takeWhile P (xs @ ys) = xs @ takeWhile P ys"
  by (induction xs) auto

lemma dropWhile_all: "list_all P xs \<Longrightarrow> dropWhile P (xs @ ys) = dropWhile P ys"
  by (induction xs) auto

lemma takeWhile_stop: "ys = [] \<or> \<not> P (hd ys) \<Longrightarrow> takeWhile P ys = []"
  by (cases ys) auto

lemma dropWhile_stop: "ys = [] \<or> \<not> P (hd ys) \<Longrightarrow> dropWhile P ys = ys"
  by (cases ys) auto

lemma find_append:
  "find P (xs @ ys) = (case find P xs of None \<Rightarrow> find P ys | Some x \<Rightarrow> Some x)"
  by (induction xs) auto

lemma find_None_set: "find P xs = None \<longleftrightarrow> (\<forall>x \<in> set xs. \<not> P x)"
  by (induction xs) auto

lemma find_SomeD: "find P xs = Some x \<Longrightarrow> x \<in> set xs \<and> P x"
  by (induction xs) (auto split: if_splits)

lemma distinct_concat_nth:
  assumes "\<And>j. j < length xss \<Longrightarrow> distinct (xss ! j)"
    and "\<And>i j. i < length xss \<Longrightarrow> j < length xss \<Longrightarrow> i \<noteq> j \<Longrightarrow> set (xss ! i) \<inter> set (xss ! j) = {}"
  shows "distinct (concat xss)"
  using assms
proof (induction xss)
  case (Cons xs xss)
  have "distinct (concat xss)"
    using Cons.prems(1) [of "Suc j" for j] Cons.prems(2) [of "Suc i" "Suc j" for i j]
    by (intro Cons.IH) auto
  moreover have "set xs \<inter> set (concat xss) = {}"
    using Cons.prems(2) [of 0 "Suc j" for j] by (fastforce simp: in_set_conv_nth)
  ultimately show ?case using Cons.prems(1) [of 0] by simp
qed simp

end
