(* ===== verification/C_Strings.thy ===== *)
theory C_Strings
  imports Prelude
begin

text \<open>
  The part of the C library's character and string functions the program calls: character
  classes of the C locale, \<^verbatim>\<open>strtol\<close>, \<^verbatim>\<open>strtoull\<close> and \<^verbatim>\<open>atoi\<close> with their end pointer and
  range error, \<^verbatim>\<open>fgets\<close>, \<^verbatim>\<open>strchr\<close>/\<^verbatim>\<open>strrchr\<close>, \<^verbatim>\<open>strcasecmp\<close>, the truncation of
  \<^verbatim>\<open>snprintf\<close> and the decimal conversions of \<^verbatim>\<open>printf\<close>. A C string is a HOL string of its
  bytes before the terminating NUL; a pointer into it is the suffix it points at.
\<close>

section \<open>Character classes\<close>

definition c_isspace :: "char \<Rightarrow> bool" where
  "c_isspace c = (of_char c = (32::nat) \<or> (9 \<le> (of_char c :: nat) \<and> of_char c \<le> (13::nat)))"

definition c_isdigit :: "char \<Rightarrow> bool" where
  "c_isdigit c = (48 \<le> (of_char c :: nat) \<and> of_char c \<le> (57::nat))"

definition digit_val :: "char \<Rightarrow> nat" where
  "digit_val c = of_char c - 48"

definition c_tolower :: "char \<Rightarrow> char" where
  "c_tolower c = (if 65 \<le> (of_char c :: nat) \<and> of_char c \<le> (90::nat)
     then char_of (of_char c + 32 :: nat) else c)"

definition c_strcasecmp_eq :: "string \<Rightarrow> string \<Rightarrow> bool" where
  "c_strcasecmp_eq a b = (map c_tolower a = map c_tolower b)"

lemma isdigit_not_space: "c_isdigit c \<Longrightarrow> \<not> c_isspace c"
  by (simp add: c_isdigit_def c_isspace_def)

lemma isdigit_not_sign: "c_isdigit c \<Longrightarrow> c \<noteq> CHR ''-'' \<and> c \<noteq> CHR ''+''"
  by (auto simp: c_isdigit_def)

lemma isspace_not_sign: "c_isspace c \<Longrightarrow> c \<noteq> CHR ''-'' \<and> c \<noteq> CHR ''+''"
  by (auto simp: c_isspace_def)

section \<open>Decimal digits: reading\<close>

definition dec_val :: "string \<Rightarrow> nat" where
  "dec_val ds = foldl (\<lambda>a c. a * 10 + digit_val c) 0 ds"

lemma dec_val_Nil [simp]: "dec_val [] = 0"
  by (simp add: dec_val_def)

lemma dec_val_snoc [simp]: "dec_val (ds @ [c]) = dec_val ds * 10 + digit_val c"
  by (simp add: dec_val_def)

definition split_sign :: "string \<Rightarrow> bool \<times> string" where
  "split_sign s = (case s of [] \<Rightarrow> (False, [])
     | c # cs \<Rightarrow> if c = CHR ''-'' then (True, cs) else if c = CHR ''+'' then (False, cs)
                else (False, s))"

text \<open>\<^verbatim>\<open>strtol(s, &end, 10)\<close>: the value, the text at \<^verbatim>\<open>end\<close>, and whether \<^verbatim>\<open>errno\<close> is ERANGE.\<close>

definition c_strtol :: "string \<Rightarrow> int \<times> string \<times> bool" where
  "c_strtol s =
     (let (neg, u) = split_sign (dropWhile c_isspace s);
          ds = takeWhile c_isdigit u;
          rest = dropWhile c_isdigit u;
          v = (if neg then - int (dec_val ds) else int (dec_val ds))
      in if ds = [] then (0, s, False)
         else if v < LONG_MIN then (LONG_MIN, rest, True)
         else if LONG_MAX < v then (LONG_MAX, rest, True)
         else (v, rest, False))"

text \<open>
  \<^verbatim>\<open>strtoull(s, &end, 10)\<close>: a minus sign negates in the unsigned type; the code that calls
  it does not look at \<^verbatim>\<open>errno\<close>, so only the value and the end are kept.
\<close>

definition c_strtoull :: "string \<Rightarrow> u64 \<times> string" where
  "c_strtoull s =
     (let (neg, u) = split_sign (dropWhile c_isspace s);
          ds = takeWhile c_isdigit u;
          rest = dropWhile c_isdigit u;
          n = dec_val ds
      in if ds = [] then (0, s)
         else if ULLONG_MAX < n then (of_nat ULLONG_MAX, rest)
         else (if neg then - of_nat n else of_nat n, rest))"

definition c_atoi :: "string \<Rightarrow> int" where
  "c_atoi s = to_int (fst (c_strtol s))"

section \<open>Decimal digits: printing\<close>

definition digit_char :: "nat \<Rightarrow> char" where
  "digit_char d = char_of (48 + d)"

fun show_nat :: "nat \<Rightarrow> string" where
  "show_nat n = (if n < 10 then [digit_char n] else show_nat (n div 10) @ [digit_char (n mod 10)])"

declare show_nat.simps [simp del]

definition show_int :: "int \<Rightarrow> string" where
  "show_int i = (if i < 0 then CHR ''-'' # show_nat (nat (- i)) else show_nat (nat i))"

lemma of_char_digit_char: "d < 10 \<Longrightarrow> of_char (digit_char d) = (48 + d :: nat)"
  by (simp add: digit_char_def)

lemma isdigit_digit_char [simp]: "d < 10 \<Longrightarrow> c_isdigit (digit_char d)"
  by (simp add: c_isdigit_def of_char_digit_char)

lemma digit_val_digit_char [simp]: "d < 10 \<Longrightarrow> digit_val (digit_char d) = d"
  by (simp add: digit_val_def of_char_digit_char)

lemma show_nat_digits: "list_all c_isdigit (show_nat n)"
proof (induction n rule: show_nat.induct)
  case (1 n)
  then show ?case by (subst show_nat.simps) auto
qed

lemma show_nat_not_Nil [simp]: "show_nat n \<noteq> []"
  by (subst show_nat.simps) simp

lemma dec_val_show_nat [simp]: "dec_val (show_nat n) = n"
proof (induction n rule: show_nat.induct)
  case (1 n)
  show ?case
  proof (cases "n < 10")
    case True
    then show ?thesis by (simp add: show_nat.simps [of n] dec_val_def)
  next
    case False
    with "1.IH" have "dec_val (show_nat (n div 10)) = n div 10" by simp
    with False show ?thesis by (simp add: show_nat.simps [of n])
  qed
qed

lemma show_nat_inject: "show_nat m = show_nat n \<longleftrightarrow> m = n"
  by (metis dec_val_show_nat)

lemma show_nat_notin: "\<not> c_isdigit c \<Longrightarrow> c \<notin> set (show_nat n)"
  using show_nat_digits [of n] by (auto simp: list_all_iff)

lemma show_nat_Cons: "\<exists>c cs. show_nat n = c # cs \<and> c_isdigit c"
  using show_nat_digits [of n] by (cases "show_nat n") auto

lemma length_show_nat_le: "n < 10 ^ k \<Longrightarrow> 0 < k \<Longrightarrow> length (show_nat n) \<le> k"
proof (induction k arbitrary: n)
  case (Suc k)
  show ?case
  proof (cases "n < 10")
    case True
    then show ?thesis by (simp add: show_nat.simps [of n])
  next
    case False
    then have "0 < k" using Suc.prems(1) by (cases k) auto
    moreover have "n div 10 < 10 ^ k" using Suc.prems(1) by (simp add: less_mult_imp_div_less mult.commute)
    ultimately have "length (show_nat (n div 10)) \<le> k" using Suc.IH by simp
    with False show ?thesis by (simp add: show_nat.simps [of n])
  qed
qed simp

text \<open>What both conversions see in a printed number followed by something that is no digit.\<close>

lemma scan_show_nat:
  assumes "rest = [] \<or> \<not> c_isdigit (hd rest)"
  shows "split_sign (dropWhile c_isspace (show_nat n @ rest)) = (False, show_nat n @ rest)"
    and "takeWhile c_isdigit (show_nat n @ rest) = show_nat n"
    and "dropWhile c_isdigit (show_nat n @ rest) = rest"
proof -
  obtain c cs where c: "show_nat n = c # cs" and d: "c_isdigit c"
    using show_nat_Cons by blast
  then show "split_sign (dropWhile c_isspace (show_nat n @ rest)) = (False, show_nat n @ rest)"
    by (simp add: split_sign_def isdigit_not_space isdigit_not_sign)
  show "takeWhile c_isdigit (show_nat n @ rest) = show_nat n"
    by (simp add: takeWhile_all show_nat_digits takeWhile_stop assms)
  show "dropWhile c_isdigit (show_nat n @ rest) = rest"
    by (simp add: dropWhile_all show_nat_digits dropWhile_stop assms)
qed

lemma strtol_show_nat:
  assumes "rest = [] \<or> \<not> c_isdigit (hd rest)" and "int n \<le> LONG_MAX"
  shows "c_strtol (show_nat n @ rest) = (int n, rest, False)"
  using assms(2) by (simp add: c_strtol_def scan_show_nat [OF assms(1)] limits_defs)

lemma strtoull_show_nat:
  assumes "rest = [] \<or> \<not> c_isdigit (hd rest)" and "n \<le> ULLONG_MAX"
  shows "c_strtoull (show_nat n @ rest) = (of_nat n, rest)"
  using assms(2) by (simp add: c_strtoull_def scan_show_nat [OF assms(1)])

section \<open>Lines of a stream, pointers into a string\<close>

text \<open>
  \<^verbatim>\<open>fgets(buf, size, f)\<close> takes the bytes up to and including the next newline, at most
  \<open>size - 1\<close> of them: a longer line reaches the caller in pieces.
\<close>

fun line_len :: "nat \<Rightarrow> string \<Rightarrow> nat" where
  "line_len 0 s = 0"
| "line_len (Suc n) [] = 0"
| "line_len (Suc n) (c # cs) = (if c = CHR 0x0A then 1 else Suc (line_len n cs))"

definition c_fgets :: "nat \<Rightarrow> string \<Rightarrow> (string \<times> string) option" where
  "c_fgets sz f = (if f = [] then None
     else let k = line_len (sz - 1) f in Some (take k f, drop k f))"

definition c_str :: "string \<Rightarrow> string" where
  "c_str buf = takeWhile (\<lambda>c. c \<noteq> CHR 0x00) buf"

lemma line_len_pos: "0 < n \<Longrightarrow> f \<noteq> [] \<Longrightarrow> 0 < line_len n f"
  by (cases n; cases f) auto

lemma line_len_le: "line_len n f \<le> n \<and> line_len n f \<le> length f"
  by (induction n f rule: line_len.induct) auto

text \<open>The lines a loop \<^verbatim>\<open>while (fgets(line, size, f))\<close> sees, each as the C string in its buffer.\<close>

function c_lines :: "nat \<Rightarrow> string \<Rightarrow> string list" where
  "c_lines sz f =
     (if sz < 2 then []
      else case c_fgets sz f of None \<Rightarrow> [] | Some (l, r) \<Rightarrow> c_str l # c_lines sz r)"
  by pat_completeness auto
termination
proof (relation "measure (\<lambda>(sz, f). length f)", goal_cases)
  case 1
  show ?case by simp
next
  case (2 sz f lr l r)
  then show ?case
    using line_len_pos [of "sz - 1" f]
    by (auto simp: c_fgets_def Let_def split: if_splits)
qed

declare c_lines.simps [simp del]

lemma fgets_short:
  assumes "c_fgets sz f = Some (l, r)" and "1 < sz"
  shows "length (c_str l) < sz"
proof -
  have "length (c_str l) \<le> length l" by (simp add: c_str_def length_takeWhile_le)
  moreover have "length l < sz"
    using assms line_len_le [of "sz - 1" f] by (auto simp: c_fgets_def Let_def split: if_splits)
  ultimately show ?thesis by simp
qed

lemma c_lines_short:
  assumes "2 \<le> sz" and "l \<in> set (c_lines sz f)"
  shows "length l < sz"
  using assms
proof (induction sz f rule: c_lines.induct)
  case (1 sz f)
  show ?case
  proof (cases "c_fgets sz f")
    case None
    with "1.prems" show ?thesis by (simp add: c_lines.simps [of sz f])
  next
    case (Some lr)
    obtain h r where lr: "lr = (h, r)" by fastforce
    have small: "length (c_str h) < sz"
      using fgets_short [of sz f h r] Some lr "1.prems"(1) by simp
    have step: "c_lines sz f = c_str h # c_lines sz r"
      using "1.prems"(1) Some lr by (simp add: c_lines.simps [of sz f])
    have "\<not> sz < 2" using "1.prems"(1) by simp
    note IH = "1.IH" [OF this Some, of h r, OF lr [symmetric] "1.prems"(1)]
    show ?thesis
    proof (cases "l = c_str h")
      case True
      with small show ?thesis by simp
    next
      case False
      with "1.prems"(2) step have "l \<in> set (c_lines sz r)" by simp
      then show ?thesis by (rule IH)
    qed
  qed
qed

text \<open>\<^verbatim>\<open>strchr\<close> and \<^verbatim>\<open>strrchr\<close> as the text before and after the character found.\<close>

definition split_first :: "char \<Rightarrow> string \<Rightarrow> (string \<times> string) option" where
  "split_first c s = (case dropWhile (\<lambda>x. x \<noteq> c) s of [] \<Rightarrow> None
     | _ # after \<Rightarrow> Some (takeWhile (\<lambda>x. x \<noteq> c) s, after))"

definition split_last :: "char \<Rightarrow> string \<Rightarrow> (string \<times> string) option" where
  "split_last c s = (case split_first c (rev s) of None \<Rightarrow> None
     | Some (after, before) \<Rightarrow> Some (rev before, rev after))"

lemma split_first_append [simp]:
  "c \<notin> set a \<Longrightarrow> split_first c (a @ c # b) = Some (a, b)"
  by (auto simp: split_first_def dropWhile_append takeWhile_append split: list.splits)

lemma split_first_None: "split_first c s = None \<longleftrightarrow> c \<notin> set s"
proof (cases "c \<in> set s")
  case True
  then obtain a b where "s = a @ c # b" and "c \<notin> set a"
    using split_list_first by fast
  then show ?thesis by auto
next
  case False
  have "dropWhile (\<lambda>x. x \<noteq> c) s = []"
    using False by (simp add: dropWhile_eq_Nil_conv) blast
  then have "split_first c s = None" unfolding split_first_def by (simp only: list.case)
  with False show ?thesis by simp
qed

lemma split_last_append [simp]:
  "c \<notin> set b \<Longrightarrow> split_last c (a @ c # b) = Some (a, b)"
  by (simp add: split_last_def)

lemma split_first_shape:
  assumes "split_first c s = Some (a, b)"
  shows "s = a @ c # b"
proof -
  obtain x where x: "dropWhile (\<lambda>x. x \<noteq> c) s = x # b" "a = takeWhile (\<lambda>x. x \<noteq> c) s"
    using assms by (auto simp: split_first_def split: list.splits)
  then have "x = c" using hd_dropWhile [of "\<lambda>x. x \<noteq> c" s] by (metis list.sel(1) list.distinct(1))
  then show ?thesis using takeWhile_dropWhile_id [of "\<lambda>x. x \<noteq> c" s] x by simp
qed

lemma split_last_shape: "split_last c s = Some (a, b) \<Longrightarrow> s = a @ c # b"
  using split_first_shape [of c "rev s"] by (fastforce simp: split_last_def rev_swap split: option.splits)

lemma split_last_None: "split_last c s = None \<longleftrightarrow> c \<notin> set s"
  using split_first_None [of c "rev s"]
  by (cases "split_first c (rev s)") (auto simp: split_last_def)

text \<open>What \<^verbatim>\<open>snprintf(buf, size, ...)\<close> leaves in \<^verbatim>\<open>buf\<close>.\<close>

definition c_snprintf :: "nat \<Rightarrow> string \<Rightarrow> string" where
  "c_snprintf sz s = take (sz - 1) s"

lemma c_snprintf_id [simp]: "length s < sz \<Longrightarrow> c_snprintf sz s = s"
  by (simp add: c_snprintf_def)

section \<open>A text made of lines\<close>

definition nl :: string where "nl = [CHR 0x0A]"

definition unlines :: "string list \<Rightarrow> string" where
  "unlines ls = concat (map (\<lambda>l. l @ nl) ls)"

lemma line_len_line: "CHR 0x0A \<notin> set l \<Longrightarrow> length l < n \<Longrightarrow> line_len n (l @ CHR 0x0A # r) = Suc (length l)"
  by (induction l arbitrary: n) (auto simp: gr0_conv_Suc Suc_less_eq2)

lemma c_lines_unlines:
  assumes "\<forall>l \<in> set ls. CHR 0x0A \<notin> set l \<and> CHR 0x00 \<notin> set l \<and> length l + 1 < sz" and "2 \<le> sz"
  shows "c_lines sz (unlines ls) = map (\<lambda>l. l @ nl) ls"
  using assms
proof (induction ls)
  case Nil
  then show ?case by (simp add: c_lines.simps [of sz] unlines_def c_fgets_def)
next
  case (Cons l ls)
  have "line_len (sz - 1) (l @ CHR 0x0A # unlines ls) = Suc (length l)"
    using Cons.prems by (intro line_len_line) auto
  then have f: "c_fgets sz (l @ CHR 0x0A # unlines ls) = Some (l @ nl, unlines ls)"
    by (simp add: c_fgets_def nl_def)
  have "c_str (l @ nl) = l @ nl"
    using Cons.prems by (auto simp: c_str_def nl_def takeWhile_eq_all_conv)
  then have "c_lines sz (l @ CHR 0x0A # unlines ls) = (l @ nl) # c_lines sz (unlines ls)"
    using Cons.prems f by (subst c_lines.simps) simp
  moreover have "unlines (l # ls) = l @ CHR 0x0A # unlines ls" by (simp add: unlines_def nl_def)
  ultimately show ?case using Cons by simp
qed

end
