(* ===== verification/C_Double.thy ===== *)
theory C_Double
  imports C_Strings "HOL-Library.Log_Nat"
begin

text \<open>
  The type \<^verbatim>\<open>double\<close> as IEEE 754 binary64 with rounding to nearest, ties to even: finite
  values are the exact rational they stand for, every operation rounds its exact result to 53
  bits (fewer below the normal range) and overflows to an infinity. The sign of zero is not
  kept: the program divides by doubles it has compared with zero only.
\<close>

section \<open>Rounding\<close>

definition rat_exp :: "rat \<Rightarrow> int" where
  "rat_exp x = (let k = bitlen (fst (quotient_of x)) - bitlen (snd (quotient_of x))
     in if 2 powi k \<le> x then k else k - 1)"

definition ulp :: "rat \<Rightarrow> rat" where
  "ulp x = 2 powi (max (rat_exp \<bar>x\<bar> - 52) (- 1074))"

definition round_even :: "rat \<Rightarrow> int" where
  "round_even q = (let f = \<lfloor>q\<rfloor>; r = q - of_int f
     in if r < 1 / 2 then f else if 1 / 2 < r then f + 1 else if even f then f else f + 1)"

definition rnd :: "rat \<Rightarrow> rat" where
  "rnd x = (if x = 0 then 0 else of_int (round_even (x / ulp x)) * ulp x)"

section \<open>Values and operations\<close>

datatype double = Fin rat | PInf | NInf | NaN

definition to_double :: "rat \<Rightarrow> double" where
  "to_double x = (if 2 ^ 1024 \<le> rnd x then PInf else if rnd x \<le> - (2 ^ 1024) then NInf
     else Fin (rnd x))"

fun d_neg :: "double \<Rightarrow> double" where
  "d_neg (Fin a) = Fin (- a)"
| "d_neg PInf = NInf"
| "d_neg NInf = PInf"
| "d_neg NaN = NaN"

fun d_add :: "double \<Rightarrow> double \<Rightarrow> double" where
  "d_add (Fin a) (Fin b) = to_double (a + b)"
| "d_add NaN _ = NaN"
| "d_add _ NaN = NaN"
| "d_add PInf NInf = NaN"
| "d_add NInf PInf = NaN"
| "d_add PInf _ = PInf"
| "d_add _ PInf = PInf"
| "d_add NInf _ = NInf"
| "d_add _ NInf = NInf"

definition d_sub :: "double \<Rightarrow> double \<Rightarrow> double" where
  "d_sub a b = d_add a (d_neg b)"

definition inf_sign :: "bool \<Rightarrow> double" where
  "inf_sign neg = (if neg then NInf else PInf)"

fun d_sgn :: "double \<Rightarrow> int" where
  "d_sgn (Fin a) = (if a < 0 then -1 else if a = 0 then 0 else 1)"
| "d_sgn PInf = 1"
| "d_sgn NInf = -1"
| "d_sgn NaN = 0"

fun d_mul :: "double \<Rightarrow> double \<Rightarrow> double" where
  "d_mul (Fin a) (Fin b) = to_double (a * b)"
| "d_mul NaN _ = NaN"
| "d_mul _ NaN = NaN"
| "d_mul a b = (if d_sgn a * d_sgn b = 0 then NaN else inf_sign (d_sgn a * d_sgn b < 0))"

fun d_div :: "double \<Rightarrow> double \<Rightarrow> double" where
  "d_div (Fin a) (Fin b) =
     (if b = 0 then (if a = 0 then NaN else inf_sign (a < 0)) else to_double (a / b))"
| "d_div NaN _ = NaN"
| "d_div _ NaN = NaN"
| "d_div (Fin a) _ = Fin 0"
| "d_div a (Fin b) = inf_sign (d_sgn a * (if b < 0 then -1 else 1) < 0)"
| "d_div _ _ = NaN"

fun d_less :: "double \<Rightarrow> double \<Rightarrow> bool" where
  "d_less (Fin a) (Fin b) = (a < b)"
| "d_less NaN _ = False"
| "d_less _ NaN = False"
| "d_less _ NInf = False"
| "d_less PInf _ = False"
| "d_less _ _ = True"

definition d_le :: "double \<Rightarrow> double \<Rightarrow> bool" where
  "d_le a b = (d_less a b \<or> (a = b \<and> a \<noteq> NaN))"

text \<open>Conversions from the integer types and from \<^verbatim>\<open>%.\<close>\<open>k\<close>\<^verbatim>\<open>f\<close> to text.\<close>

definition d_of_u64 :: "u64 \<Rightarrow> double" where
  "d_of_u64 w = to_double (of_nat (unat w))"

definition d_of_long :: "int \<Rightarrow> double" where
  "d_of_long i = to_double (of_int i)"

definition pad_zeros :: "nat \<Rightarrow> string \<Rightarrow> string" where
  "pad_zeros k s = replicate (k - length s) (CHR ''0'') @ s"

definition fmt_fixed :: "nat \<Rightarrow> double \<Rightarrow> string" where
  "fmt_fixed k d = (case d of
     Fin x \<Rightarrow> (let n = nat (round_even (\<bar>x\<bar> * 10 ^ k))
              in (if x < 0 then ''-'' else []) @ show_nat (n div 10 ^ k) @ ''.'' @
                 pad_zeros k (show_nat (n mod 10 ^ k)))
   | PInf \<Rightarrow> ''inf'' | NInf \<Rightarrow> ''-inf'' | NaN \<Rightarrow> ''nan'')"

section \<open>The exponent and the grid of a value\<close>

lemma powi_le: "a \<le> b \<Longrightarrow> (2 :: rat) powi a \<le> 2 powi b"
  by (simp add: power_int_increasing)

lemma powi_add1: "(2 :: rat) powi (a + 1) = 2 * 2 powi a"
  by (simp add: power_int_add)

lemma bitlen_powi:
  assumes "0 < n"
  shows "2 powi (bitlen n - 1) \<le> (of_int n :: rat)" and "(of_int n :: rat) < 2 powi (bitlen n)"
proof -
  have b: "1 \<le> bitlen n"
    using assms bitlen_eq_zero_iff [of n] bitlen_nonneg [of n] by linarith
  have "2 ^ nat (bitlen n - 1) \<le> n" and "n < 2 ^ nat (bitlen n)"
    using bitlen_bounds [OF assms] by auto
  then have "of_int (2 ^ nat (bitlen n - 1)) \<le> (of_int n :: rat)"
    and "(of_int n :: rat) < of_int (2 ^ nat (bitlen n))"
    by (simp_all only: of_int_le_iff of_int_less_iff)
  with b show "2 powi (bitlen n - 1) \<le> (of_int n :: rat)" and "(of_int n :: rat) < 2 powi (bitlen n)"
    by (simp_all add: power_int_nonneg_exp)
qed

lemma rat_exp_spec:
  assumes "0 < x"
  shows "2 powi rat_exp x \<le> x" and "x < 2 powi (rat_exp x + 1)"
proof -
  obtain n d where nd: "quotient_of x = (n, d)" by fastforce
  have d: "0 < d" using quotient_of_denom_pos [OF nd] .
  have x: "x = of_int n / of_int d" using quotient_of_div [OF nd] .
  with assms d have n: "0 < n" by (simp add: zero_less_divide_iff)
  let ?k = "bitlen n - bitlen d"
  have e: "rat_exp x = (if 2 powi ?k \<le> x then ?k else ?k - 1)"
    by (simp add: rat_exp_def nd)
  have "x < 2 powi bitlen n / 2 powi (bitlen d - 1)"
    unfolding x using bitlen_powi [OF n] bitlen_powi [OF d] n d
    by (intro frac_less) auto
  also have "\<dots> = 2 powi (?k + 1)"
    by (simp add: power_int_diff power_int_add)
  finally have up: "x < 2 powi (?k + 1)" .
  have "2 powi (?k - 1) = 2 powi (bitlen n - 1) / (2 powi bitlen d :: rat)"
    by (simp add: power_int_diff)
  also have "\<dots> \<le> x"
    unfolding x using bitlen_powi [OF n] bitlen_powi [OF d] n d
    by (intro frac_le) auto
  finally have lo: "2 powi (?k - 1) \<le> x" .
  show "2 powi rat_exp x \<le> x" and "x < 2 powi (rat_exp x + 1)"
    using up lo e by auto
qed

lemma rat_exp_unique:
  assumes "2 powi e \<le> x" and "x < 2 powi (e + 1)"
  shows "rat_exp x = e"
proof -
  have "(0::rat) < 2 powi e" by simp
  with assms have "0 < x" by linarith
  note s = rat_exp_spec [OF this]
  have "\<not> e + 1 \<le> rat_exp x" 
    using powi_le [of "e + 1" "rat_exp x"] s(1) assms(2) by linarith
  moreover have "\<not> rat_exp x + 1 \<le> e"
    using powi_le [of "rat_exp x + 1" e] s(2) assms(1) by linarith
  ultimately show ?thesis by linarith
qed

lemma rat_exp_mono:
  assumes "0 < x" and "x \<le> y"
  shows "rat_exp x \<le> rat_exp y"
proof (rule ccontr)
  assume "\<not> ?thesis"
  then have "rat_exp y + 1 \<le> rat_exp x" by linarith
  then have "(2::rat) powi (rat_exp y + 1) \<le> 2 powi rat_exp x" by (rule powi_le)
  with rat_exp_spec(1) [OF assms(1)] rat_exp_spec(2) [of y] assms show False by linarith
qed

lemma ulp_pos: "0 < ulp x"
  by (simp add: ulp_def)

section \<open>Rounding to the nearest integer\<close>

lemma round_even_of_int [simp]: "round_even (of_int m) = m"
  by (simp add: round_even_def)

lemma round_even_le: "q \<le> of_int m \<Longrightarrow> round_even q \<le> m"
proof -
  assume q: "q \<le> of_int m"
  show ?thesis
  proof (cases "q = of_int m")
    case True
    then show ?thesis by simp
  next
    case False
    with q have "\<lfloor>q\<rfloor> < m" by (simp add: floor_less_iff)
    then show ?thesis by (auto simp: round_even_def Let_def)
  qed
qed

lemma round_even_ge: "of_int m \<le> q \<Longrightarrow> m \<le> round_even q"
proof -
  assume "of_int m \<le> q"
  then have "m \<le> \<lfloor>q\<rfloor>" by (simp add: le_floor_iff)
  then show ?thesis by (auto simp: round_even_def Let_def)
qed

lemma round_even_mono: "p \<le> q \<Longrightarrow> round_even p \<le> round_even q"
proof -
  assume pq: "p \<le> q"
  show ?thesis
  proof (cases "\<lfloor>p\<rfloor> = \<lfloor>q\<rfloor>")
    case True
    with pq show ?thesis by (auto simp: round_even_def Let_def)
  next
    case False
    with pq floor_mono [OF pq] have "\<lfloor>p\<rfloor> + 1 \<le> \<lfloor>q\<rfloor>" by linarith
    moreover have "round_even p \<le> \<lfloor>p\<rfloor> + 1" by (auto simp: round_even_def Let_def)
    moreover have "\<lfloor>q\<rfloor> \<le> round_even q" by (auto simp: round_even_def Let_def)
    ultimately show ?thesis by linarith
  qed
qed

lemma round_even_minus: "round_even (- q) = - round_even q"
proof (cases "q = of_int \<lfloor>q\<rfloor>")
  case True
  then show ?thesis by (metis of_int_minus round_even_of_int)
next
  case False
  then have lt: "of_int \<lfloor>q\<rfloor> < q" using of_int_floor_le [of q] by linarith
  have f: "\<lfloor>- q\<rfloor> = - \<lfloor>q\<rfloor> - 1"
  proof (rule floor_unique)
    show "of_int (- \<lfloor>q\<rfloor> - 1) \<le> - q" using floor_correct [of q] by simp
    show "- q < of_int (- \<lfloor>q\<rfloor> - 1) + 1" using lt by simp
  qed
  show ?thesis unfolding round_even_def Let_def f using lt by auto
qed

section \<open>Rounding to binary64\<close>

lemma rnd_0 [simp]: "rnd 0 = 0"
  by (simp add: rnd_def)

lemma rnd_minus: "rnd (- x) = - rnd x"
  by (simp add: rnd_def ulp_def round_even_minus)

lemma grid_int:
  assumes "e' \<le> e"
  shows "\<exists>m. (2::rat) powi e / 2 powi e' = of_int m"
proof -
  have "(2::rat) powi e / 2 powi e' = 2 powi (e - e')" by (simp add: power_int_diff)
  also have "\<dots> = of_int (2 ^ nat (e - e'))" using assms by (simp add: power_int_nonneg_exp)
  finally show ?thesis by blast
qed

lemma rnd_le_grid:
  assumes "0 < x" and "x \<le> of_int m * ulp x"
  shows "rnd x \<le> of_int m * ulp x"
proof -
  have "x / ulp x \<le> of_int m" using assms ulp_pos [of x] by (simp add: field_simps)
  then have "of_int (round_even (x / ulp x)) \<le> (of_int m :: rat)"
    by (simp add: round_even_le)
  then show ?thesis using assms(1) ulp_pos [of x] by (simp add: rnd_def)
qed

lemma rnd_ge_grid:
  assumes "0 < x" and "of_int m * ulp x \<le> x"
  shows "of_int m * ulp x \<le> rnd x"
proof -
  have "of_int m \<le> x / ulp x" using assms ulp_pos [of x] by (simp add: field_simps)
  then have "(of_int m :: rat) \<le> of_int (round_even (x / ulp x))"
    by (simp add: round_even_ge)
  then show ?thesis using assms(1) ulp_pos [of x] by (simp add: rnd_def)
qed

lemma rnd_mono_pos:
  assumes "0 < x" and "x \<le> y"
  shows "rnd x \<le> rnd y"
proof (cases "ulp x = ulp y")
  case True
  have "x / ulp y \<le> y / ulp y" using assms ulp_pos [of y] by (simp add: divide_right_mono)
  then have "(of_int (round_even (x / ulp y)) :: rat) \<le> of_int (round_even (y / ulp y))"
    by (simp add: round_even_mono)
  with assms True ulp_pos [of y] show ?thesis by (simp add: rnd_def)
next
  case False
  let ?e = "rat_exp y"
  have y: "0 < y" using assms by simp
  have le: "rat_exp x \<le> ?e" using assms by (rule rat_exp_mono)
  have "rat_exp x \<noteq> ?e" using False assms y by (auto simp: ulp_def)
  with le have lt: "rat_exp x < ?e" by linarith
  have big: "- 1074 < ?e - 52"
  proof (rule ccontr)
    assume "\<not> ?thesis"
    then have "max (rat_exp x - 52) (- 1074) = - 1074" and "max (?e - 52) (- 1074) = - 1074"
      using le by simp_all
    with False assms y show False by (simp add: ulp_def)
  qed
  have uy: "ulp y = 2 powi (?e - 52)" using big y by (simp add: ulp_def)
  have ux: "ulp x = 2 powi (max (rat_exp x - 52) (- 1074))" using assms by (simp add: ulp_def)
  obtain m where m: "2 powi ?e / ulp x = of_int m"
    unfolding ux using lt big grid_int [of "max (rat_exp x - 52) (- 1074)" ?e] by auto
  then have mx: "2 powi ?e = of_int m * ulp x" using ulp_pos [of x] by (simp add: field_simps)
  have "(2::rat) powi (rat_exp x + 1) \<le> 2 powi ?e" using lt by (intro powi_le) simp
  then have "x \<le> of_int m * ulp x"
    using rat_exp_spec(2) [OF assms(1)] mx by linarith
  then have a: "rnd x \<le> 2 powi ?e" using rnd_le_grid [OF assms(1)] mx by simp
  obtain k where k: "2 powi ?e / ulp y = of_int k"
    unfolding uy using grid_int [of "?e - 52" ?e] by auto
  then have ky: "2 powi ?e = of_int k * ulp y" using ulp_pos [of y] by (simp add: field_simps)
  have "of_int k * ulp y \<le> y" using rat_exp_spec(1) [OF y] ky by linarith
  then have "2 powi ?e \<le> rnd y" using rnd_ge_grid [OF y] ky by simp
  with a show ?thesis by linarith
qed

lemma rnd_nonneg: "0 \<le> x \<Longrightarrow> 0 \<le> rnd x"
proof (cases "x = 0")
  case False
  assume "0 \<le> x"
  with False have "0 < x" by simp
  with rnd_ge_grid [of x 0] show ?thesis by simp
qed simp

lemma rnd_mono: "x \<le> y \<Longrightarrow> rnd x \<le> rnd y"
proof -
  assume xy: "x \<le> y"
  consider "0 < x" | "x \<le> 0 \<and> 0 \<le> y" | "y < 0" using xy by linarith
  then show ?thesis
  proof cases
    case 1
    then show ?thesis using xy by (rule rnd_mono_pos)
  next
    case 2
    then have "0 \<le> rnd y" and "0 \<le> rnd (- x)" by (simp_all add: rnd_nonneg)
    then show ?thesis by (simp add: rnd_minus)
  next
    case 3
    then have "rnd (- y) \<le> rnd (- x)" using xy by (intro rnd_mono_pos) auto
    then show ?thesis by (simp add: rnd_minus)
  qed
qed

text \<open>Values with a significand of at most 53 bits on the grid are kept exactly.\<close>

lemma rnd_dyadic:
  assumes "\<bar>m\<bar> < 2 ^ 53" and "- 1074 \<le> e"
  shows "rnd (of_int m * 2 powi e) = of_int m * 2 powi e"
proof (cases "m = 0")
  case False
  let ?x = "of_int m * 2 powi e :: rat"
  have x: "0 < \<bar>?x\<bar>" using False by (simp add: abs_mult)
  have "\<bar>?x\<bar> = of_int \<bar>m\<bar> * 2 powi e" by (simp add: abs_mult)
  also have "\<dots> < 2 ^ 53 * 2 powi e" using assms(1) by (simp flip: of_int_abs)
  also have "\<dots> = 2 powi (e + 53)" by (simp add: power_int_add)
  finally have "\<not> e + 53 \<le> rat_exp \<bar>?x\<bar>"
    using rat_exp_spec(1) [OF x] powi_le [of "e + 53" "rat_exp \<bar>?x\<bar>"] by linarith
  then have g: "max (rat_exp \<bar>?x\<bar> - 52) (- 1074) \<le> e" using assms(2) by simp
  then obtain k where "2 powi e / ulp ?x = of_int k"
    unfolding ulp_def using grid_int by blast
  then have q: "?x / ulp ?x = of_int (m * k)" by (metis of_int_mult times_divide_eq_right)
  have "rnd ?x = ?x / ulp ?x * ulp ?x" unfolding rnd_def q round_even_of_int using False by simp
  then show ?thesis using ulp_pos [of ?x] by simp
qed simp

lemma rnd_of_int: "\<bar>m\<bar> < 2 ^ 53 \<Longrightarrow> rnd (of_int m) = of_int m"
  using rnd_dyadic [of m 0] by simp

lemma rnd_pos_form:
  assumes "0 < x"
  shows "\<exists>m e. rnd x = of_int m * 2 powi e \<and> \<bar>m\<bar> < 2 ^ 53 \<and> - 1074 \<le> e"
proof -
  let ?e = "max (rat_exp x - 52) (- 1074)" and ?m = "round_even (x / ulp x)"
  have u: "ulp x = 2 powi ?e" using assms by (simp add: ulp_def)
  have "(2::rat) powi (rat_exp x + 1) \<le> 2 powi (53 + ?e)" by (intro powi_le) simp
  also have "\<dots> = 2 ^ 53 * ulp x" unfolding u by (simp add: power_int_add)
  finally have "x \<le> 2 ^ 53 * ulp x" using rat_exp_spec(2) [OF assms] by linarith
  then have "x / ulp x \<le> of_int (2 ^ 53)" using ulp_pos [of x] by (simp add: field_simps)
  then have le: "?m \<le> 2 ^ 53" by (rule round_even_le)
  have ge: "0 \<le> ?m" using assms ulp_pos [of x] by (intro round_even_ge) simp
  have r: "rnd x = of_int ?m * 2 powi ?e" using assms unfolding u [symmetric] by (simp add: rnd_def)
  show ?thesis
  proof (cases "?m = 2 ^ 53")
    case False
    with le ge r show ?thesis by (intro exI [of _ ?m] exI [of _ ?e]) auto
  next
    case True
    have "rnd x = of_int 1 * 2 powi (53 + ?e)" unfolding r True by (simp add: power_int_add)
    then show ?thesis by (intro exI [of _ 1] exI [of _ "53 + ?e"]) auto
  qed
qed

lemma rnd_idem [simp]: "rnd (rnd x) = rnd x"
proof -
  have pos: "rnd (rnd y) = rnd y" if "0 < y" for y
    using rnd_pos_form [OF that] rnd_dyadic by metis
  consider "0 < x" | "x = 0" | "0 < - x" by linarith
  then show ?thesis
  proof cases
    case 3
    then show ?thesis using pos [of "- x"] by (simp add: rnd_minus)
  qed (simp_all add: pos)
qed

section \<open>Signs and order of doubles\<close>

text \<open>Neither a NaN nor negative: what every accumulated quantity of the program is.\<close>

fun d_nonneg :: "double \<Rightarrow> bool" where
  "d_nonneg (Fin r) = (0 \<le> r)"
| "d_nonneg PInf = True"
| "d_nonneg NInf = False"
| "d_nonneg NaN = False"

text \<open>A value the type can hold: a finite one lies on the grid.\<close>

fun is_double :: "double \<Rightarrow> bool" where
  "is_double (Fin r) = (rnd r = r)"
| "is_double _ = True"

lemma is_double_to_double [simp]: "is_double (to_double x)"
  by (simp add: to_double_def)

lemma is_double_add [simp]: "is_double (d_add a b)"
  by (induction a b rule: d_add.induct) simp_all

lemma is_double_sub [simp]: "is_double (d_sub a b)"
  by (simp add: d_sub_def)

lemma nonneg_to_double [dbl_simps]: "0 \<le> x \<Longrightarrow> d_nonneg (to_double x)"
  using rnd_nonneg [of x] by (auto simp: to_double_def)

lemma nonneg_add [dbl_simps]: "d_nonneg a \<Longrightarrow> d_nonneg b \<Longrightarrow> d_nonneg (d_add a b)"
  by (cases a; cases b) (auto simp: nonneg_to_double)

lemma nonneg_of_u64 [dbl_simps]: "d_nonneg (d_of_u64 w)"
  unfolding d_of_u64_def by (intro nonneg_to_double of_nat_0_le_iff)

lemma nonneg_of_long [dbl_simps]: "0 \<le> i \<Longrightarrow> d_nonneg (d_of_long i)"
  by (simp add: d_of_long_def nonneg_to_double)

lemma of_u64_Fin: "\<exists>r. d_of_u64 w = Fin r \<and> 0 \<le> r"
proof -
  have "unat w \<le> 2 ^ 64" using unsigned_less [of w, where ?'a = nat] by simp
  then have "of_nat (unat w) \<le> (of_nat (2 ^ 64) :: rat)" by (simp only: of_nat_le_iff)
  then have "rnd (of_nat (unat w)) \<le> rnd (of_int 1 * 2 powi 64)" by (intro rnd_mono) simp
  also have "\<dots> = 2 ^ 64" by (subst rnd_dyadic) simp_all
  finally have up: "rnd (of_nat (unat w)) < 2 ^ 1024" by (rule le_less_trans) simp
  have nn: "0 \<le> rnd (of_nat (unat w))" by (intro rnd_nonneg of_nat_0_le_iff)
  then have "\<not> rnd (of_nat (unat w)) \<le> - (2 ^ 1024)" by simp
  with up nn show ?thesis by (simp only: d_of_u64_def to_double_def if_False not_le) simp
qed

text \<open>Dividing a finite non-negative value by a positive one never gives a NaN.\<close>

lemma nonneg_div [dbl_simps]:
  "d_nonneg a \<Longrightarrow> d_less (Fin 0) b \<Longrightarrow> a \<noteq> PInf \<or> b \<noteq> PInf \<Longrightarrow> d_nonneg (d_div a b)"
  by (cases a; cases b) (auto simp: nonneg_to_double inf_sign_def)

lemma nonneg_mul_pos [dbl_simps]:
  "d_nonneg a \<Longrightarrow> 0 < r \<Longrightarrow> d_nonneg (d_mul a (Fin r))"
  by (cases a) (auto simp: nonneg_to_double inf_sign_def)

text \<open>A positive representable increment keeps a non-negative sum positive: no underflow.\<close>

lemma add_pos:
  assumes "d_nonneg a" and "is_double b" and "d_less (Fin 0) b"
  shows "d_less (Fin 0) (d_add a b)"
proof (cases a; cases b)
  fix x y assume ab: "a = Fin x" "b = Fin y"
  with assms have "y \<le> x + y" and y: "0 < y" "rnd y = y" by auto
  then have "0 < rnd (x + y)" using rnd_mono [of y "x + y"] by simp
  moreover from this have "\<not> rnd (x + y) \<le> - (2 ^ 1024)" by simp
  ultimately show ?thesis by (simp add: ab to_double_def)
qed (use assms in auto)

lemma less_irrefl_d [simp]: "\<not> d_less a a"
  by (cases a) auto

lemma less_trans_d: "d_less a b \<Longrightarrow> d_less b c \<Longrightarrow> d_less a c"
  by (cases a; cases b; cases c) auto

lemma less_linear_d: "a \<noteq> NaN \<Longrightarrow> b \<noteq> NaN \<Longrightarrow> d_less a b \<or> a = b \<or> d_less b a"
  by (cases a; cases b) auto

lemma less_asym_d: "d_less a b \<Longrightarrow> \<not> d_less b a"
  by (cases a; cases b) auto

lemma nonneg_not_NaN: "d_nonneg d \<Longrightarrow> d \<noteq> NaN"
  by auto

text \<open>Two different representable values differ by at least the smallest subnormal.\<close>

lemma grid_multiple: "\<exists>n. rnd x = of_int n * 2 powi (- 1074)"
proof -
  have pos: "\<exists>n. rnd y = of_int n * 2 powi (- 1074)" if "0 < y" for y
  proof -
    obtain m e where r: "rnd y = of_int m * 2 powi e" and e: "- 1074 \<le> e"
      using rnd_pos_form [OF \<open>0 < y\<close>] by blast
    obtain k where "(2::rat) powi e / 2 powi (- 1074) = of_int k" using grid_int [OF e] by blast
    then have "(2::rat) powi e = of_int k * 2 powi (- 1074)"
      by (simp only: divide_eq_eq) simp
    then have "rnd y = of_int (m * k) * 2 powi (- 1074)" unfolding r by simp
    then show ?thesis by blast
  qed
  consider "0 < x" | "x = 0" | "0 < - x" by linarith
  then show ?thesis
  proof cases
    case 3
    with pos [of "- x"] obtain n where "rnd (- x) = of_int n * 2 powi (- 1074)" by blast
    then have "rnd x = of_int (- n) * 2 powi (- 1074)" by (simp add: rnd_minus)
    then show ?thesis by blast
  next
    case 2
    then show ?thesis by (intro exI [of _ 0]) simp
  qed (rule pos)
qed

lemma rnd_diff_pos:
  assumes "rnd a = a" and "rnd b = b" and "a < b"
  shows "0 < rnd (b - a)"
proof -
  obtain m n where m: "a = of_int m * 2 powi (- 1074)" and n: "b = of_int n * 2 powi (- 1074)"
    using grid_multiple [of a] grid_multiple [of b] assms(1,2) by auto
  then have "(of_int m :: rat) * 2 powi (- 1074) < of_int n * 2 powi (- 1074)" using assms(3) by simp
  then have "(of_int m :: rat) < of_int n" by (simp add: mult_less_cancel_right)
  then have le: "m + 1 \<le> n" by simp
  then have "of_int 1 \<le> (of_int (n - m) :: rat)" by (simp only: of_int_le_iff)
  then have "of_int 1 * 2 powi (- 1074) \<le> of_int (n - m) * (2 powi (- 1074) :: rat)"
    by (rule mult_right_mono) simp
  also have "\<dots> = b - a" unfolding m n by (simp add: left_diff_distrib)
  finally have "rnd (of_int 1 * 2 powi (- 1074)) \<le> rnd (b - a)" by (rule rnd_mono)
  then have "(of_int 1 :: rat) * 2 powi (- 1074) \<le> rnd (b - a)"
    by (subst (asm) rnd_dyadic) simp_all
  then show ?thesis by (rule less_le_trans [rotated]) simp
qed

text \<open>Finite and representable, as the monotonic clock's readings are.\<close>

fun is_finite :: "double \<Rightarrow> bool" where
  "is_finite (Fin r) = (rnd r = r)"
| "is_finite _ = False"

lemma is_finite_Fin: "is_finite d \<Longrightarrow> \<exists>r. d = Fin r \<and> rnd r = r"
  by (cases d) auto

lemma sub_pos:
  assumes "is_finite a" and "is_finite b" and "d_less a b"
  shows "d_less (Fin 0) (d_sub b a)"
proof -
  obtain x y where ab: "a = Fin x" "b = Fin y" "rnd x = x" "rnd y = y"
    using assms(1,2) is_finite_Fin by blast
  with assms(3) have "0 < rnd (y - x)" by (intro rnd_diff_pos) auto
  then show ?thesis by (auto simp: ab d_sub_def to_double_def)
qed

lemma sub_finite: "is_finite a \<Longrightarrow> is_finite b \<Longrightarrow> d_sub a b \<noteq> NaN"
  by (cases a; cases b) (auto simp: d_sub_def to_double_def)

lemma pos_nonneg: "d_less (Fin 0) d \<Longrightarrow> d_nonneg d"
  by (cases d) auto

lemma not_le_pos: "d \<noteq> NaN \<Longrightarrow> \<not> d_le d (Fin 0) \<Longrightarrow> d_less (Fin 0) d"
  using less_linear_d [of d "Fin 0"] by (auto simp: d_le_def)

lemma pos_not_le: "d_less (Fin 0) d \<Longrightarrow> \<not> d_le d (Fin 0)"
  using less_asym_d by (auto simp: d_le_def)

text \<open>A positive \<^verbatim>\<open>long\<close> converts to a finite value of at least 1; dividing by it stays finite.\<close>

lemma of_long_pos:
  assumes "1 \<le> i" and "i \<le> LONG_MAX"
  shows "\<exists>r. d_of_long i = Fin r \<and> 1 \<le> r"
proof -
  have "rnd (of_int 1) \<le> rnd (of_int i)" using assms(1) by (intro rnd_mono) simp
  then have lo: "1 \<le> rnd (of_int i)" using rnd_of_int [of 1] by simp
  have "i \<le> 2 ^ 63" using assms(2) by (simp add: LONG_MAX_def)
  then have "(of_int i :: rat) \<le> of_int (2 ^ 63)" by (simp only: of_int_le_iff)
  then have "rnd (of_int i) \<le> rnd (of_int 1 * 2 powi 63)" by (intro rnd_mono) simp
  also have "\<dots> = 2 ^ 63" by (subst rnd_dyadic) simp_all
  finally have "rnd (of_int i) < 2 ^ 1024" by (rule le_less_trans) simp
  with lo show ?thesis by (auto simp: d_of_long_def to_double_def)
qed

lemma div_by_long:
  assumes "rnd a = a" and "0 \<le> a" and "a < 2 ^ 1024" and "1 \<le> b"
  shows "\<exists>r. d_div (Fin a) (Fin b) = Fin r \<and> 0 \<le> r"
proof -
  have "a / b \<le> a" using assms(2,4) by (simp add: divide_le_eq mult_le_cancel_left1)
  then have "rnd (a / b) \<le> a" using rnd_mono [of "a / b" a] assms(1) by simp
  with assms(3) have up: "rnd (a / b) < 2 ^ 1024" by simp
  have "0 \<le> rnd (a / b)" using assms(2,4) by (intro rnd_nonneg) simp
  with up assms(4) show ?thesis by (auto simp: to_double_def)
qed

lemma of_u64_rep: "\<exists>r. d_of_u64 w = Fin r \<and> rnd r = r \<and> 0 \<le> r \<and> r < 2 ^ 1024"
  using of_u64_Fin [of w] by (auto simp: d_of_u64_def to_double_def split: if_splits)

text \<open>Moderate values neither overflow nor leave their power of two.\<close>

lemma to_double_bounded:
  assumes "\<bar>x\<bar> \<le> 2 ^ k" and "k \<le> 1023"
  shows "\<exists>r. to_double x = Fin r \<and> \<bar>r\<bar> \<le> 2 ^ k"
proof -
  have p: "rnd (2 ^ k) = (2 ^ k :: rat)" using rnd_dyadic [of 1 "int k"] by simp
  have "rnd x \<le> 2 ^ k" and "rnd (- x) \<le> 2 ^ k"
    using rnd_mono [of x "2 ^ k"] rnd_mono [of "- x" "2 ^ k"] assms(1) p by (simp_all add: abs_le_iff)
  then have b: "\<bar>rnd x\<bar> \<le> 2 ^ k" by (simp add: rnd_minus abs_le_iff)
  have "(2 :: rat) ^ k < 2 ^ 1024" using assms(2) by (intro power_strict_increasing) simp_all
  with b show ?thesis by (auto simp: to_double_def)
qed

lemma of_long_bounded: "\<bar>i\<bar> \<le> 2 ^ k \<Longrightarrow> k \<le> 1023 \<Longrightarrow> \<exists>r. d_of_long i = Fin r \<and> \<bar>r\<bar> \<le> 2 ^ k"
  unfolding d_of_long_def
  by (rule to_double_bounded) (metis of_int_abs of_int_le_iff of_int_numeral of_int_power)

section \<open>Evaluating closed terms\<close>

text \<open>
  A closed term whose exact value needs no rounding is evaluated by giving the value as a
  fraction with a power of two below the line.
\<close>

lemma rnd_half_power:
  assumes "\<bar>m\<bar> < 2 ^ 53" and "k \<le> 1074" and "x * 2 ^ k = of_int m"
  shows "rnd x = x"
proof -
  have "x = of_int m / 2 ^ k" using assms(3) by (simp add: field_simps)
  then have "x = of_int m * 2 powi (- int k)" by (simp add: power_int_minus field_simps)
  then show ?thesis using rnd_dyadic [of m "- int k"] assms(1,2) by simp
qed

lemma to_double_exact:
  assumes "\<bar>m\<bar> < 2 ^ 53" and "k \<le> 1074" and "x * 2 ^ k = of_int m"
  shows "to_double x = Fin x"
proof -
  have r: "rnd x = x" using assms by (rule rnd_half_power)
  have "\<bar>x\<bar> * 1 \<le> \<bar>x\<bar> * 2 ^ k" by (intro mult_left_mono) simp_all
  also have "\<dots> = \<bar>x * 2 ^ k\<bar>" by (simp add: abs_mult)
  also have "\<dots> = of_int \<bar>m\<bar>" by (simp only: assms(3) of_int_abs)
  also have "\<dots> < of_int (2 ^ 53)" using assms(1) by (simp only: of_int_less_iff)
  also have "\<dots> \<le> (2 ^ 1024 :: rat)" by simp
  finally have "\<bar>x\<bar> < 2 ^ 1024" by simp
  then show ?thesis by (auto simp: to_double_def r abs_less_iff)
qed

lemma to_double_numeral:
  "numeral n < (2 ^ 53 :: int) \<Longrightarrow> to_double (numeral n) = Fin (numeral n)"
  using to_double_exact [of "numeral n" 0 "numeral n"] by simp

lemma to_double_0 [simp]: "to_double 0 = Fin 0"
  by (simp add: to_double_def)

lemma to_double_1 [simp]: "to_double 1 = Fin 1"
  using to_double_exact [of 1 0 1] by simp

lemma to_double_half [simp]: "to_double (1 / 2) = Fin (1 / 2)"
  using to_double_exact [of 1 1 "1 / 2"] by simp

end
