(* ===== verification/Process_State.thy ===== *)
theory Process_State
  imports C_Double
begin

text \<open>
  The records of \<^verbatim>\<open>process_stats.h\<close> and \<^verbatim>\<open>process_stats.c\<close>: one sample of one process, the
  aggregated state kept per process, the request flags of the final report and the globals of
  the module. A field keeps its C name; the fields of the sample carry the prefix \<open>i_\<close>.
\<close>

record process_state_input_t =
  i_pid :: int
  i_comm :: string
  i_state :: char
  i_ppid :: int
  i_utime :: u64
  i_stime :: u64
  i_rssKb :: int
  i_timestamp :: double
  i_h_r_timestamp :: string
  i_threads :: int
  i_read_kbytes :: u64
  i_write_kbytes :: u64
  i_bo_is_rss_valid :: bool
  i_bo_is_io_valid :: bool
  i_number_of_fds :: u64
  i_bo_is_fd_valid :: bool

record process_state_t =
  pid :: int
  comm :: string
  utime :: u64
  stime :: u64
  rss_kb :: int
  threads :: int
  state :: char
  total_read_kbytes :: u64
  total_write_kbytes :: u64
  prev_cpu_ticks :: u64
  prev_rss_kb :: int
  prev_timestamp :: double
  initial_num_of_fds :: u64
  fd_delta :: int
  current_num_of_fds :: u64
  bo_is_fd_initialized :: bool
  number_of_records :: u64
  cpu_usage :: double
  average_cpu_usage :: double
  cpu_usage_sum :: double
  cpu_usage_samples :: int
  rss_initial_kb :: int
  rss_average_kb :: int
  rss_sum :: int
  rss_variation_since_startup :: int
  bo_is_rss_initialized :: bool
  num_of_rss_records :: u64
  prev_read_kbytes :: u64
  prev_write_kbytes :: u64
  avg_read_rate_kb_s :: double
  avg_write_rate_kb_s :: double
  io_time_acc :: double
  bo_is_io_initialized :: bool
  seen_in_snapshot :: bool

record process_stats_metrics_arguments =
  cpu_average_requested :: bool
  cpu_average_pids_to_display :: int
  rss_average_requested :: bool
  rss_average_pids_to_display :: int
  rss_increase_requested :: bool
  rss_increase_pids_to_display :: int
  rss_delta_requested :: bool
  rss_delta_pids_to_display :: int
  bytes_read_requested :: bool
  bytes_read_pids_to_display :: int
  bytes_write_requested :: bool
  bytes_write_pids_to_display :: int
  read_rate_requested :: bool
  read_rate_pids_to_display :: int
  write_rate_requested :: bool
  write_rate_pids_to_display :: int
  fds_increase_requested :: bool
  fds_increase_pids_to_display :: int
  opened_fds_requested :: bool
  opened_fds_pids_to_display :: int
  fds_delta_requested :: bool
  fds_delta_pids_to_display :: int

text \<open>What \<^verbatim>\<open>calloc(1, sizeof(*ps))\<close> returns: every field zero.\<close>

definition zero_process :: process_state_t where
  "zero_process = \<lparr>
     pid = 0, comm = [], utime = 0, stime = 0, rss_kb = 0, threads = 0, state = CHR 0x00,
     total_read_kbytes = 0, total_write_kbytes = 0,
     prev_cpu_ticks = 0, prev_rss_kb = 0, prev_timestamp = Fin 0,
     initial_num_of_fds = 0, fd_delta = 0, current_num_of_fds = 0, bo_is_fd_initialized = False,
     number_of_records = 0,
     cpu_usage = Fin 0, average_cpu_usage = Fin 0, cpu_usage_sum = Fin 0, cpu_usage_samples = 0,
     rss_initial_kb = 0, rss_average_kb = 0, rss_sum = 0, rss_variation_since_startup = 0,
     bo_is_rss_initialized = False, num_of_rss_records = 0,
     prev_read_kbytes = 0, prev_write_kbytes = 0,
     avg_read_rate_kb_s = Fin 0, avg_write_rate_kb_s = Fin 0, io_time_acc = Fin 0,
     bo_is_io_initialized = False, seen_in_snapshot = False\<rparr>"

definition zero_metrics_arguments :: process_stats_metrics_arguments where
  "zero_metrics_arguments = \<lparr>
     cpu_average_requested = False, cpu_average_pids_to_display = 0,
     rss_average_requested = False, rss_average_pids_to_display = 0,
     rss_increase_requested = False, rss_increase_pids_to_display = 0,
     rss_delta_requested = False, rss_delta_pids_to_display = 0,
     bytes_read_requested = False, bytes_read_pids_to_display = 0,
     bytes_write_requested = False, bytes_write_pids_to_display = 0,
     read_rate_requested = False, read_rate_pids_to_display = 0,
     write_rate_requested = False, write_rate_pids_to_display = 0,
     fds_increase_requested = False, fds_increase_pids_to_display = 0,
     opened_fds_requested = False, opened_fds_pids_to_display = 0,
     fds_delta_requested = False, fds_delta_pids_to_display = 0\<rparr>"

end
