(* ===== verification/UT_Hash.thy ===== *)
theory UT_Hash
  imports Prelude
begin

text \<open>
  The vendored hash table \<^verbatim>\<open>uthash.h\<close>, as far as the statistics module uses it:
  \<^verbatim>\<open>HASH_FIND_INT\<close>, \<^verbatim>\<open>HASH_ADD_INT\<close> with bucket expansion, \<^verbatim>\<open>HASH_ITER\<close> and
  \<^verbatim>\<open>HASH_COUNT\<close>. A table keeps its items in insertion order (the \<^verbatim>\<open>next\<close>/\<^verbatim>\<open>prev\<close> list of the
  handles); the address of an item is its position there, which no operation of this theory
  changes (\<open>UT_Delete\<close> holds deletion), and a bucket chain (\<^verbatim>\<open>hh_next\<close>) is the list of the addresses
  it links, head first.
  The counters are natural numbers: the keys are distinct C integers, so there are fewer than
  \<open>2 ^ 32\<close> items. A table whose head pointer is NULL is \<^term>\<open>None\<close>.
  The allocations of the macros themselves (the table, its first buckets, the doubled buckets) succeed
  here; where they fail, the program is left by \<^verbatim>\<open>uthash_fatal\<close>, that is by \<^verbatim>\<open>exit(-1)\<close>.
\<close>

unbundle bit_operations_syntax

section \<open>The hash function\<close>

fun hash_jen_round :: "u32 \<times> u32 \<times> u32 \<Rightarrow> nat \<times> nat \<times> nat \<Rightarrow> u32 \<times> u32 \<times> u32" where
  "hash_jen_round (a, b, c) (r1, r2, r3) =
     (let a = (a - b - c) XOR drop_bit r1 c;
          b = (b - c - a) XOR push_bit r2 a;
          c = (c - a - b) XOR drop_bit r3 b
      in (a, b, c))"

definition HASH_JEN_MIX :: "u32 \<times> u32 \<times> u32 \<Rightarrow> u32 \<times> u32 \<times> u32" where
  "HASH_JEN_MIX abc =
     hash_jen_round (hash_jen_round (hash_jen_round abc (13, 8, 13)) (12, 16, 5)) (3, 10, 15)"

text \<open>Byte \<open>n\<close> of the key's little-endian representation.\<close>

definition key_byte :: "int \<Rightarrow> nat \<Rightarrow> u32" where
  "key_byte k n = drop_bit (8 * n) (word_of_int k :: u32) AND 0xFF"

text \<open>For \<^verbatim>\<open>keylen = sizeof(int)\<close> the 12-byte loop does not run and the switch enters at \<^verbatim>\<open>case 4\<close>.\<close>

definition HASH_JEN :: "int \<Rightarrow> u32" where
  "HASH_JEN k =
     (let i = 0x9e3779b9 + push_bit 24 (key_byte k 3) + push_bit 16 (key_byte k 2)
                + push_bit 8 (key_byte k 1) + key_byte k 0;
          j = 0x9e3779b9;
          hashv = 0xfeedbeef + 4
      in snd (snd (HASH_JEN_MIX (i, j, hashv))))"

definition HASH_TO_BKT :: "u32 \<Rightarrow> nat \<Rightarrow> nat" where
  "HASH_TO_BKT hashv num_bkts = unat (hashv AND (of_nat num_bkts - 1))"

section \<open>The table\<close>

record UT_hash_bucket =
  hh_chain :: "nat list"
  bkt_count :: nat
  expand_mult :: nat

record 'a UT_hash_table =
  items :: "'a list"
  hashvs :: "u32 list"
  buckets :: "UT_hash_bucket list"
  num_buckets :: nat
  log2_num_buckets :: nat
  num_items :: nat
  ideal_chain_maxlen :: nat
  nonideal_items :: nat
  ineff_expands :: nat
  noexpand :: bool

definition empty_bucket :: UT_hash_bucket where
  "empty_bucket = \<lparr>hh_chain = [], bkt_count = 0, expand_mult = 0\<rparr>"

definition HASH_MAKE_TABLE :: "'a UT_hash_table" where
  "HASH_MAKE_TABLE = \<lparr>items = [], hashvs = [], buckets = replicate 32 empty_bucket,
     num_buckets = 32, log2_num_buckets = 5, num_items = 0, ideal_chain_maxlen = 0,
     nonideal_items = 0, ineff_expands = 0, noexpand = False\<rparr>"

text \<open>Moving one item of an old chain to the head of its new bucket.\<close>

definition expand_item ::
    "u32 list \<Rightarrow> nat \<Rightarrow> nat \<Rightarrow> nat \<Rightarrow> UT_hash_bucket list \<times> nat \<Rightarrow> UT_hash_bucket list \<times> nat" where
  "expand_item hvs nb ideal i st =
     (let (bs, nonideal) = st;
          j = HASH_TO_BKT (hvs ! i) nb;
          b = bs ! j;
          c = bkt_count b + 1;
          b' = b\<lparr>hh_chain := i # hh_chain b, bkt_count := c\<rparr>
      in if ideal < c
         then (bs[j := (if expand_mult b * ideal < c
                        then b'\<lparr>expand_mult := expand_mult b + 1\<rparr> else b')], nonideal + 1)
         else (bs[j := b'], nonideal))"

definition HASH_EXPAND_BUCKETS :: "'a UT_hash_table \<Rightarrow> 'a UT_hash_table" where
  "HASH_EXPAND_BUCKETS t =
     (let nb = num_buckets t * 2;
          ideal = num_items t div 2 ^ (log2_num_buckets t + 1)
                    + (if num_items t mod nb \<noteq> 0 then 1 else 0);
          (bs, nonideal) = fold (expand_item (hashvs t) nb ideal)
             (concat (map hh_chain (buckets t))) (replicate nb empty_bucket, 0);
          ineff = (if num_items t div 2 < nonideal then ineff_expands t + 1 else 0)
      in t\<lparr>ideal_chain_maxlen := ideal, nonideal_items := nonideal,
           num_buckets := nb, log2_num_buckets := log2_num_buckets t + 1, buckets := bs,
           ineff_expands := ineff, noexpand := (if 1 < ineff then True else noexpand t)\<rparr>)"

definition HASH_ADD_TO_BKT :: "nat \<Rightarrow> nat \<Rightarrow> 'a UT_hash_table \<Rightarrow> 'a UT_hash_table" where
  "HASH_ADD_TO_BKT j i t =
     (let b = buckets t ! j;
          b' = b\<lparr>bkt_count := bkt_count b + 1, hh_chain := i # hh_chain b\<rparr>;
          t' = t\<lparr>buckets := (buckets t)[j := b']\<rparr>
      in if (expand_mult b + 1) * 10 \<le> bkt_count b' \<and> \<not> noexpand t'
         then HASH_EXPAND_BUCKETS t' else t')"

text \<open>Appending to the insertion-order list, then to the bucket of the key's hash value.\<close>

definition HASH_ADD_KEYPTR :: "int \<Rightarrow> 'a \<Rightarrow> 'a UT_hash_table \<Rightarrow> 'a UT_hash_table" where
  "HASH_ADD_KEYPTR k x t =
     (let hv = HASH_JEN k;
          i = length (items t);
          t' = t\<lparr>items := items t @ [x], hashvs := hashvs t @ [hv], num_items := num_items t + 1\<rparr>
      in HASH_ADD_TO_BKT (HASH_TO_BKT hv (num_buckets t')) i t')"

definition HASH_ADD_INT ::
    "('a \<Rightarrow> int) \<Rightarrow> 'a \<Rightarrow> 'a UT_hash_table option \<Rightarrow> 'a UT_hash_table option" where
  "HASH_ADD_INT intfield add head =
     Some (HASH_ADD_KEYPTR (intfield add) add
             (case head of None \<Rightarrow> HASH_MAKE_TABLE | Some t \<Rightarrow> t))"

definition HASH_FIND_IN_BKT :: "('a \<Rightarrow> int) \<Rightarrow> 'a UT_hash_table \<Rightarrow> nat \<Rightarrow> int \<Rightarrow> u32 \<Rightarrow> nat option" where
  "HASH_FIND_IN_BKT intfield t j k hv =
     find (\<lambda>i. hashvs t ! i = hv \<and> intfield (items t ! i) = k) (hh_chain (buckets t ! j))"

text \<open>The address of the item found, if any.\<close>

definition HASH_FIND_INT :: "('a \<Rightarrow> int) \<Rightarrow> 'a UT_hash_table option \<Rightarrow> int \<Rightarrow> nat option" where
  "HASH_FIND_INT intfield head k = (case head of None \<Rightarrow> None
     | Some t \<Rightarrow> HASH_FIND_IN_BKT intfield t (HASH_TO_BKT (HASH_JEN k) (num_buckets t)) k (HASH_JEN k))"

definition HASH_ITER :: "'a UT_hash_table option \<Rightarrow> 'a list" where
  "HASH_ITER head = (case head of None \<Rightarrow> [] | Some t \<Rightarrow> items t)"

definition HASH_COUNT :: "'a UT_hash_table option \<Rightarrow> nat" where
  "HASH_COUNT head = (case head of None \<Rightarrow> 0 | Some t \<Rightarrow> num_items t)"

text \<open>Reading and writing an item through the pointer a lookup returned.\<close>

definition item_at :: "'a UT_hash_table option \<Rightarrow> nat \<Rightarrow> 'a option" where
  "item_at head i = (case head of None \<Rightarrow> None
     | Some t \<Rightarrow> if i < length (items t) then Some (items t ! i) else None)"

definition write_item :: "nat \<Rightarrow> ('a \<Rightarrow> 'a) \<Rightarrow> 'a UT_hash_table option \<Rightarrow> 'a UT_hash_table option" where
  "write_item i f head = map_option (\<lambda>t. t\<lparr>items := (items t)[i := f (items t ! i)]\<rparr>) head"

section \<open>The invariant\<close>

text \<open>Bucket \<open>j\<close> links exactly the items below \<open>n\<close> whose hash value selects it, each once.\<close>

definition chain_ok :: "(nat \<Rightarrow> bool) \<Rightarrow> u32 list \<Rightarrow> nat \<Rightarrow> UT_hash_bucket list \<Rightarrow> nat \<Rightarrow> bool" where
  "chain_ok P hvs nb bs j = (let b = bs ! j in
     distinct (hh_chain b) \<and> bkt_count b = length (hh_chain b)
     \<and> set (hh_chain b) = {i. P i \<and> HASH_TO_BKT (hvs ! i) nb = j})"

definition ut_inv :: "('a \<Rightarrow> int) \<Rightarrow> 'a UT_hash_table \<Rightarrow> bool" where
  "ut_inv intfield t =
     (num_buckets t = 2 ^ log2_num_buckets t \<and> length (buckets t) = num_buckets t
      \<and> num_items t = length (items t)
      \<and> hashvs t = map (HASH_JEN \<circ> intfield) (items t)
      \<and> distinct (map intfield (items t))
      \<and> (\<forall>j < num_buckets t. chain_ok (\<lambda>i. i < length (items t)) (hashvs t) (num_buckets t) (buckets t) j))"

definition table_ok :: "('a \<Rightarrow> int) \<Rightarrow> 'a UT_hash_table option \<Rightarrow> bool" where
  "table_ok intfield head = (case head of None \<Rightarrow> True | Some t \<Rightarrow> ut_inv intfield t)"

lemma HASH_TO_BKT_less: "HASH_TO_BKT hv (2 ^ k) < 2 ^ k"
proof (cases "k < 32")
  case True
  have le: "hv AND (of_nat (2 ^ k) - 1) \<le> (of_nat (2 ^ k) - 1 :: u32)"
    by (rule word_and_le1)
  have "(of_nat (2 ^ k) - 1 :: u32) = of_nat (2 ^ k - 1)" by (simp add: of_nat_diff)
  then have "unat (of_nat (2 ^ k) - 1 :: u32) = (2 ^ k - 1) mod 2 ^ 32"
    by (simp only: unat_of_nat) simp
  moreover have "(2 ^ k - 1) mod 2 ^ 32 < (2 ^ k :: nat)"
    by (rule le_less_trans [OF mod_less_eq_dividend]) simp
  ultimately show ?thesis
    using le by (simp add: HASH_TO_BKT_def word_le_nat_alt)
next
  case False
  have "unat (hv AND (of_nat (2 ^ k) - 1)) < 2 ^ 32" 
    using unsigned_less [of "hv AND (of_nat (2 ^ k) - 1)", where ?'a = nat] by simp
  also have "(2::nat) ^ 32 \<le> 2 ^ k" using False by (intro power_increasing) auto
  finally show ?thesis by (simp add: HASH_TO_BKT_def)
qed

text \<open>Expansion: the new buckets partition the items by the new mask.\<close>

lemma expand_item_ok:
  assumes "nb = 2 ^ k" and "length bs = nb" and "i \<notin> A"
    and "\<forall>j < nb. chain_ok (\<lambda>i. i \<in> A) hvs nb bs j"
    and "expand_item hvs nb ideal i (bs, ni) = (bs', ni')"
  shows "length bs' = nb \<and> (\<forall>j < nb. chain_ok (\<lambda>x. x \<in> insert i A) hvs nb bs' j)"
proof -
  let ?j = "HASH_TO_BKT (hvs ! i) nb"
  have j: "?j < nb" using HASH_TO_BKT_less assms(1) by simp
  obtain b' where bs': "bs' = bs[?j := b']" and b': "hh_chain b' = i # hh_chain (bs ! ?j)"
      "bkt_count b' = bkt_count (bs ! ?j) + 1"
    using assms(5) by (auto simp: expand_item_def Let_def split: if_splits)
  have "chain_ok (\<lambda>x. x \<in> insert i A) hvs nb bs' l" if l: "l < nb" for l
  proof (cases "l = ?j")
    case True
    have "chain_ok (\<lambda>i. i \<in> A) hvs nb bs ?j" using assms(4) j by blast
    with assms(3) b' j True assms(2) show ?thesis
      by (auto simp: chain_ok_def Let_def bs')
  next
    case False
    have "chain_ok (\<lambda>i. i \<in> A) hvs nb bs l" using assms(4) l by blast
    with False show ?thesis by (auto simp: chain_ok_def Let_def bs')
  qed
  with assms(2) show ?thesis by (simp add: bs')
qed

lemma expand_fold_ok:
  assumes "nb = 2 ^ k" and "length bs = nb" and "distinct xs" and "set xs \<inter> A = {}"
    and "\<forall>j < nb. chain_ok (\<lambda>i. i \<in> A) hvs nb bs j"
    and "fold (expand_item hvs nb ideal) xs (bs, ni) = (bs', ni')"
  shows "length bs' = nb \<and> (\<forall>j < nb. chain_ok (\<lambda>i. i \<in> A \<union> set xs) hvs nb bs' j)"
  using assms(2-6)
proof (induction xs arbitrary: bs ni A)
  case Nil
  then show ?case by simp
next
  case (Cons x xs)
  obtain bs1 ni1 where e: "expand_item hvs nb ideal x (bs, ni) = (bs1, ni1)" by fastforce
  have x: "x \<notin> A" using Cons.prems(3) by auto
  note s = expand_item_ok [OF assms(1) Cons.prems(1) x Cons.prems(4) e]
  have "length bs' = nb \<and> (\<forall>j < nb. chain_ok (\<lambda>i. i \<in> insert x A \<union> set xs) hvs nb bs' j)"
    using s Cons.prems(2,3,5) e by (intro Cons.IH [of bs1 "insert x A" ni1]) auto
  then show ?case by simp
qed

lemma chains_cover:
  assumes "ut_inv intfield t"
  shows "distinct (concat (map hh_chain (buckets t)))"
    and "set (concat (map hh_chain (buckets t))) = {i. i < length (items t)}"
proof -
  let ?n = "length (items t)" and ?h = "hashvs t" and ?nb = "num_buckets t"
  have len: "length (buckets t) = ?nb" and k: "?nb = 2 ^ log2_num_buckets t"
    and ok: "\<And>j. j < ?nb \<Longrightarrow> chain_ok (\<lambda>i. i < ?n) ?h ?nb (buckets t) j"
    using assms by (auto simp: ut_inv_def)
  show "distinct (concat (map hh_chain (buckets t)))"
    using ok len by (intro distinct_concat_nth) (auto simp: chain_ok_def Let_def)
  show "set (concat (map hh_chain (buckets t))) = {i. i < ?n}"
  proof (rule set_eqI, rule iffI)
    fix i assume "i \<in> set (concat (map hh_chain (buckets t)))"
    then obtain j where "j < ?nb" and "i \<in> set (hh_chain (buckets t ! j))"
      using len by (auto simp: in_set_conv_nth [of _ "buckets t"])
    with ok [of j] show "i \<in> {i. i < ?n}" by (auto simp: chain_ok_def Let_def)
  next
    fix i assume i: "i \<in> {i. i < ?n}"
    let ?j = "HASH_TO_BKT (?h ! i) ?nb"
    have j: "?j < ?nb" unfolding k by (rule HASH_TO_BKT_less)
    with ok [of ?j] i have "i \<in> set (hh_chain (buckets t ! ?j))"
      by (auto simp: chain_ok_def Let_def)
    with j len show "i \<in> set (concat (map hh_chain (buckets t)))"
      by (auto intro!: bexI [of _ "buckets t ! ?j"])
  qed
qed

lemma ut_inv_expand:
  assumes "ut_inv intfield t"
  shows "ut_inv intfield (HASH_EXPAND_BUCKETS t)"
proof -
  let ?nb = "num_buckets t * 2" and ?xs = "concat (map hh_chain (buckets t))"
  define ideal where "ideal = num_items t div 2 ^ (log2_num_buckets t + 1)
      + (if num_items t mod ?nb \<noteq> 0 then 1 else 0)"
  obtain bs ni where f: "fold (expand_item (hashvs t) ?nb ideal) ?xs (replicate ?nb empty_bucket, 0)
      = (bs, ni)" by fastforce
  have nb: "?nb = 2 ^ (log2_num_buckets t + 1)" using assms by (simp add: ut_inv_def)
  have start: "\<forall>j < ?nb. chain_ok (\<lambda>i. i \<in> {}) (hashvs t) ?nb (replicate ?nb empty_bucket) j"
    by (simp add: chain_ok_def empty_bucket_def)
  have "length bs = ?nb \<and> (\<forall>j < ?nb. chain_ok (\<lambda>i. i \<in> {} \<union> set ?xs) (hashvs t) ?nb bs j)"
    by (rule expand_fold_ok [OF nb _ chains_cover(1) [OF assms] _ start f]) simp_all
  then have bs: "length bs = ?nb"
      "\<forall>j < ?nb. chain_ok (\<lambda>i. i < length (items t)) (hashvs t) ?nb bs j"
    unfolding chains_cover(2) [OF assms] by simp_all
  have e: "items (HASH_EXPAND_BUCKETS t) = items t" "hashvs (HASH_EXPAND_BUCKETS t) = hashvs t"
      "num_items (HASH_EXPAND_BUCKETS t) = num_items t" "buckets (HASH_EXPAND_BUCKETS t) = bs"
      "num_buckets (HASH_EXPAND_BUCKETS t) = ?nb"
      "log2_num_buckets (HASH_EXPAND_BUCKETS t) = log2_num_buckets t + 1"
    unfolding HASH_EXPAND_BUCKETS_def Let_def ideal_def [symmetric] f by simp_all
  show ?thesis unfolding ut_inv_def e using assms bs nb by (simp add: ut_inv_def)
qed

lemma items_expand [simp]: "items (HASH_EXPAND_BUCKETS t) = items t"
  by (simp add: HASH_EXPAND_BUCKETS_def Let_def split: prod.splits)

lemma items_add_to_bkt [simp]: "items (HASH_ADD_TO_BKT j i t) = items t"
  by (simp add: HASH_ADD_TO_BKT_def Let_def)

lemma items_add [simp]: "items (HASH_ADD_KEYPTR k x t) = items t @ [x]"
  by (simp add: HASH_ADD_KEYPTR_def Let_def)

lemma ut_inv_add:
  assumes inv: "ut_inv intfield t" and new: "intfield x \<notin> intfield ` set (items t)"
  shows "ut_inv intfield (HASH_ADD_KEYPTR (intfield x) x t)"
proof -
  let ?n = "length (items t)" and ?hv = "HASH_JEN (intfield x)" and ?nb = "num_buckets t"
  let ?j = "HASH_TO_BKT ?hv ?nb" and ?h' = "hashvs t @ [?hv]"
  define b where "b = buckets t ! ?j"
  define b' where "b' = b\<lparr>bkt_count := bkt_count b + 1, hh_chain := ?n # hh_chain b\<rparr>"
  define t' where "t' = t\<lparr>items := items t @ [x], hashvs := ?h',
      num_items := num_items t + 1, buckets := (buckets t)[?j := b']\<rparr>"
  have hlen: "length (hashvs t) = ?n" using inv by (simp add: ut_inv_def)
  have j: "?j < ?nb" using inv HASH_TO_BKT_less by (simp add: ut_inv_def)
  have chains: "chain_ok (\<lambda>i. i < Suc ?n) ?h' ?nb (buckets t') l" if l: "l < ?nb" for l
  proof -
    have old: "chain_ok (\<lambda>i. i < ?n) (hashvs t) ?nb (buckets t) l"
      using inv l unfolding ut_inv_def by blast
    have split: "{i. i < Suc ?n \<and> HASH_TO_BKT (?h' ! i) ?nb = l} =
        {i. i < ?n \<and> HASH_TO_BKT (hashvs t ! i) ?nb = l} \<union> (if l = ?j then {?n} else {})"
      using hlen by (auto simp: nth_append less_Suc_eq)
    show ?thesis
    proof (cases "l = ?j")
      case True
      with old split j inv show ?thesis
        by (auto simp: chain_ok_def Let_def t'_def b'_def b_def ut_inv_def)
    next
      case False
      with old split show ?thesis by (auto simp: chain_ok_def Let_def t'_def)
    qed
  qed
  have "ut_inv intfield t'"
    using inv new chains by (auto simp: ut_inv_def t'_def)
  moreover have "HASH_ADD_KEYPTR (intfield x) x t =
      (if (expand_mult b + 1) * 10 \<le> bkt_count b' \<and> \<not> noexpand t' then HASH_EXPAND_BUCKETS t' else t')"
    unfolding HASH_ADD_KEYPTR_def HASH_ADD_TO_BKT_def Let_def t'_def b'_def b_def by simp
  ultimately show ?thesis using ut_inv_expand by auto
qed

section \<open>Lookup, iteration and writes\<close>

text \<open>The record a lookup finds.\<close>

definition table_lookup :: "('a \<Rightarrow> int) \<Rightarrow> 'a UT_hash_table option \<Rightarrow> int \<Rightarrow> 'a option" where
  "table_lookup intfield head k = Option.bind (HASH_FIND_INT intfield head k) (item_at head)"

lemma ut_inv_make: "ut_inv intfield HASH_MAKE_TABLE"
  by (simp add: ut_inv_def HASH_MAKE_TABLE_def chain_ok_def empty_bucket_def)

lemma find_int_Some:
  assumes "ut_inv intfield t"
  shows "HASH_FIND_INT intfield (Some t) k = Some i \<longleftrightarrow>
    i < length (items t) \<and> intfield (items t ! i) = k"
proof -
  let ?j = "HASH_TO_BKT (HASH_JEN k) (num_buckets t)"
  let ?P = "\<lambda>i. hashvs t ! i = HASH_JEN k \<and> intfield (items t ! i) = k"
  have hv: "\<And>i. i < length (items t) \<Longrightarrow> hashvs t ! i = HASH_JEN (intfield (items t ! i))"
    using assms by (simp add: ut_inv_def)
  have j: "?j < num_buckets t" using assms HASH_TO_BKT_less by (simp add: ut_inv_def)
  then have "chain_ok (\<lambda>i. i < length (items t)) (hashvs t) (num_buckets t) (buckets t) ?j"
    using assms unfolding ut_inv_def by blast
  then have chain: "set (hh_chain (buckets t ! ?j)) =
      {i. i < length (items t) \<and> HASH_TO_BKT (hashvs t ! i) (num_buckets t) = ?j}"
    by (simp add: chain_ok_def Let_def)
  have find: "HASH_FIND_INT intfield (Some t) k = find ?P (hh_chain (buckets t ! ?j))"
    by (simp add: HASH_FIND_INT_def HASH_FIND_IN_BKT_def)
  show ?thesis
  proof
    assume "HASH_FIND_INT intfield (Some t) k = Some i"
    then have "find ?P (hh_chain (buckets t ! ?j)) = Some i" unfolding find .
    from find_SomeD [OF this] show "i < length (items t) \<and> intfield (items t ! i) = k"
      unfolding chain by simp
  next
    assume i: "i < length (items t) \<and> intfield (items t ! i) = k"
    then have P: "?P i" using hv by simp
    then have "i \<in> set (hh_chain (buckets t ! ?j))" unfolding chain using i by simp
    with P have "find ?P (hh_chain (buckets t ! ?j)) \<noteq> None" unfolding find_None_set by blast
    then obtain i' where i': "find ?P (hh_chain (buckets t ! ?j)) = Some i'" by blast
    from find_SomeD [OF this] have "i' < length (items t)" and "intfield (items t ! i') = k"
      unfolding chain by simp_all
    moreover have "distinct (map intfield (items t))" using assms by (simp add: ut_inv_def)
    ultimately have "i' = i" using i by (metis length_map nth_eq_iff_index_eq nth_map)
    with i' show "HASH_FIND_INT intfield (Some t) k = Some i" unfolding find by simp
  qed
qed

lemma find_distinct_nth:
  assumes "distinct (map f xs)" and "i < length xs"
  shows "find (\<lambda>x. f x = f (xs ! i)) xs = Some (xs ! i)"
proof -
  have "find (\<lambda>x. f x = f (xs ! i)) xs \<noteq> None" using assms(2) by (auto simp: find_None_set)
  then obtain y where y: "find (\<lambda>x. f x = f (xs ! i)) xs = Some y" by blast
  then have "y \<in> set xs" and "f y = f (xs ! i)" using find_SomeD by fastforce+
  then have "y = xs ! i" using assms by (metis distinct_map inj_on_eq_iff nth_mem)
  with y show ?thesis by simp
qed

lemma table_lookup_iter:
  assumes "table_ok intfield head"
  shows "table_lookup intfield head k = find (\<lambda>x. intfield x = k) (HASH_ITER head)"
proof (cases head)
  case None
  then show ?thesis by (simp add: table_lookup_def HASH_FIND_INT_def HASH_ITER_def)
next
  case (Some t)
  then have inv: "ut_inv intfield t" using assms by (simp add: table_ok_def)
  show ?thesis
  proof (cases "HASH_FIND_INT intfield (Some t) k")
    case None
    then have "\<forall>x \<in> set (items t). intfield x \<noteq> k"
      using find_int_Some [OF inv] by (metis in_set_conv_nth option.distinct(1))
    then have "find (\<lambda>x. intfield x = k) (items t) = None" by (simp add: find_None_set)
    with None Some show ?thesis by (simp add: table_lookup_def HASH_ITER_def)
  next
    case found: (Some i)
    then have i: "i < length (items t)" "intfield (items t ! i) = k"
      using find_int_Some [OF inv] by auto
    have "distinct (map intfield (items t))" using inv by (simp add: ut_inv_def)
    with i have "find (\<lambda>x. intfield x = k) (items t) = Some (items t ! i)"
      using find_distinct_nth by blast
    with found i Some show ?thesis by (simp add: table_lookup_def HASH_ITER_def item_at_def)
  qed
qed

lemma list_update_map:
  assumes "distinct (map f xs)" and "i < length xs"
  shows "xs[i := g (xs ! i)] = map (\<lambda>x. if f x = f (xs ! i) then g x else x) xs"
proof (rule nth_equalityI)
  fix j assume "j < length (xs[i := g (xs ! i)])"
  then show "xs[i := g (xs ! i)] ! j = map (\<lambda>x. if f x = f (xs ! i) then g x else x) xs ! j"
    using assms by (auto simp: nth_list_update nth_eq_iff_index_eq distinct_conv_nth)
qed simp

lemma ut_inv_write:
  assumes "ut_inv intfield t" and "i < length (items t)" and "\<And>x. intfield (f x) = intfield x"
  shows "ut_inv intfield (t\<lparr>items := (items t)[i := f (items t ! i)]\<rparr>)"
proof -
  have "map intfield ((items t)[i := f (items t ! i)]) = map intfield (items t)"
    using assms(2,3) by (simp add: map_update list_update_same_conv)
  then have "map (HASH_JEN \<circ> intfield) ((items t)[i := f (items t ! i)])
      = map (HASH_JEN \<circ> intfield) (items t)"
    and "distinct (map intfield ((items t)[i := f (items t ! i)])) = distinct (map intfield (items t))"
    by (simp_all flip: map_map)
  with assms(1) show ?thesis by (auto simp: ut_inv_def)
qed

section \<open>The interface\<close>

text \<open>
  What a client of an integer-keyed table relies on: a lookup returns the record iteration
  would find, adding appends, writing through the pointer of a lookup changes the record of
  that key and no other.
\<close>

locale int_table =
  fixes key :: "'v \<Rightarrow> int"
    and find_ptr :: "'t \<Rightarrow> int \<Rightarrow> 'p option"
    and lookup :: "'t \<Rightarrow> int \<Rightarrow> 'v option"
    and add :: "'v \<Rightarrow> 't \<Rightarrow> 't"
    and store :: "'p \<Rightarrow> ('v \<Rightarrow> 'v) \<Rightarrow> 't \<Rightarrow> 't"
    and iter :: "'t \<Rightarrow> 'v list"
    and count :: "'t \<Rightarrow> nat"
    and ok :: "'t \<Rightarrow> bool"
  assumes lookup_iter: "ok t \<Longrightarrow> lookup t k = find (\<lambda>v. key v = k) (iter t)"
    and find_ptr_iff: "ok t \<Longrightarrow> find_ptr t k = None \<longleftrightarrow> lookup t k = None"
    and iter_add: "iter (add v t) = iter t @ [v]"
    and ok_add: "ok t \<Longrightarrow> lookup t (key v) = None \<Longrightarrow> ok (add v t)"
    and iter_store: "ok t \<Longrightarrow> find_ptr t k = Some p \<Longrightarrow>
      iter (store p f t) = map (\<lambda>v. if key v = k then f v else v) (iter t)"
    and ok_store: "ok t \<Longrightarrow> find_ptr t k = Some p \<Longrightarrow> (\<And>v. key (f v) = key v) \<Longrightarrow> ok (store p f t)"
    and iter_distinct: "ok t \<Longrightarrow> distinct (map key (iter t))"
    and count_iter: "ok t \<Longrightarrow> count t = length (iter t)"
begin

lemma find_map_if:
  "(\<And>v. key (f v) = key v) \<Longrightarrow>
   find (\<lambda>v. key v = k') (map (\<lambda>v. if key v = k then f v else v) vs) =
   (if k' = k then map_option f (find (\<lambda>v. key v = k) vs) else find (\<lambda>v. key v = k') vs)"
  by (induction vs) auto

lemma lookup_add:
  "ok t \<Longrightarrow> lookup t (key v) = None \<Longrightarrow>
   lookup (add v t) k = (if k = key v then Some v else lookup t k)"
  using ok_add [of t v] by (auto simp: lookup_iter iter_add find_append split: option.splits)

lemma lookup_store:
  "ok t \<Longrightarrow> find_ptr t k = Some p \<Longrightarrow> (\<And>v. key (f v) = key v) \<Longrightarrow>
   lookup (store p f t) k' = (if k' = k then map_option f (lookup t k) else lookup t k')"
  using ok_store [of t k p f] by (simp add: lookup_iter iter_store find_map_if)

text \<open>The client's pattern: find the record of a key, create it if there is none, update it.\<close>

lemma upsert:
  assumes "ok t" and "key v = k" and f: "\<And>v. key (f v) = key v"
    and t': "t' = (if find_ptr t k = None then add v t else t)"
  shows "\<exists>p. find_ptr t' k = Some p \<and> ok (store p f t') \<and>
    lookup (store p f t') k' =
      (if k' = k then Some (f (case lookup t k of None \<Rightarrow> v | Some u \<Rightarrow> u)) else lookup t k')"
proof -
  have lk: "ok t' \<and> lookup t' k = Some (case lookup t k of None \<Rightarrow> v | Some u \<Rightarrow> u)
      \<and> (k' \<noteq> k \<longrightarrow> lookup t' k' = lookup t k')"
  proof (cases "lookup t k")
    case None
    then have e: "t' = add v t" using assms(1) t' by (simp add: find_ptr_iff)
    show ?thesis unfolding e using None assms(1,2) ok_add [of t v] lookup_add [of t v] by simp
  next
    case (Some u)
    then have "t' = t" using assms(1) t' by (simp add: find_ptr_iff)
    with Some assms(1) show ?thesis by simp
  qed
  then obtain p where p: "find_ptr t' k = Some p" using find_ptr_iff by fastforce
  then show ?thesis
    using lk ok_store [of t' k p f, OF _ p f] lookup_store [of t' k p f k', OF _ p f] by auto
qed

end

text \<open>uthash provides it, for every key field.\<close>

lemma add_int_iter: "HASH_ITER (HASH_ADD_INT intfield v head) = HASH_ITER head @ [v]"
  by (cases head) (simp_all add: HASH_ADD_INT_def HASH_ITER_def HASH_MAKE_TABLE_def)

lemma add_int_ok:
  assumes "table_ok intfield head" and "table_lookup intfield head (intfield v) = None"
  shows "table_ok intfield (HASH_ADD_INT intfield v head)"
proof -
  let ?t = "case head of None \<Rightarrow> HASH_MAKE_TABLE | Some t \<Rightarrow> t"
  have inv: "ut_inv intfield ?t"
    using assms(1) ut_inv_make by (auto simp: table_ok_def split: option.splits)
  have "find (\<lambda>x. intfield x = intfield v) (HASH_ITER head) = None"
    using assms table_lookup_iter by metis
  then have "intfield v \<notin> intfield ` set (items ?t)"
    by (auto simp: HASH_ITER_def find_None_set HASH_MAKE_TABLE_def split: option.splits)
  with inv show ?thesis unfolding HASH_ADD_INT_def table_ok_def by (simp add: ut_inv_add)
qed

interpretation ut: int_table intfield "HASH_FIND_INT intfield" "table_lookup intfield"
    "HASH_ADD_INT intfield" write_item HASH_ITER HASH_COUNT "table_ok intfield"
  for intfield :: "'a \<Rightarrow> int"
proof (unfold_locales, goal_cases)
  case (1 t k)
  then show ?case by (rule table_lookup_iter)
next
  case (2 t k)
  show ?case
  proof (cases t)
    case None
    then show ?thesis by (simp add: table_lookup_def HASH_FIND_INT_def)
  next
    case (Some tt)
    then have inv: "ut_inv intfield tt" using 2 by (simp add: table_ok_def)
    show ?thesis
    proof (cases "HASH_FIND_INT intfield (Some tt) k")
      case None
      with Some show ?thesis by (simp add: table_lookup_def)
    next
      case found: (Some i)
      then have "i < length (items tt)" using find_int_Some [OF inv] by blast
      with found Some show ?thesis by (simp add: table_lookup_def item_at_def)
    qed
  qed
next
  case (3 v t)
  show ?case by (rule add_int_iter)
next
  case (4 t v)
  then show ?case by (rule add_int_ok)
next
  case (5 t k p f)
  then obtain tt where t: "t = Some tt" and "ut_inv intfield tt"
    by (cases t) (auto simp: HASH_FIND_INT_def table_ok_def)
  with find_int_Some 5 have "p < length (items tt)" and k: "intfield (items tt ! p) = k"
    and "distinct (map intfield (items tt))" by (auto simp: ut_inv_def)
  from list_update_map [OF this(3,1)] k t show ?case by (simp add: write_item_def HASH_ITER_def)
next
  case (6 t k p f)
  then obtain tt where t: "t = Some tt" and inv: "ut_inv intfield tt"
    by (cases t) (auto simp: HASH_FIND_INT_def table_ok_def)
  with find_int_Some 6 have p: "p < length (items tt)" by blast
  show ?case
    using ut_inv_write [OF inv p, of f, OF 6(3)] t by (simp add: write_item_def table_ok_def)
next
  case (7 t)
  then show ?case by (cases t) (auto simp: HASH_ITER_def table_ok_def ut_inv_def)
next
  case (8 t)
  then show ?case by (cases t) (auto simp: HASH_ITER_def HASH_COUNT_def table_ok_def ut_inv_def)
qed

end
