(* ===== verification/UT_Delete.thy ===== *)
theory UT_Delete
  imports UT_Hash
begin

text \<open>
  Deletion from the vendored hash table: \<^verbatim>\<open>HASH_DEL\<close>, which unlinks an item from the
  insertion-order list and from its bucket and drops the table with its last item, and the loop
  that frees a table while it iterates over it. An item's address is its position in the
  insertion order, so unlinking item \<open>i\<close> renames the addresses behind it
  (\<open>moved\<close>); in the code the items stay where they are.
\<close>

section \<open>Operations\<close>

definition moved :: "nat \<Rightarrow> nat \<Rightarrow> nat" where
  "moved i p = (if i < p then p - 1 else p)"

definition without :: "nat \<Rightarrow> 'b list \<Rightarrow> 'b list" where
  "without i xs = take i xs @ drop (Suc i) xs"

definition HASH_DEL_IN_BKT :: "nat \<Rightarrow> UT_hash_bucket \<Rightarrow> UT_hash_bucket" where
  "HASH_DEL_IN_BKT i b = b\<lparr>bkt_count := bkt_count b - 1, hh_chain := remove1 i (hh_chain b)\<rparr>"

text \<open>The item has neither \<^verbatim>\<open>prev\<close> nor \<^verbatim>\<open>next\<close> when it is the only one.\<close>

definition HASH_DELETE_HH :: "nat \<Rightarrow> 'a UT_hash_table \<Rightarrow> 'a UT_hash_table option" where
  "HASH_DELETE_HH i t =
     (if i = 0 \<and> \<not> Suc i < length (items t) then None
      else let j = HASH_TO_BKT (hashvs t ! i) (num_buckets t);
               bs = (buckets t)[j := HASH_DEL_IN_BKT i (buckets t ! j)]
           in Some (t\<lparr>items := without i (items t), hashvs := without i (hashvs t),
                 buckets := map (\<lambda>b. b\<lparr>hh_chain := map (moved i) (hh_chain b)\<rparr>) bs,
                 num_items := num_items t - 1\<rparr>))"

definition HASH_DEL :: "nat \<Rightarrow> 'a UT_hash_table option \<Rightarrow> 'a UT_hash_table option" where
  "HASH_DEL i head = Option.bind head (HASH_DELETE_HH i)"

text \<open>The pointer \<^verbatim>\<open>hh.next\<close> of an item.\<close>

definition hh_next :: "'a UT_hash_table option \<Rightarrow> nat \<Rightarrow> nat option" where
  "hh_next head i = (if Suc i < length (HASH_ITER head) then Some (Suc i) else None)"

text \<open>
  \<^verbatim>\<open>HASH_ITER\<close> with the body \<^verbatim>\<open>HASH_DEL(head, el); free(el)\<close>: the successor is read before the
  body runs. The first component is what was freed, in order.
\<close>

function free_loop :: "nat option \<Rightarrow> 'a UT_hash_table option \<Rightarrow> 'a list \<times> 'a UT_hash_table option" where
  "free_loop el head = (case el of None \<Rightarrow> ([], head)
     | Some i \<Rightarrow>
         let tmp = hh_next head i;
             freed = (case item_at head i of None \<Rightarrow> [] | Some x \<Rightarrow> [x]);
             (rest, head') = free_loop (map_option (moved i) tmp) (HASH_DEL i head)
         in (freed @ rest, head'))"
  by pat_completeness auto

lemma length_without: "length (without i xs) = (if i < length xs then length xs - 1 else length xs)"
  by (simp add: without_def)

lemma iter_del_le: "length (HASH_ITER (HASH_DEL i head)) \<le> length (HASH_ITER head)"
  by (auto simp: HASH_DEL_def HASH_DELETE_HH_def HASH_ITER_def Let_def length_without
      split: option.splits)

lemma iter_del_less:
  "hh_next head i \<noteq> None \<Longrightarrow> length (HASH_ITER (HASH_DEL i head)) < length (HASH_ITER head)"
  by (auto simp: HASH_DEL_def HASH_DELETE_HH_def HASH_ITER_def hh_next_def Let_def length_without
      split: option.splits if_splits)

termination free_loop
proof (relation "measure (\<lambda>(el, head). length (HASH_ITER head) + (if el = None then 0 else 1))",
    goal_cases)
  case 1
  show ?case by simp
next
  case (2 el head i)
  then show ?case using iter_del_le [of i head] iter_del_less [of head i]
    by (cases "hh_next head i") auto
qed

declare free_loop.simps [simp del]

section \<open>The invariant survives a deletion\<close>

lemma filter_key_id: "k \<notin> f ` set xs \<Longrightarrow> filter (\<lambda>x. f x \<noteq> k) xs = xs"
  by (induction xs) auto

lemma without_filter:
  assumes "distinct (map f xs)" and "i < length xs"
  shows "without i xs = filter (\<lambda>x. f x \<noteq> f (xs ! i)) xs"
proof -
  have xs: "xs = take i xs @ xs ! i # drop (Suc i) xs" using assms(2) by (rule id_take_nth_drop)
  then have "distinct (map f (take i xs @ xs ! i # drop (Suc i) xs))" using assms(1) by simp
  then have "f (xs ! i) \<notin> f ` set (take i xs)" and "f (xs ! i) \<notin> f ` set (drop (Suc i) xs)"
    by auto
  then have "filter (\<lambda>x. f x \<noteq> f (xs ! i)) (take i xs @ xs ! i # drop (Suc i) xs) = without i xs"
    by (simp add: without_def filter_key_id)
  with xs show ?thesis by simp
qed

lemma length_filter_key:
  "k \<in> f ` set xs \<Longrightarrow> distinct (map f xs) \<Longrightarrow> Suc (length (filter (\<lambda>x. f x \<noteq> k) xs)) = length xs"
proof (induction xs)
  case (Cons x xs)
  show ?case
  proof (cases "f x = k")
    case True
    with Cons.prems(2) have "filter (\<lambda>x. f x \<noteq> k) xs = xs" by (simp add: filter_key_id)
    with True show ?thesis by simp
  next
    case False
    with Cons show ?thesis by auto
  qed
qed simp

lemma map_without: "map f (without i xs) = without i (map f xs)"
  by (simp add: without_def take_map drop_map)

lemma moved_inj: "inj_on (moved i) (- {i})"
  by (auto simp: inj_on_def moved_def split: if_splits)

lemma moved_image:
  assumes "i < n"
  shows "moved i ` {p. p < n \<and> p \<noteq> i \<and> Q p} =
    {q. q < n - 1 \<and> Q (if q < i then q else Suc q)}"
proof (rule set_eqI, rule iffI)
  fix q assume "q \<in> moved i ` {p. p < n \<and> p \<noteq> i \<and> Q p}"
  then show "q \<in> {q. q < n - 1 \<and> Q (if q < i then q else Suc q)}"
    using assms by (auto simp: moved_def split: if_splits)
next
  fix q assume q: "q \<in> {q. q < n - 1 \<and> Q (if q < i then q else Suc q)}"
  then show "q \<in> moved i ` {p. p < n \<and> p \<noteq> i \<and> Q p}"
    using assms by (intro image_eqI [of _ _ "if q < i then q else Suc q"]) (auto simp: moved_def)
qed

lemma nth_without':
  "i < length xs \<Longrightarrow> q < length xs - 1 \<Longrightarrow> without i xs ! q = xs ! (if q < i then q else Suc q)"
  by (auto simp: without_def nth_append min_def)

text \<open>The new bucket \<open>l\<close>, in terms of the old one.\<close>

definition unlinked :: "nat \<Rightarrow> bool \<Rightarrow> UT_hash_bucket \<Rightarrow> UT_hash_bucket" where
  "unlinked i here b = (let b = (if here then HASH_DEL_IN_BKT i b else b)
     in b\<lparr>hh_chain := map (moved i) (hh_chain b)\<rparr>)"

lemma chain_ok_delete:
  assumes ok: "chain_ok (\<lambda>p. p < length hvs) hvs nb bs l" and i: "i < length hvs"
    and new: "bs' ! l = unlinked i (HASH_TO_BKT (hvs ! i) nb = l) (bs ! l)"
  shows "chain_ok (\<lambda>p. p < length hvs - 1) (without i hvs) nb bs' l"
proof -
  let ?in = "HASH_TO_BKT (hvs ! i) nb = l" and ?c = "hh_chain (bs ! l)"
  let ?c' = "if ?in then remove1 i ?c else ?c"
  have d: "distinct ?c" and n: "bkt_count (bs ! l) = length ?c"
    and s: "set ?c = {p. p < length hvs \<and> HASH_TO_BKT (hvs ! p) nb = l}"
    using ok by (auto simp: chain_ok_def Let_def)
  have mem: "i \<in> set ?c \<longleftrightarrow> ?in" using s i by simp
  have d': "distinct ?c'" using d by simp
  have s': "set ?c' = {p. p < length hvs \<and> p \<noteq> i \<and> HASH_TO_BKT (hvs ! p) nb = l}"
    using s d mem by auto
  have inj: "inj_on (moved i) (set ?c')"
    by (rule inj_on_subset [OF moved_inj]) (use s' in auto)
  have chain: "hh_chain (bs' ! l) = map (moved i) ?c'"
    and cnt: "bkt_count (bs' ! l) = length ?c'"
    using n mem by (auto simp: new unlinked_def HASH_DEL_IN_BKT_def Let_def length_remove1)
  have "set (map (moved i) ?c') =
      {q. q < length hvs - 1 \<and> HASH_TO_BKT (without i hvs ! q) nb = l}"
    unfolding set_map s' moved_image [OF i] using i nth_without' [OF i] by auto
  then show ?thesis
    unfolding chain_ok_def Let_def chain cnt using d' inj by (simp add: distinct_map)
qed

lemma ut_inv_delete:
  assumes inv: "ut_inv intfield t" and i: "i < length (items t)"
    and t': "HASH_DELETE_HH i t = Some t'"
  shows "ut_inv intfield t' \<and> items t' = without i (items t)"
proof -
  let ?j = "HASH_TO_BKT (hashvs t ! i) (num_buckets t)"
  have hl: "length (hashvs t) = length (items t)" using inv by (simp add: ut_inv_def)
  have f: "items t' = without i (items t)" "hashvs t' = without i (hashvs t)"
    "num_buckets t' = num_buckets t" "log2_num_buckets t' = log2_num_buckets t"
    "num_items t' = num_items t - 1" "length (buckets t') = length (buckets t)"
    "\<And>l. l < length (buckets t) \<Longrightarrow> buckets t' ! l = unlinked i (?j = l) (buckets t ! l)"
    using t' by (auto simp: HASH_DELETE_HH_def Let_def unlinked_def nth_list_update
        split: if_splits)
  have "chain_ok (\<lambda>p. p < length (items t) - 1) (without i (hashvs t)) (num_buckets t) (buckets t') l"
    if l: "l < num_buckets t" for l
  proof -
    have "chain_ok (\<lambda>p. p < length (hashvs t)) (hashvs t) (num_buckets t) (buckets t) l"
      using inv l unfolding hl ut_inv_def by blast
    from chain_ok_delete [OF this, of i "buckets t'"] show ?thesis
      using i hl l f(7) inv by (auto simp: ut_inv_def)
  qed
  moreover have "distinct (map intfield (without i (items t)))"
    using inv i by (simp add: ut_inv_def without_filter [of intfield] distinct_map_filter)
  ultimately show ?thesis using inv i f
    by (auto simp: ut_inv_def length_without map_without)
qed

lemma iter_del:
  assumes "table_ok intfield head" and "i < length (HASH_ITER head)"
  shows "HASH_ITER (HASH_DEL i head) = without i (HASH_ITER head)
    \<and> table_ok intfield (HASH_DEL i head)"
proof -
  obtain t where t: "head = Some t" and i: "i < length (items t)" and inv: "ut_inv intfield t"
    using assms by (cases head) (auto simp: HASH_ITER_def table_ok_def)
  show ?thesis
  proof (cases "HASH_DELETE_HH i t")
    case None
    then have "i = 0 \<and> length (items t) = 1" using i
      by (cases "items t") (auto simp: HASH_DELETE_HH_def Let_def split: if_splits)
    with None show ?thesis by (simp add: t HASH_DEL_def HASH_ITER_def table_ok_def without_def)
  next
    case (Some t')
    with ut_inv_delete [OF inv i] show ?thesis
      by (simp add: t HASH_DEL_def HASH_ITER_def table_ok_def)
  qed
qed

lemma find_ptr_item:
  assumes "table_ok intfield head" and "HASH_FIND_INT intfield head k = Some p"
  shows "p < length (HASH_ITER head) \<and> intfield (HASH_ITER head ! p) = k"
  using assms find_int_Some
  by (cases head) (auto simp: HASH_FIND_INT_def [of _ None] HASH_ITER_def table_ok_def)

section \<open>The interface with deletion\<close>

text \<open>Deleting through the pointer of a lookup removes the record of that key and no other.\<close>

locale int_table_del = int_table +
  fixes del :: "'c \<Rightarrow> 'b \<Rightarrow> 'b"
  assumes iter_delete: "ok t \<Longrightarrow> find_ptr t k = Some p \<Longrightarrow>
      iter (del p t) = filter (\<lambda>v. key v \<noteq> k) (iter t)"
    and ok_delete: "ok t \<Longrightarrow> find_ptr t k = Some p \<Longrightarrow> ok (del p t)"
begin

lemma lookup_delete:
  assumes "ok t" and "find_ptr t k = Some p"
  shows "lookup (del p t) k' = (if k' = k then None else lookup t k')"
proof -
  have "find (\<lambda>v. key v = k') (filter (\<lambda>v. key v \<noteq> k) vs) =
      (if k' = k then None else find (\<lambda>v. key v = k') vs)" for vs
    by (induction vs) auto
  with assms show ?thesis by (simp add: lookup_iter ok_delete iter_delete)
qed

lemma count_delete:
  assumes "ok t" and p: "find_ptr t k = Some p"
  shows "Suc (count (del p t)) = count t"
proof -
  obtain v where "find (\<lambda>v. key v = k) (iter t) = Some v"
    using assms find_ptr_iff [of t k] by (auto simp: lookup_iter)
  then have "k \<in> key ` set (iter t)" by (force simp: find_Some_iff)
  moreover have "distinct (map key (iter t))" using assms(1) by (rule iter_distinct)
  ultimately have "Suc (length (filter (\<lambda>v. key v \<noteq> k) (iter t))) = length (iter t)"
    by (rule length_filter_key)
  with assms show ?thesis by (simp add: count_iter ok_delete iter_delete)
qed

end

interpretation ut_del: int_table_del intfield "HASH_FIND_INT intfield" "table_lookup intfield"
    "HASH_ADD_INT intfield" write_item HASH_ITER HASH_COUNT "table_ok intfield" HASH_DEL
  for intfield :: "'a \<Rightarrow> int"
proof (unfold_locales, goal_cases)
  case (1 t k p)
  then have p: "p < length (HASH_ITER t)" and k: "intfield (HASH_ITER t ! p) = k"
    using find_ptr_item by blast+
  have "distinct (map intfield (HASH_ITER t))" using 1(1) by (rule ut.iter_distinct)
  from without_filter [OF this p] iter_del [OF 1(1) p] k show ?case by simp
next
  case (2 t k p)
  then show ?case using find_ptr_item [OF 2] iter_del [OF 2(1)] by blast
qed

section \<open>Freeing a table while iterating over it\<close>

text \<open>Deleting the first item leaves the iteration at the first item of what remains.\<close>

lemma del_head:
  "HASH_ITER (HASH_DEL 0 head) = tl (HASH_ITER head)"
  "map_option (moved 0) (hh_next head 0) = map_option (\<lambda>_. 0) (HASH_DEL 0 head)"
proof -
  show "HASH_ITER (HASH_DEL 0 head) = tl (HASH_ITER head)"
    by (cases head; cases "HASH_ITER head")
      (auto simp: HASH_DEL_def HASH_DELETE_HH_def HASH_ITER_def Let_def without_def drop_Suc)
  show "map_option (moved 0) (hh_next head 0) = map_option (\<lambda>_. 0) (HASH_DEL 0 head)"
    by (cases head)
      (auto simp: hh_next_def HASH_DEL_def HASH_DELETE_HH_def HASH_ITER_def Let_def moved_def)
qed

lemma free_loop_all: "free_loop (map_option (\<lambda>_. 0) head) head = (HASH_ITER head, None)"
proof (induction "length (HASH_ITER head)" arbitrary: head rule: less_induct)
  case less
  show ?case
  proof (cases head)
    case None
    then show ?thesis by (simp add: free_loop.simps HASH_ITER_def)
  next
    case (Some t)
    have step: "free_loop (Some 0) head = (let (rest, head') = free_loop
        (map_option (\<lambda>_. 0) (HASH_DEL 0 head)) (HASH_DEL 0 head)
        in ((case item_at head 0 of None \<Rightarrow> [] | Some x \<Rightarrow> [x]) @ rest, head'))"
      by (subst free_loop.simps) (simp add: Let_def del_head(2))
    have rest: "free_loop (map_option (\<lambda>_. 0) (HASH_DEL 0 head)) (HASH_DEL 0 head)
        = (tl (HASH_ITER head), None)"
    proof (cases "HASH_ITER head")
      case Nil
      then have "HASH_DEL 0 head = None"
        by (simp add: Some HASH_DEL_def HASH_DELETE_HH_def HASH_ITER_def)
      with Nil show ?thesis by (simp add: free_loop.simps)
    next
      case (Cons x xs)
      then show ?thesis using less [of "HASH_DEL 0 head"] by (simp add: del_head(1))
    qed
    have "(case item_at head 0 of None \<Rightarrow> [] | Some x \<Rightarrow> [x]) @ tl (HASH_ITER head) = HASH_ITER head"
      by (cases "items t") (simp_all add: Some item_at_def HASH_ITER_def)
    with step rest Some show ?thesis by simp
  qed
qed

section \<open>The table is a finite map\<close>

definition demo_table :: "int UT_hash_table option" where
  "demo_table = fold (HASH_ADD_INT (\<lambda>k. k)) [7, 39, 7 + 2 ^ 20] None"

lemma demo_table_ok:
  "table_ok (\<lambda>k. k) demo_table" "HASH_ITER demo_table = [7, 39, 7 + 2 ^ 20]"
proof -
  have ok0: "table_ok (\<lambda>k. k) (None :: int UT_hash_table option)" by (simp add: table_ok_def)
  show iter: "HASH_ITER demo_table = [7, 39, 7 + 2 ^ 20]"
    by (simp add: demo_table_def add_int_iter) (simp add: HASH_ITER_def)
  have ok1: "table_ok (\<lambda>k. k) (HASH_ADD_INT (\<lambda>k. k) (7 :: int) None)"
    by (rule ut.ok_add [OF ok0]) (simp add: ut.lookup_iter [OF ok0] HASH_ITER_def)
  have ok2: "table_ok (\<lambda>k. k) (HASH_ADD_INT (\<lambda>k. k) 39 (HASH_ADD_INT (\<lambda>k. k) (7 :: int) None))"
    by (rule ut.ok_add [OF ok1]) (simp add: ut.lookup_iter [OF ok1] add_int_iter, simp add: HASH_ITER_def)
  show "table_ok (\<lambda>k. k) demo_table" unfolding demo_table_def fold_simps
    by (simp, rule ut.ok_add [OF ok2])
      (simp add: ut.lookup_iter [OF ok2] add_int_iter, simp add: HASH_ITER_def)
qed

text \<open>C17: The hash table implements a finite map from keys to records. On a well-formed table,
  \<^verbatim>\<open>HASH_ADD_INT\<close> of a new key adds one entry and \<^verbatim>\<open>HASH_DEL\<close> of the item \<^verbatim>\<open>HASH_FIND_INT\<close>
  returned removes the entry of that key; each leaves every other entry as it was, keeps the
  table well formed (buckets expanded or the table freed where the code does so) and moves
  \<^verbatim>\<open>HASH_COUNT\<close> by one.
\<close>

theorem uthash_refines_map:
  assumes ok: "table_ok intfield head"
  shows "(table_lookup intfield head (intfield v) = None \<longrightarrow>
      table_ok intfield (HASH_ADD_INT intfield v head)
      \<and> table_lookup intfield (HASH_ADD_INT intfield v head) = (table_lookup intfield head)(intfield v \<mapsto> v)
      \<and> HASH_COUNT (HASH_ADD_INT intfield v head) = Suc (HASH_COUNT head))
    \<and> (HASH_FIND_INT intfield head k = Some p \<longrightarrow>
      table_ok intfield (HASH_DEL p head)
      \<and> table_lookup intfield (HASH_DEL p head) = (table_lookup intfield head)(k := None)
      \<and> Suc (HASH_COUNT (HASH_DEL p head)) = HASH_COUNT head)"
  (is "(?new \<longrightarrow> ?added) \<and> (?found \<longrightarrow> ?deleted)")
proof (rule conjI; rule impI)
  assume new: ?new
  with ok ut.ok_add [OF ok new] show ?added
    by (simp add: fun_eq_iff ut.lookup_add ut.count_iter ut.iter_add)
next
  assume ?found
  with ok show ?deleted
    by (simp add: fun_eq_iff ut_del.ok_delete ut_del.lookup_delete ut_del.count_delete)
qed

text \<open>Keys 7, 39 and 1048583 in a table; 39 is deleted, 8 is added.\<close>

theorem uthash_refines_map_witness:
  "HASH_FIND_INT (\<lambda>k. k) demo_table 39 = Some 1
   \<and> table_lookup (\<lambda>k. k) (HASH_DEL 1 demo_table) 39 = None
   \<and> table_lookup (\<lambda>k. k) (HASH_DEL 1 demo_table) 7 = Some 7
   \<and> HASH_COUNT (HASH_DEL 1 demo_table) = 2
   \<and> table_lookup (\<lambda>k. k) (HASH_ADD_INT (\<lambda>k. k) 8 demo_table) 8 = Some 8"
proof -
  have ok: "table_ok (\<lambda>k. k) demo_table" and iter: "HASH_ITER demo_table = [7, 39, 7 + 2 ^ 20]"
    by (rule demo_table_ok)+
  have find: "HASH_FIND_INT (\<lambda>k. k) demo_table 39 = Some 1" by code_simp
  have at: "table_lookup (\<lambda>k. k) demo_table 8 = None" "table_lookup (\<lambda>k. k) demo_table 7 = Some 7"
    "HASH_COUNT demo_table = 3"
    using ok by (simp_all add: ut.lookup_iter ut.count_iter iter)
  from uthash_refines_map [OF ok, of 8 39 1] find at
  show ?thesis by simp
qed

end
