(* ===== verification/File_System.thy ===== *)
theory File_System
  imports C_Strings "HOL-Library.Sublist"
begin

text \<open>
  The file system the program sees through its system calls. A node is found by the list of
  the components of its absolute path; empty components and dots do not count, symbolic links
  and dot-dot are not modelled. Which of the calls of the type \<open>syscall\<close> the kernel refuses for other
  reasons (permissions, quota, a bad block) is not determined by the tree: the field \<open>refuses\<close> is that
  choice, and no law is assumed about it. It is one choice for a whole run: a call refused once is
  refused again. Writing to a stream that was opened is not among these calls: such a write does not
  fail here.
\<close>

section \<open>Paths and nodes\<close>

type_synonym fpath = "string list"

datatype node = Dir | File string | Special

datatype errno = EEXIST | ENOENT | ENOTDIR | EISDIR | EACCES

datatype syscall = Stat fpath | Mkdir fpath | Open_Read fpath | Open_Write fpath | Unlink fpath
  | Rename fpath fpath | Read fpath nat

record file_system =
  cwd :: fpath
  node_at :: "fpath \<Rightarrow> node option"
  refuses :: "syscall \<Rightarrow> bool"

fun path_split :: "string \<Rightarrow> string list" where
  "path_split [] = [[]]"
| "path_split (c # cs) = (if c = CHR ''/'' then [] # path_split cs
     else case path_split cs of [] \<Rightarrow> [[c]] | w # ws \<Rightarrow> (c # w) # ws)"

definition components :: "string \<Rightarrow> fpath" where
  "components s = filter (\<lambda>w. w \<noteq> [] \<and> w \<noteq> ''.'') (path_split s)"

definition absolute :: "string \<Rightarrow> bool" where
  "absolute s = (s \<noteq> [] \<and> hd s = CHR ''/'')"

definition resolve :: "file_system \<Rightarrow> string \<Rightarrow> fpath" where
  "resolve fs s = (if absolute s then [] else cwd fs) @ components s"

definition is_dir :: "file_system \<Rightarrow> fpath \<Rightarrow> bool" where
  "is_dir fs p = (node_at fs p = Some Dir)"

definition parent_ok :: "file_system \<Rightarrow> fpath \<Rightarrow> bool" where
  "parent_ok fs p = (p = [] \<or> is_dir fs (butlast p))"

text \<open>The root and the working directory are directories and so is the parent of every node.\<close>

definition fs_ok :: "file_system \<Rightarrow> bool" where
  "fs_ok fs = (is_dir fs [] \<and> is_dir fs (cwd fs) \<and> (\<forall>p. node_at fs p \<noteq> None \<longrightarrow> parent_ok fs p))"

section \<open>System calls\<close>

definition sys_stat :: "file_system \<Rightarrow> string \<Rightarrow> node option" where
  "sys_stat fs s = (let p = resolve fs s
     in if s = [] \<or> refuses fs (Stat p) then None
        else if last s = CHR ''/'' \<and> \<not> is_dir fs p then None else node_at fs p)"

definition sys_mkdir :: "file_system \<Rightarrow> string \<Rightarrow> errno option \<times> file_system" where
  "sys_mkdir fs s = (let p = resolve fs s
     in if s = [] then (Some ENOENT, fs)
        else if refuses fs (Mkdir p) then (Some EACCES, fs)
        else if node_at fs p \<noteq> None then (Some EEXIST, fs)
        else if \<not> parent_ok fs p then (Some ENOENT, fs)
        else (None, fs\<lparr>node_at := (node_at fs)(p \<mapsto> Dir)\<rparr>))"

text \<open>
  \<^verbatim>\<open>open\<close> with \<^verbatim>\<open>O_CREAT\<close> for writing: the file is created empty, or emptied when
  \<open>trunc\<close> is set, or left as it is. The result is the file's path, which the stream holds.
\<close>

definition open_write :: "bool \<Rightarrow> file_system \<Rightarrow> string \<Rightarrow> fpath option \<times> file_system" where
  "open_write trunc fs s = (let p = resolve fs s
     in if s = [] \<or> last s = CHR ''/'' \<or> refuses fs (Open_Write p) then (None, fs)
        else case node_at fs p of
            Some Dir \<Rightarrow> (None, fs)
          | Some Special \<Rightarrow> (Some p, fs)
          | Some (File d) \<Rightarrow> (Some p, if trunc then fs\<lparr>node_at := (node_at fs)(p \<mapsto> File [])\<rparr> else fs)
          | None \<Rightarrow> if parent_ok fs p then (Some p, fs\<lparr>node_at := (node_at fs)(p \<mapsto> File [])\<rparr>)
                    else (None, fs))"

text \<open>
  \<^verbatim>\<open>fopen\<close> for reading gives the bytes a reader gets. A directory can be opened too, but every
  read of it fails at once; a device is read as an empty one.
\<close>

definition open_read :: "file_system \<Rightarrow> string \<Rightarrow> string option" where
  "open_read fs s = (let p = resolve fs s
     in if s = [] \<or> refuses fs (Open_Read p) then None
        else if last s = CHR ''/'' \<and> \<not> is_dir fs p then None
        else case node_at fs p of None \<Rightarrow> None | Some (File d) \<Rightarrow> Some d | Some _ \<Rightarrow> Some [])"

text \<open>
  \<open>Read p i\<close> is the reading of the byte at offset \<open>i\<close>; when it fails, \<^verbatim>\<open>fread\<close> delivers the bytes
  before it and then, as at the end of the file, nothing.
\<close>

primrec bytes_from :: "file_system \<Rightarrow> fpath \<Rightarrow> nat \<Rightarrow> string \<Rightarrow> string" where
  "bytes_from fs p i [] = []"
| "bytes_from fs p i (b # bs) = (if refuses fs (Read p i) then [] else b # bytes_from fs p (Suc i) bs)"

definition bytes_read :: "file_system \<Rightarrow> fpath \<Rightarrow> string \<Rightarrow> string" where
  "bytes_read fs p d = bytes_from fs p 0 d"

text \<open>Appending text to the file a stream was opened on.\<close>

definition append_file :: "fpath \<Rightarrow> string \<Rightarrow> file_system \<Rightarrow> file_system" where
  "append_file p txt fs = (case node_at fs p of
     Some (File d) \<Rightarrow> fs\<lparr>node_at := (node_at fs)(p \<mapsto> File (d @ txt))\<rparr> | _ \<Rightarrow> fs)"

definition sys_unlink :: "file_system \<Rightarrow> string \<Rightarrow> errno option \<times> file_system" where
  "sys_unlink fs s = (let p = resolve fs s
     in if s = [] then (Some ENOENT, fs)
        else if refuses fs (Unlink p) then (Some EACCES, fs)
        else case node_at fs p of
            None \<Rightarrow> (Some ENOENT, fs)
          | Some Dir \<Rightarrow> (Some EISDIR, fs)
          | Some _ \<Rightarrow> (None, fs\<lparr>node_at := (node_at fs)(p := None)\<rparr>))"

text \<open>\<^verbatim>\<open>rename\<close> of anything but a directory replaces the target; directories stay where they are.\<close>

definition sys_rename :: "file_system \<Rightarrow> string \<Rightarrow> string \<Rightarrow> errno option \<times> file_system" where
  "sys_rename fs old new = (let p = resolve fs old; q = resolve fs new
     in if old = [] \<or> new = [] then (Some ENOENT, fs)
        else if refuses fs (Rename p q) then (Some EACCES, fs)
        else case node_at fs p of
            None \<Rightarrow> (Some ENOENT, fs)
          | Some Dir \<Rightarrow> (Some EACCES, fs)
          | Some x \<Rightarrow> if is_dir fs q then (Some EISDIR, fs)
                       else if \<not> parent_ok fs q then (Some ENOENT, fs)
                       else (None, fs\<lparr>node_at := (node_at fs)(p := None, q := Some x)\<rparr>))"

text \<open>\<^verbatim>\<open>remove\<close> is \<^verbatim>\<open>unlink\<close>, or \<^verbatim>\<open>rmdir\<close> for a directory, which must be empty.\<close>

definition dir_empty :: "file_system \<Rightarrow> fpath \<Rightarrow> bool" where
  "dir_empty fs p = (\<forall>w. node_at fs (p @ [w]) = None)"

definition sys_remove :: "file_system \<Rightarrow> string \<Rightarrow> errno option \<times> file_system" where
  "sys_remove fs s = (let p = resolve fs s
     in if s \<noteq> [] \<and> is_dir fs p
        then if refuses fs (Unlink p) \<or> \<not> dir_empty fs p then (Some EACCES, fs)
             else (None, fs\<lparr>node_at := (node_at fs)(p := None)\<rparr>)
        else sys_unlink fs s)"

section \<open>Reading a file\<close>

lemma bytes_from_prefix:
  "\<exists>m. m \<le> length d \<and> bytes_from fs p i d = take m d \<and> (\<forall>j < m. \<not> refuses fs (Read p (i + j)))
     \<and> (m < length d \<longrightarrow> refuses fs (Read p (i + m)))"
proof (induction d arbitrary: i)
  case (Cons b d)
  show ?case
  proof (cases "refuses fs (Read p i)")
    case False
    from Cons [of "Suc i"] obtain m where m: "m \<le> length d" "bytes_from fs p (Suc i) d = take m d"
        "\<forall>j < m. \<not> refuses fs (Read p (Suc i + j))" "m < length d \<longrightarrow> refuses fs (Read p (Suc i + m))" by blast
    have "\<not> refuses fs (Read p (i + j))" if "j < Suc m" for j using m(3) that False by (cases j) auto
    with m(1,2,4) False show ?thesis by (intro exI [of _ "Suc m"]) simp
  qed (auto intro: exI [of _ 0])
qed simp

text \<open>What is read is the file up to its first byte that cannot be read.\<close>

lemma bytes_read_prefix:
  obtains m where "m \<le> length d" and "bytes_read fs p d = take m d" and "\<forall>i < m. \<not> refuses fs (Read p i)"
    and "m < length d \<longrightarrow> refuses fs (Read p m)"
  using bytes_from_prefix [of d fs p 0] by (auto simp: bytes_read_def)

lemma bytes_read_all [simp]:
  assumes "\<And>i. \<not> refuses fs (Read p i)"
  shows "bytes_read fs p d = d"
  using bytes_read_prefix [of d fs p] assms by (metis nat_less_le take_all)

section \<open>The tree stays a tree\<close>

lemma resolve_update [simp]: "resolve (fs\<lparr>node_at := m\<rparr>) s = resolve fs s"
  by (simp add: resolve_def)

lemma butlast_neq: "p \<noteq> [] \<Longrightarrow> butlast p \<noteq> p"
  by (cases p rule: rev_cases) auto

text \<open>Adding a node under a directory, or replacing one that is no directory by a file.\<close>

lemma fs_ok_put:
  assumes "fs_ok fs" and "parent_ok fs p" and "node_at fs p \<noteq> Some Dir"
  shows "fs_ok (fs\<lparr>node_at := (node_at fs)(p \<mapsto> x)\<rparr>)"
proof -
  have dirs: "is_dir (fs\<lparr>node_at := (node_at fs)(p \<mapsto> x)\<rparr>) r" if "is_dir fs r" for r
    using that assms(3) by (auto simp: is_dir_def)
  then show ?thesis using assms(1,2)
    by (auto simp: fs_ok_def parent_ok_def split: if_splits)
qed

lemma fs_ok_delete:
  assumes "fs_ok fs" and "node_at fs p \<noteq> Some Dir"
  shows "fs_ok (fs\<lparr>node_at := (node_at fs)(p := None)\<rparr>)"
proof -
  have dirs: "is_dir (fs\<lparr>node_at := (node_at fs)(p := None)\<rparr>) r" if "is_dir fs r" for r
    using that assms(2) by (auto simp: is_dir_def)
  then show ?thesis using assms(1)
    by (auto simp: fs_ok_def parent_ok_def split: if_splits)
qed

lemma fs_ok_parent: "fs_ok fs \<Longrightarrow> node_at fs p = Some x \<Longrightarrow> parent_ok fs p"
  by (simp add: fs_ok_def)

lemma sys_mkdir_ok [fs_simps]: "fs_ok fs \<Longrightarrow> fs_ok (snd (sys_mkdir fs s))"
  by (auto simp: sys_mkdir_def Let_def intro!: fs_ok_put)

lemma open_write_ok [fs_simps]: "fs_ok fs \<Longrightarrow> fs_ok (snd (open_write t fs s))"
  by (auto simp: open_write_def Let_def intro!: fs_ok_put dest: fs_ok_parent
      split: option.splits node.splits)

lemma open_write_trunc:
  assumes "open_write True fs s = (Some p, fs')"
  shows "p = resolve fs s" and "node_at fs' p = Some (File []) \<or> node_at fs' p = Some Special"
  using assms by (auto simp: open_write_def Let_def split: if_splits option.splits node.splits)

lemma append_file_ok [fs_simps]: "fs_ok fs \<Longrightarrow> fs_ok (append_file p txt fs)"
  by (auto simp: append_file_def intro!: fs_ok_put dest: fs_ok_parent split: option.splits node.splits)

lemma sys_unlink_ok [fs_simps]: "fs_ok fs \<Longrightarrow> fs_ok (snd (sys_unlink fs s))"
  by (auto simp: sys_unlink_def Let_def intro!: fs_ok_delete split: option.splits node.splits)

lemma fs_ok_move:
  assumes "fs_ok fs" and "node_at fs p \<noteq> Some Dir" and "parent_ok fs q" and "\<not> is_dir fs q"
  shows "fs_ok (fs\<lparr>node_at := (node_at fs)(p := None, q \<mapsto> x)\<rparr>)"
proof -
  let ?g = "fs\<lparr>node_at := (node_at fs)(p := None)\<rparr>"
  have "parent_ok ?g q" using assms(2,3) by (auto simp: parent_ok_def is_dir_def)
  moreover have "node_at ?g q \<noteq> Some Dir" using assms(4) by (simp add: is_dir_def)
  ultimately have "fs_ok (?g\<lparr>node_at := (node_at ?g)(q \<mapsto> x)\<rparr>)"
    using fs_ok_delete [OF assms(1,2)] by (intro fs_ok_put)
  then show ?thesis by simp
qed

lemma sys_rename_ok [fs_simps]: "fs_ok fs \<Longrightarrow> fs_ok (snd (sys_rename fs a b))"
  by (auto simp: sys_rename_def Let_def intro!: fs_ok_move split: option.splits node.splits)

section \<open>What the calls on files leave alone\<close>

text \<open>
  A view of the disk that does not see the files: opening and writing files, unlinking and renaming them
  keep it. Whatever is composed of these calls keeps it too; the theories on rotation, compression and
  the main loop show that of their operations once for all views.
\<close>

locale disk_view =
  fixes view :: "file_system \<Rightarrow> 'x"
  assumes view_open_write [simp]: "view (snd (open_write trunc fs s)) = view fs"
    and view_append_file [simp]: "view (append_file p txt fs) = view fs"
    and view_unlink [simp]: "view (snd (sys_unlink fs s)) = view fs"
    and view_rename [simp]: "view (snd (sys_rename fs old new)) = view fs"
begin

lemma view_opened: "open_write trunc fs s = (r, fs') \<Longrightarrow> view fs' = view fs"
  using view_open_write [of trunc fs s] by simp

lemma view_renamed: "sys_rename fs old new = (r, fs') \<Longrightarrow> view fs' = view fs"
  using view_rename [of fs old new] by simp

end

text \<open>The working directory, the refusals and the directories are such a view.\<close>

definition dir_tree :: "file_system \<Rightarrow> fpath \<times> (syscall \<Rightarrow> bool) \<times> fpath set" where
  "dir_tree fs = (cwd fs, refuses fs, {q. is_dir fs q})"

interpretation tree: disk_view dir_tree
  by unfold_locales
    (auto simp: dir_tree_def is_dir_def open_write_def append_file_def sys_unlink_def sys_rename_def Let_def
      split: option.splits node.splits)

lemma dir_tree_eq:
  assumes "dir_tree fs = dir_tree fs'"
  shows "cwd fs = cwd fs'" and "refuses fs = refuses fs'" and "is_dir fs = is_dir fs'"
  using assms by (auto simp: dir_tree_def set_eq_iff)

section \<open>Joining a directory and a name\<close>

lemma path_split_not_Nil [simp]: "path_split s \<noteq> []"
  by (induction s) (auto split: list.splits)

lemma path_split_join:
  "path_split (a @ CHR ''/'' # b) = path_split a @ path_split b"
  by (induction a) (auto split: list.splits)

lemma path_split_name: "CHR ''/'' \<notin> set w \<Longrightarrow> path_split w = [w]"
  by (induction w) (auto split: list.splits)

lemma components_join: "components (a @ CHR ''/'' # b) = components a @ components b"
  by (simp add: components_def path_split_join)

lemma components_name:
  "CHR ''/'' \<notin> set w \<Longrightarrow> w \<noteq> [] \<Longrightarrow> w \<noteq> ''.'' \<Longrightarrow> components w = [w]"
  by (simp add: components_def path_split_name)

lemma resolve_join:
  assumes "a \<noteq> []" and "CHR ''/'' \<notin> set w" and "w \<noteq> []" and "w \<noteq> ''.''"
  shows "resolve fs (a @ CHR ''/'' # w) = resolve fs a @ [w]"
  using assms by (simp add: resolve_def components_join components_name absolute_def)

end
