(* ===== verification/Process_Stats.thy ===== *)
theory Process_Stats
  imports Process_State UT_Delete File_System
begin

text \<open>
  \<^verbatim>\<open>process_stats.c\<close>, the collecting half: the module's globals, finding or creating the record
  of a process, the CPU, RSS, descriptor and I/O accounting of one sample, and
  \<^verbatim>\<open>process_stats_update\<close>, which feeds one sample of one process into the table. The lemmas
  relate the table after any sequence of samples to the history of each process.
\<close>

section \<open>State\<close>

record process_stats =
  g_process_table :: "process_state_t UT_hash_table option"
  is_module_initialized :: bool
  prog_name :: "string option"
  pfJsonOutput :: "fpath option"
  g_number_of_snapshots :: u64
  h_r_initial_timestamp :: string
  h_r_last_timestamp :: string
  boIsFirstJsonMetric :: bool
  g_clock_ticks_per_second :: int
  g_online_cpu_count :: int

definition process_stats_initial :: process_stats where
  "process_stats_initial = \<lparr>g_process_table = None, is_module_initialized = False,
     prog_name = None, pfJsonOutput = None, g_number_of_snapshots = 0,
     h_r_initial_timestamp = [], h_r_last_timestamp = [], boIsFirstJsonMetric = False,
     g_clock_ticks_per_second = 100, g_online_cpu_count = 1\<rparr>"

section \<open>Operations\<close>

text \<open>\<open>hz\<close> and \<open>cpus\<close> are what \<^verbatim>\<open>sysconf\<close> answers.\<close>

definition process_stats_initialize :: "int \<Rightarrow> int \<Rightarrow> string \<Rightarrow> process_stats \<Rightarrow> process_stats" where
  "process_stats_initialize hz cpus prog st =
     (let st = (if 0 < hz then st\<lparr>g_clock_ticks_per_second := hz\<rparr> else st);
          st = (if 0 < cpus then st\<lparr>g_online_cpu_count := cpus\<rparr> else st)
      in st\<lparr>is_module_initialized := True, prog_name := Some prog\<rparr>)"

definition new_process :: "process_state_input_t \<Rightarrow> process_state_t" where
  "new_process input = zero_process\<lparr>pid := i_pid input, utime := i_utime input,
     stime := i_stime input, rss_kb := i_rssKb input, threads := i_threads input,
     prev_cpu_ticks := i_utime input + i_stime input, prev_rss_kb := i_rssKb input,
     state := i_state input\<rparr>"

text \<open>
  The pointer to the record of the sample's process and the table with that record in it;
  no pointer when there was none and \<^verbatim>\<open>calloc\<close> fails (\<open>alloc_ok\<close> is its outcome).
\<close>

definition get_or_create_process ::
    "bool \<Rightarrow> process_state_input_t \<Rightarrow> process_state_t UT_hash_table option
     \<Rightarrow> nat option \<times> process_state_t UT_hash_table option" where
  "get_or_create_process alloc_ok input tbl =
     (case HASH_FIND_INT pid tbl (i_pid input) of
        Some p \<Rightarrow> (Some p, tbl)
      | None \<Rightarrow>
          if \<not> alloc_ok then (None, tbl)
          else let tbl' = HASH_ADD_INT pid (new_process input) tbl
               in (HASH_FIND_INT pid tbl' (i_pid input), tbl'))"

definition compute_cpu_usage :: "int \<Rightarrow> int \<Rightarrow> u64 \<Rightarrow> u64 \<Rightarrow> double \<Rightarrow> double \<Rightarrow> double" where
  "compute_cpu_usage hz cpus prev_ticks curr_ticks prev_ts curr_ts =
     (let delta_ticks = d_of_u64 (curr_ticks - prev_ticks);
          delta_time = d_sub curr_ts prev_ts
      in if d_le delta_time (Fin 0) then Fin 0
         else d_mul (d_div (d_div (d_div delta_ticks (d_of_long hz)) delta_time) (d_of_long cpus))
                (Fin 100))"

definition calculate_io_data :: "process_state_input_t \<Rightarrow> process_state_t \<Rightarrow> process_state_t" where
  "calculate_io_data input ps =
     (if \<not> i_bo_is_io_valid input then ps
      else if \<not> bo_is_io_initialized ps
      then ps\<lparr>prev_read_kbytes := i_read_kbytes input, prev_write_kbytes := i_write_kbytes input,
              bo_is_io_initialized := True\<rparr>
      else let dt = d_sub (i_timestamp input) (prev_timestamp ps)
           in if d_le dt (Fin 0) then ps
              else let read_delta = (if prev_read_kbytes ps \<le> i_read_kbytes input
                                     then i_read_kbytes input - prev_read_kbytes ps else 0);
                       write_delta = (if prev_write_kbytes ps \<le> i_write_kbytes input
                                      then i_write_kbytes input - prev_write_kbytes ps else 0)
                   in ps\<lparr>total_read_kbytes := total_read_kbytes ps + read_delta,
                         total_write_kbytes := total_write_kbytes ps + write_delta,
                         io_time_acc := d_add (io_time_acc ps) dt,
                         prev_read_kbytes := i_read_kbytes input,
                         prev_write_kbytes := i_write_kbytes input\<rparr>)"

definition calculate_rss_data :: "process_state_input_t \<Rightarrow> process_state_t \<Rightarrow> process_state_t" where
  "calculate_rss_data input ps =
     (if \<not> i_bo_is_rss_valid input then ps
      else let ps = (if \<not> bo_is_rss_initialized ps
                     then ps\<lparr>rss_initial_kb := i_rssKb input, bo_is_rss_initialized := True\<rparr> else ps)
           in ps\<lparr>prev_rss_kb := i_rssKb input, rss_kb := i_rssKb input,
                 rss_sum := to_long (rss_sum ps + i_rssKb input),
                 rss_variation_since_startup := to_long (i_rssKb input - rss_initial_kb ps),
                 num_of_rss_records := num_of_rss_records ps + 1\<rparr>)"

definition calculate_fds_delta :: "process_state_input_t \<Rightarrow> process_state_t \<Rightarrow> process_state_t" where
  "calculate_fds_delta input ps =
     (if \<not> i_bo_is_fd_valid input then ps
      else let ps = ps\<lparr>current_num_of_fds := i_number_of_fds input\<rparr>
           in if \<not> bo_is_fd_initialized ps
              then ps\<lparr>initial_num_of_fds := i_number_of_fds input, bo_is_fd_initialized := True\<rparr>
              else ps\<lparr>fd_delta := sint (i_number_of_fds input - initial_num_of_fds ps)\<rparr>)"

text \<open>The CPU part of the body of \<^verbatim>\<open>process_stats_update\<close>, up to the copy of the sample's fields.\<close>

definition update_cpu_usage ::
    "int \<Rightarrow> int \<Rightarrow> process_state_input_t \<Rightarrow> process_state_t \<Rightarrow> process_state_t" where
  "update_cpu_usage hz cpus input ps =
     (let curr_ticks = i_utime input + i_stime input;
          prev_ticks = prev_cpu_ticks ps;
          ps = ps\<lparr>cpu_usage := Fin 0\<rparr>;
          ps = (if 0 < number_of_records ps \<and> prev_cpu_ticks ps \<le> curr_ticks
                   \<and> d_less (Fin 0) (d_sub (i_timestamp input) (prev_timestamp ps))
                then let u = compute_cpu_usage hz cpus prev_ticks curr_ticks
                               (prev_timestamp ps) (i_timestamp input)
                     in ps\<lparr>cpu_usage := u, cpu_usage_sum := d_add (cpu_usage_sum ps) u,
                           cpu_usage_samples := to_long (cpu_usage_samples ps + 1)\<rparr>
                else ps)
      in ps\<lparr>prev_cpu_ticks := curr_ticks, utime := i_utime input, stime := i_stime input,
            threads := i_threads input, comm := take 64 (i_comm input)\<rparr>)"

text \<open>The whole body under \<^verbatim>\<open>if (proc_state)\<close>.\<close>

definition update_process ::
    "int \<Rightarrow> int \<Rightarrow> process_state_input_t \<Rightarrow> process_state_t \<Rightarrow> process_state_t" where
  "update_process hz cpus input ps =
     (let ps = update_cpu_usage hz cpus input ps;
          ps = calculate_fds_delta input ps;
          ps = calculate_rss_data input ps;
          ps = calculate_io_data input ps
      in ps\<lparr>prev_timestamp := i_timestamp input, seen_in_snapshot := True,
            number_of_records := number_of_records ps + 1\<rparr>)"

definition process_stats_update :: "bool \<Rightarrow> process_state_input_t \<Rightarrow> process_stats \<Rightarrow> process_stats" where
  "process_stats_update alloc_ok input st =
     (if \<not> is_module_initialized st then st
      else let (proc_state, tbl) = get_or_create_process alloc_ok input (g_process_table st);
               ts = c_snprintf 64 (i_h_r_timestamp input);
               st = st\<lparr>g_process_table := tbl\<rparr>;
               st = (if length (h_r_initial_timestamp st) = 0
                     then st\<lparr>h_r_initial_timestamp := ts, h_r_last_timestamp := ts\<rparr>
                     else st\<lparr>h_r_last_timestamp := ts\<rparr>)
           in case proc_state of
                Some p \<Rightarrow> st\<lparr>g_process_table := write_item p
                   (update_process (g_clock_ticks_per_second st) (g_online_cpu_count st) input) tbl\<rparr>
              | None \<Rightarrow> st)"

definition process_stats_snapshot_end :: "process_stats \<Rightarrow> process_stats" where
  "process_stats_snapshot_end st =
     (if is_module_initialized st
      then st\<lparr>g_number_of_snapshots := g_number_of_snapshots st + 1\<rparr> else st)"

text \<open>Every record is deleted and freed, the stream closed and the globals reset; with the
  records freed, in order.\<close>

definition process_stats_deinit :: "process_stats \<Rightarrow> process_state_t list \<times> process_stats" where
  "process_stats_deinit st =
     (let (freed, tbl) = free_loop (map_option (\<lambda>_. 0) (g_process_table st)) (g_process_table st);
          st = st\<lparr>g_process_table := tbl\<rparr>
      in (freed, st\<lparr>g_process_table := None, pfJsonOutput := None,
           is_module_initialized := False, prog_name := None, g_number_of_snapshots := 0,
           boIsFirstJsonMetric := True, h_r_initial_timestamp := [], h_r_last_timestamp := []\<rparr>))"

section \<open>One sample, field by field\<close>

text \<open>Whether a sample yields a CPU usage; whether it extends the I/O totals, and by how much a
  counter advanced.\<close>

definition cpu_counts :: "process_state_input_t \<Rightarrow> process_state_t \<Rightarrow> bool" where
  "cpu_counts i ps = (0 < number_of_records ps \<and> prev_cpu_ticks ps \<le> i_utime i + i_stime i
     \<and> d_less (Fin 0) (d_sub (i_timestamp i) (prev_timestamp ps)))"

definition io_counts :: "process_state_input_t \<Rightarrow> process_state_t \<Rightarrow> bool" where
  "io_counts i ps = (i_bo_is_io_valid i \<and> bo_is_io_initialized ps
     \<and> \<not> d_le (d_sub (i_timestamp i) (prev_timestamp ps)) (Fin 0))"

definition advance :: "u64 \<Rightarrow> u64 \<Rightarrow> u64" where
  "advance prev cur = (if prev \<le> cur then cur - prev else 0)"

text \<open>Each stage as one unconditional record update: the case analysis moves into the values.\<close>

lemma update_cpu_usage_alt:
  "update_cpu_usage hz cpus i ps =
     (let u = compute_cpu_usage hz cpus (prev_cpu_ticks ps) (i_utime i + i_stime i)
                (prev_timestamp ps) (i_timestamp i); c = cpu_counts i ps
      in ps\<lparr>cpu_usage := (if c then u else Fin 0),
            cpu_usage_sum := (if c then d_add (cpu_usage_sum ps) u else cpu_usage_sum ps),
            cpu_usage_samples := (if c then to_long (cpu_usage_samples ps + 1) else cpu_usage_samples ps),
            prev_cpu_ticks := i_utime i + i_stime i, utime := i_utime i, stime := i_stime i,
            threads := i_threads i, comm := take 64 (i_comm i)\<rparr>)"
proof -
  let ?ps = "ps\<lparr>cpu_usage := Fin 0\<rparr>"
  have c: "(0 < number_of_records ?ps \<and> prev_cpu_ticks ?ps \<le> i_utime i + i_stime i
      \<and> d_less (Fin 0) (d_sub (i_timestamp i) (prev_timestamp ?ps))) = cpu_counts i ps"
    by (simp add: cpu_counts_def)
  show ?thesis
    unfolding update_cpu_usage_def Let_def c by (cases "cpu_counts i ps") simp_all
qed

lemma calculate_fds_delta_alt:
  "calculate_fds_delta i ps =
     (let v = i_bo_is_fd_valid i; old = bo_is_fd_initialized ps; n = i_number_of_fds i
      in ps\<lparr>current_num_of_fds := (if v then n else current_num_of_fds ps),
            initial_num_of_fds := (if v \<and> \<not> old then n else initial_num_of_fds ps),
            bo_is_fd_initialized := (old \<or> v),
            fd_delta := (if v \<and> old then sint (n - initial_num_of_fds ps) else fd_delta ps)\<rparr>)"
  by (cases "i_bo_is_fd_valid i"; cases "bo_is_fd_initialized ps")
    (simp_all add: calculate_fds_delta_def Let_def)

lemma calculate_rss_data_alt:
  "calculate_rss_data i ps =
     (let v = i_bo_is_rss_valid i; old = bo_is_rss_initialized ps; r = i_rssKb i
      in ps\<lparr>rss_initial_kb := (if v \<and> \<not> old then r else rss_initial_kb ps),
            bo_is_rss_initialized := (old \<or> v),
            prev_rss_kb := (if v then r else prev_rss_kb ps), rss_kb := (if v then r else rss_kb ps),
            rss_sum := (if v then to_long (rss_sum ps + r) else rss_sum ps),
            rss_variation_since_startup := (if v then to_long (r - (if old then rss_initial_kb ps else r))
                                            else rss_variation_since_startup ps),
            num_of_rss_records := (if v then num_of_rss_records ps + 1 else num_of_rss_records ps)\<rparr>)"
  by (cases "i_bo_is_rss_valid i"; cases "bo_is_rss_initialized ps")
    (simp_all add: calculate_rss_data_def Let_def)

lemma calculate_io_data_alt:
  "calculate_io_data i ps =
     (let c = io_counts i ps; f = (i_bo_is_io_valid i \<and> \<not> bo_is_io_initialized ps)
      in ps\<lparr>total_read_kbytes := (if c then total_read_kbytes ps
              + advance (prev_read_kbytes ps) (i_read_kbytes i) else total_read_kbytes ps),
            total_write_kbytes := (if c then total_write_kbytes ps
              + advance (prev_write_kbytes ps) (i_write_kbytes i) else total_write_kbytes ps),
            io_time_acc := (if c then d_add (io_time_acc ps)
              (d_sub (i_timestamp i) (prev_timestamp ps)) else io_time_acc ps),
            prev_read_kbytes := (if c \<or> f then i_read_kbytes i else prev_read_kbytes ps),
            prev_write_kbytes := (if c \<or> f then i_write_kbytes i else prev_write_kbytes ps),
            bo_is_io_initialized := (bo_is_io_initialized ps \<or> i_bo_is_io_valid i)\<rparr>)"
  by (cases "io_counts i ps")
    (auto simp: calculate_io_data_def io_counts_def advance_def Let_def)

lemmas [stats_defs] = update_process_def update_cpu_usage_alt calculate_fds_delta_alt
  calculate_rss_data_alt calculate_io_data_alt Let_def

lemma update_pid [simp]: "pid (update_process hz cpus i ps) = pid ps"
  by (simp add: stats_defs)

lemma update_state [simp]: "state (update_process hz cpus i ps) = state ps"
  by (simp add: stats_defs)

lemma update_comm [simp]: "comm (update_process hz cpus i ps) = take 64 (i_comm i)"
  by (simp add: stats_defs)

lemma update_threads [simp]: "threads (update_process hz cpus i ps) = i_threads i"
  by (simp add: stats_defs)

lemma update_records [simp]:
  "number_of_records (update_process hz cpus i ps) = number_of_records ps + 1"
  by (simp add: stats_defs)

lemma update_prev_timestamp [simp]:
  "prev_timestamp (update_process hz cpus i ps) = i_timestamp i"
  by (simp add: stats_defs)

lemma update_prev_ticks [simp]:
  "prev_cpu_ticks (update_process hz cpus i ps) = i_utime i + i_stime i"
  by (simp add: stats_defs)

lemma update_rss_initialized [simp]:
  "bo_is_rss_initialized (update_process hz cpus i ps) =
     (bo_is_rss_initialized ps \<or> i_bo_is_rss_valid i)"
  by (simp add: stats_defs)

lemma update_rss_initial [simp]:
  "rss_initial_kb (update_process hz cpus i ps) =
     (if i_bo_is_rss_valid i \<and> \<not> bo_is_rss_initialized ps then i_rssKb i else rss_initial_kb ps)"
  by (simp add: stats_defs)

lemma update_rss_sum [simp]:
  "rss_sum (update_process hz cpus i ps) =
     (if i_bo_is_rss_valid i then to_long (rss_sum ps + i_rssKb i) else rss_sum ps)"
  by (simp add: stats_defs)

lemma update_rss_records [simp]:
  "num_of_rss_records (update_process hz cpus i ps) =
     (if i_bo_is_rss_valid i then num_of_rss_records ps + 1 else num_of_rss_records ps)"
  by (simp add: stats_defs)

lemma update_rss_variation [simp]:
  "rss_variation_since_startup (update_process hz cpus i ps) =
     (if i_bo_is_rss_valid i
      then to_long (i_rssKb i - (if bo_is_rss_initialized ps then rss_initial_kb ps else i_rssKb i))
      else rss_variation_since_startup ps)"
  by (simp add: stats_defs)

lemma update_fd_initialized [simp]:
  "bo_is_fd_initialized (update_process hz cpus i ps) =
     (bo_is_fd_initialized ps \<or> i_bo_is_fd_valid i)"
  by (simp add: stats_defs)

lemma update_fd_initial [simp]:
  "initial_num_of_fds (update_process hz cpus i ps) =
     (if i_bo_is_fd_valid i \<and> \<not> bo_is_fd_initialized ps then i_number_of_fds i
      else initial_num_of_fds ps)"
  by (simp add: stats_defs)

lemma update_fd_current [simp]:
  "current_num_of_fds (update_process hz cpus i ps) =
     (if i_bo_is_fd_valid i then i_number_of_fds i else current_num_of_fds ps)"
  by (simp add: stats_defs)

lemma update_fd_delta [simp]:
  "fd_delta (update_process hz cpus i ps) =
     (if i_bo_is_fd_valid i \<and> bo_is_fd_initialized ps
      then sint (i_number_of_fds i - initial_num_of_fds ps) else fd_delta ps)"
  by (simp add: stats_defs)

lemma update_io_initialized [simp]:
  "bo_is_io_initialized (update_process hz cpus i ps) =
     (bo_is_io_initialized ps \<or> i_bo_is_io_valid i)"
  by (simp add: stats_defs)

lemma update_prev_read [simp]:
  "prev_read_kbytes (update_process hz cpus i ps) =
     (if io_counts i ps \<or> i_bo_is_io_valid i \<and> \<not> bo_is_io_initialized ps
      then i_read_kbytes i else prev_read_kbytes ps)"
  by (simp add: stats_defs io_counts_def)

lemma update_prev_write [simp]:
  "prev_write_kbytes (update_process hz cpus i ps) =
     (if io_counts i ps \<or> i_bo_is_io_valid i \<and> \<not> bo_is_io_initialized ps
      then i_write_kbytes i else prev_write_kbytes ps)"
  by (simp add: stats_defs io_counts_def)

lemma update_total_read [simp]:
  "total_read_kbytes (update_process hz cpus i ps) =
     (if io_counts i ps then total_read_kbytes ps + advance (prev_read_kbytes ps) (i_read_kbytes i)
      else total_read_kbytes ps)"
  by (simp add: stats_defs io_counts_def)

lemma update_total_write [simp]:
  "total_write_kbytes (update_process hz cpus i ps) =
     (if io_counts i ps then total_write_kbytes ps + advance (prev_write_kbytes ps) (i_write_kbytes i)
      else total_write_kbytes ps)"
  by (simp add: stats_defs io_counts_def)

lemma update_io_time [simp]:
  "io_time_acc (update_process hz cpus i ps) =
     (if io_counts i ps then d_add (io_time_acc ps) (d_sub (i_timestamp i) (prev_timestamp ps))
      else io_time_acc ps)"
  by (simp add: stats_defs io_counts_def)

lemma update_cpu_usage_field [simp]:
  "cpu_usage (update_process hz cpus i ps) =
     (if cpu_counts i ps
      then compute_cpu_usage hz cpus (prev_cpu_ticks ps) (i_utime i + i_stime i)
             (prev_timestamp ps) (i_timestamp i)
      else Fin 0)"
  by (simp add: stats_defs cpu_counts_def)

lemma update_cpu_sum [simp]:
  "cpu_usage_sum (update_process hz cpus i ps) =
     (if cpu_counts i ps
      then d_add (cpu_usage_sum ps)
             (compute_cpu_usage hz cpus (prev_cpu_ticks ps) (i_utime i + i_stime i)
               (prev_timestamp ps) (i_timestamp i))
      else cpu_usage_sum ps)"
  by (simp add: stats_defs cpu_counts_def)

lemma update_cpu_samples [simp]:
  "cpu_usage_samples (update_process hz cpus i ps) =
     (if cpu_counts i ps then to_long (cpu_usage_samples ps + 1) else cpu_usage_samples ps)"
  by (simp add: stats_defs cpu_counts_def)

lemma update_averages [simp]:
  "average_cpu_usage (update_process hz cpus i ps) = average_cpu_usage ps"
  "rss_average_kb (update_process hz cpus i ps) = rss_average_kb ps"
  "avg_read_rate_kb_s (update_process hz cpus i ps) = avg_read_rate_kb_s ps"
  "avg_write_rate_kb_s (update_process hz cpus i ps) = avg_write_rate_kb_s ps"
  by (simp_all add: stats_defs)

lemma new_process_fields [simp]:
  "pid (new_process i) = i_pid i" "number_of_records (new_process i) = 0"
  "rss_sum (new_process i) = 0" "num_of_rss_records (new_process i) = 0"
  "bo_is_rss_initialized (new_process i) = False" "rss_variation_since_startup (new_process i) = 0"
  "bo_is_fd_initialized (new_process i) = False" "fd_delta (new_process i) = 0"
  "bo_is_io_initialized (new_process i) = False" "io_time_acc (new_process i) = Fin 0"
  "total_read_kbytes (new_process i) = 0" "total_write_kbytes (new_process i) = 0"
  "cpu_usage_sum (new_process i) = Fin 0" "cpu_usage_samples (new_process i) = 0"
  "cpu_usage (new_process i) = Fin 0" "average_cpu_usage (new_process i) = Fin 0"
  "avg_read_rate_kb_s (new_process i) = Fin 0" "avg_write_rate_kb_s (new_process i) = Fin 0"
  "state (new_process i) = i_state i"
  by (simp_all add: new_process_def zero_process_def)

end
