(* ===== verification/Process_History.thy ===== *)
theory Process_History
  imports Process_Stats
begin

text \<open>
  What the table holds after any sequence of samples, in terms of the history of each
  process: the samples of one process act on its record alone, in order, and every aggregate
  is the function of the valid samples of that history its name promises.
\<close>

section \<open>The table as a function of the samples\<close>

definition lookup_process :: "process_stats \<Rightarrow> int \<Rightarrow> process_state_t option" where
  "lookup_process st p = table_lookup pid (g_process_table st) p"

definition stats_ok :: "process_stats \<Rightarrow> bool" where
  "stats_ok st = table_ok pid (g_process_table st)"

text \<open>A run of the collector: the samples in the order they are reported, allocation succeeding.\<close>

definition stats_feed :: "process_state_input_t list \<Rightarrow> process_stats \<Rightarrow> process_stats" where
  "stats_feed is st = fold (process_stats_update True) is st"

definition history :: "int \<Rightarrow> process_state_input_t list \<Rightarrow> process_state_input_t list" where
  "history p is = filter (\<lambda>i. i_pid i = p) is"

text \<open>The reference: a process created from its first sample, then updated by all of them.\<close>

definition run_process :: "int \<Rightarrow> int \<Rightarrow> process_state_input_t list \<Rightarrow> process_state_t option" where
  "run_process hz cpus h = (case h of [] \<Rightarrow> None
     | i # _ \<Rightarrow> Some (fold (update_process hz cpus) h (new_process i)))"

lemma new_process_key: "pid (new_process i) = i_pid i"
  by simp

lemma update_globals [simp]:
  "is_module_initialized (process_stats_update a i st) = is_module_initialized st"
  "g_clock_ticks_per_second (process_stats_update a i st) = g_clock_ticks_per_second st"
  "g_online_cpu_count (process_stats_update a i st) = g_online_cpu_count st"
  by (simp_all add: process_stats_update_def Let_def split: prod.splits option.splits)

lemma update_table:
  assumes "is_module_initialized st"
  shows "g_process_table (process_stats_update a i st) =
    (case get_or_create_process a i (g_process_table st) of
       (Some p, tbl) \<Rightarrow> write_item p
          (update_process (g_clock_ticks_per_second st) (g_online_cpu_count st) i) tbl
     | (None, tbl) \<Rightarrow> tbl)"
  using assms by (simp add: process_stats_update_def Let_def split: prod.splits option.splits)

lemma update_lookup:
  assumes "is_module_initialized st" and "stats_ok st"
  shows "stats_ok (process_stats_update True i st) \<and>
    lookup_process (process_stats_update True i st) p =
      (if p = i_pid i
       then Some (update_process (g_clock_ticks_per_second st) (g_online_cpu_count st) i
              (case lookup_process st p of None \<Rightarrow> new_process i | Some u \<Rightarrow> u))
       else lookup_process st p)"
proof -
  let ?t = "g_process_table st" and ?k = "i_pid i"
  let ?f = "update_process (g_clock_ticks_per_second st) (g_online_cpu_count st) i"
  define t' where "t' = (if HASH_FIND_INT pid ?t ?k = None then HASH_ADD_INT pid (new_process i) ?t else ?t)"
  have ok: "table_ok pid ?t" using assms(2) by (simp add: stats_ok_def)
  have f: "pid (?f v) = pid v" for v by simp
  obtain q where q: "HASH_FIND_INT pid t' ?k = Some q" "table_ok pid (write_item q ?f t')"
      "table_lookup pid (write_item q ?f t') p = (if p = ?k then
         Some (?f (case table_lookup pid ?t ?k of None \<Rightarrow> new_process i | Some u \<Rightarrow> u))
         else table_lookup pid ?t p)"
    using ut.upsert [OF ok new_process_key f t'_def, where k' = p] by blast
  have "get_or_create_process True i ?t = (Some q, t')"
    using q(1) by (auto simp: get_or_create_process_def t'_def split: option.splits)
  then have "g_process_table (process_stats_update True i st) = write_item q ?f t'"
    by (simp add: update_table assms(1))
  with q(2,3) show ?thesis by (auto simp: stats_ok_def lookup_process_def)
qed

lemma feed_invariant:
  assumes "is_module_initialized st" and "stats_ok st"
  shows "stats_ok (stats_feed is st) \<and> is_module_initialized (stats_feed is st)
    \<and> g_clock_ticks_per_second (stats_feed is st) = g_clock_ticks_per_second st
    \<and> g_online_cpu_count (stats_feed is st) = g_online_cpu_count st"
  using assms
  by (induction "is" arbitrary: st) (simp_all add: stats_feed_def update_lookup)

lemma run_process_Nil [simp]: "run_process hz cpus [] = None"
  by (simp add: run_process_def)

lemma run_process_snoc:
  "run_process hz cpus (h @ [i]) =
     Some (update_process hz cpus i (case run_process hz cpus h of None \<Rightarrow> new_process i | Some u \<Rightarrow> u))"
  by (cases h) (simp_all add: run_process_def)

lemma feed_lookup:
  assumes "is_module_initialized st" and "stats_ok st" and "lookup_process st p = None"
  shows "lookup_process (stats_feed is st) p =
    run_process (g_clock_ticks_per_second st) (g_online_cpu_count st) (history p is)"
proof (induction "is" rule: rev_induct)
  case Nil
  then show ?case using assms(3) by (simp add: stats_feed_def history_def run_process_def)
next
  case (snoc i "is")
  let ?s = "stats_feed is st"
  note inv = feed_invariant [OF assms(1,2), of "is"]
  have "stats_feed (is @ [i]) st = process_stats_update True i ?s" by (simp add: stats_feed_def)
  then have "lookup_process (stats_feed (is @ [i]) st) p = (if p = i_pid i
       then Some (update_process (g_clock_ticks_per_second st) (g_online_cpu_count st) i
              (case lookup_process ?s p of None \<Rightarrow> new_process i | Some u \<Rightarrow> u))
       else lookup_process ?s p)"
    using update_lookup [of ?s i p] inv by simp
  then show ?case using snoc.IH by (auto simp: history_def run_process_snoc)
qed

section \<open>Induction over a history\<close>

text \<open>An invariant of the record that the first sample establishes and every further one keeps.\<close>

lemma run_process_induct:
  assumes "run_process hz cpus h = Some ps"
    and "\<And>i. P [i] (update_process hz cpus i (new_process i))"
    and "\<And>h i ps. h \<noteq> [] \<Longrightarrow> run_process hz cpus h = Some ps \<Longrightarrow> P h ps \<Longrightarrow>
      P (h @ [i]) (update_process hz cpus i ps)"
  shows "P h ps"
  using assms(1)
proof (induction h arbitrary: ps rule: rev_induct)
  case Nil
  then show ?case by (simp add: run_process_def)
next
  case (snoc i h)
  show ?case
  proof (cases "h = []")
    case True
    with snoc.prems assms(2) [of i] show ?thesis by (auto simp: run_process_def)
  next
    case False
    then obtain u where u: "run_process hz cpus h = Some u"
      by (cases h) (auto simp: run_process_def)
    with snoc.prems have "ps = update_process hz cpus i u" by (simp add: run_process_snoc)
    with assms(3) [OF False u snoc.IH [OF u]] show ?thesis by simp
  qed
qed

lemma run_process_Some: "h \<noteq> [] \<Longrightarrow> \<exists>ps. run_process hz cpus h = Some ps"
  by (cases h) (auto simp: run_process_def)

section \<open>RSS\<close>

definition rss_samples :: "process_state_input_t list \<Rightarrow> int list" where
  "rss_samples h = map i_rssKb (filter i_bo_is_rss_valid h)"

text \<open>The aggregates a record must hold for the valid RSS values \<open>v\<close> of its history.\<close>

definition rss_spec :: "int list \<Rightarrow> process_state_t \<Rightarrow> bool" where
  "rss_spec v ps =
     (bo_is_rss_initialized ps = (v \<noteq> []) \<and> num_of_rss_records ps = of_nat (length v)
      \<and> rss_sum ps = to_long (sum_list v)
      \<and> (if v = [] then rss_variation_since_startup ps = 0
         else rss_initial_kb ps = hd v \<and> rss_variation_since_startup ps = to_long (last v - hd v)))"

lemma rss_spec_run:
  assumes "run_process hz cpus h = Some ps"
  shows "rss_spec (rss_samples h) ps"
  using assms
proof (rule run_process_induct)
  show "rss_spec (rss_samples [i]) (update_process hz cpus i (new_process i))" for i
    by (simp add: rss_spec_def rss_samples_def)
next
  fix h i ps assume "rss_spec (rss_samples h) ps"
  then show "rss_spec (rss_samples (h @ [i])) (update_process hz cpus i ps)"
    by (auto simp: rss_spec_def rss_samples_def to_long_add_left)
qed

section \<open>File descriptors\<close>

definition fd_samples :: "process_state_input_t list \<Rightarrow> u64 list" where
  "fd_samples h = map i_number_of_fds (filter i_bo_is_fd_valid h)"

definition fd_spec :: "u64 list \<Rightarrow> process_state_t \<Rightarrow> bool" where
  "fd_spec v ps = (bo_is_fd_initialized ps = (v \<noteq> []) \<and>
     (if v = [] then fd_delta ps = 0
      else initial_num_of_fds ps = hd v \<and> current_num_of_fds ps = last v
           \<and> fd_delta ps = sint (last v - hd v)))"

lemma fd_spec_run:
  assumes "run_process hz cpus h = Some ps"
  shows "fd_spec (fd_samples h) ps"
  using assms
proof (rule run_process_induct)
  show "fd_spec (fd_samples [i]) (update_process hz cpus i (new_process i))" for i
    by (simp add: fd_spec_def fd_samples_def)
next
  fix h i ps assume "fd_spec (fd_samples h) ps"
  then show "fd_spec (fd_samples (h @ [i])) (update_process hz cpus i ps)"
    by (auto simp: fd_spec_def fd_samples_def)
qed

section \<open>I/O\<close>

text \<open>Samples taken at strictly increasing readings of the clock.\<close>

definition monotonic_clock :: "process_state_input_t list \<Rightarrow> bool" where
  "monotonic_clock h = (list_all is_finite (map i_timestamp h) \<and> sorted_wrt d_less (map i_timestamp h))"

lemma monotonic_snoc:
  assumes "monotonic_clock (h @ [i])" and "h \<noteq> []"
  shows "monotonic_clock h" and "is_finite (i_timestamp i)" and "is_finite (i_timestamp (last h))"
    and "d_less (Fin 0) (d_sub (i_timestamp i) (i_timestamp (last h)))"
proof -
  show "monotonic_clock h" using assms by (simp add: monotonic_clock_def sorted_wrt_append)
  show i: "is_finite (i_timestamp i)" using assms by (simp add: monotonic_clock_def)
  show l: "is_finite (i_timestamp (last h))" using assms by (simp add: monotonic_clock_def list_all_iff)
  have "d_less (i_timestamp (last h)) (i_timestamp i)"
    using assms by (simp add: monotonic_clock_def sorted_wrt_append)
  with i l show "d_less (Fin 0) (d_sub (i_timestamp i) (i_timestamp (last h)))" by (intro sub_pos)
qed

definition io_samples :: "process_state_input_t list \<Rightarrow> (u64 \<times> u64) list" where
  "io_samples h = map (\<lambda>i. (i_read_kbytes i, i_write_kbytes i)) (filter i_bo_is_io_valid h)"

text \<open>The sum of the advances of a counter; a counter that went back contributes nothing.\<close>

fun increments :: "u64 list \<Rightarrow> u64" where
  "increments (a # b # v) = advance a b + increments (b # v)"
| "increments _ = 0"

lemma increments_snoc: "v \<noteq> [] \<Longrightarrow> increments (v @ [b]) = increments v + advance (last v) b"
  by (induction v rule: increments.induct) (simp_all add: ac_simps)

lemma increments_sorted: "v \<noteq> [] \<Longrightarrow> sorted v \<Longrightarrow> increments v = last v - hd v"
  by (induction v rule: increments.induct) (simp_all add: advance_def)

definition io_spec :: "(u64 \<times> u64) list \<Rightarrow> process_state_t \<Rightarrow> bool" where
  "io_spec v ps = (bo_is_io_initialized ps = (v \<noteq> [])
     \<and> total_read_kbytes ps = increments (map fst v) \<and> total_write_kbytes ps = increments (map snd v)
     \<and> (v \<noteq> [] \<longrightarrow> prev_read_kbytes ps = fst (last v) \<and> prev_write_kbytes ps = snd (last v))
     \<and> d_nonneg (io_time_acc ps) \<and> (2 \<le> length v \<longrightarrow> d_less (Fin 0) (io_time_acc ps)))"

lemma run_last_timestamp:
  "run_process hz cpus h = Some ps \<Longrightarrow> prev_timestamp ps = i_timestamp (last h)"
  by (cases h rule: rev_cases) (auto simp: run_process_snoc run_process_Nil)

lemma io_spec_step:
  assumes "io_spec v ps" and "d_less (Fin 0) (d_sub (i_timestamp i) (prev_timestamp ps))"
  shows "io_spec (if i_bo_is_io_valid i then v @ [(i_read_kbytes i, i_write_kbytes i)] else v)
    (update_process hz cpus i ps)"
proof -
  let ?dt = "d_sub (i_timestamp i) (prev_timestamp ps)"
  have acc: "d_less (Fin 0) (d_add (io_time_acc ps) ?dt)"
    using assms by (intro add_pos) (simp_all add: io_spec_def)
  have "io_counts i ps = (i_bo_is_io_valid i \<and> v \<noteq> [])"
    using assms by (simp add: io_counts_def io_spec_def pos_not_le)
  then show ?thesis
    using assms(1) acc by (cases "v = []") (auto simp: io_spec_def increments_snoc last_map pos_nonneg)
qed

lemma io_spec_run:
  assumes "run_process hz cpus h = Some ps" and "monotonic_clock h"
  shows "io_spec (io_samples h) ps"
proof -
  have "monotonic_clock h \<longrightarrow> io_spec (io_samples h) ps"
    using assms(1)
  proof (rule run_process_induct)
    show "monotonic_clock [i] \<longrightarrow> io_spec (io_samples [i]) (update_process hz cpus i (new_process i))" for i
      by (simp add: io_spec_def io_samples_def io_counts_def)
  next
    fix h i ps
    assume h: "h \<noteq> []" and r: "run_process hz cpus h = Some ps"
      and IH: "monotonic_clock h \<longrightarrow> io_spec (io_samples h) ps"
    show "monotonic_clock (h @ [i]) \<longrightarrow> io_spec (io_samples (h @ [i])) (update_process hz cpus i ps)"
    proof
      assume m: "monotonic_clock (h @ [i])"
      have "io_spec (io_samples h) ps" using IH monotonic_snoc(1) [OF m h] by simp
      moreover have "d_less (Fin 0) (d_sub (i_timestamp i) (prev_timestamp ps))"
        using monotonic_snoc(4) [OF m h] run_last_timestamp [OF r] by simp
      ultimately show "io_spec (io_samples (h @ [i])) (update_process hz cpus i ps)"
        using io_spec_step [of "io_samples h" ps i hz cpus] by (simp add: io_samples_def split: if_splits)
    qed
  qed
  with assms(2) show ?thesis by simp
qed

section \<open>CPU\<close>

definition ticks :: "process_state_input_t \<Rightarrow> u64" where
  "ticks i = i_utime i + i_stime i"

text \<open>The usage over each interval between consecutive samples whose ticks did not go back.\<close>

fun cpu_usages :: "int \<Rightarrow> int \<Rightarrow> process_state_input_t list \<Rightarrow> double list" where
  "cpu_usages hz cpus (a # b # h) =
     (if ticks a \<le> ticks b
      then [compute_cpu_usage hz cpus (ticks a) (ticks b) (i_timestamp a) (i_timestamp b)] else [])
     @ cpu_usages hz cpus (b # h)"
| "cpu_usages hz cpus _ = []"

lemma cpu_usages_snoc: "h \<noteq> [] \<Longrightarrow> cpu_usages hz cpus (h @ [b]) = cpu_usages hz cpus h @
    (if ticks (last h) \<le> ticks b
     then [compute_cpu_usage hz cpus (ticks (last h)) (ticks b) (i_timestamp (last h)) (i_timestamp b)]
     else [])"
  by (induction hz cpus h rule: cpu_usages.induct) simp_all

lemma cpu_usages_length: "length (cpu_usages hz cpus h) \<le> length h - 1"
  by (induction hz cpus h rule: cpu_usages.induct) auto

lemma run_last_ticks: "run_process hz cpus h = Some ps \<Longrightarrow> prev_cpu_ticks ps = ticks (last h)"
  by (cases h rule: rev_cases) (auto simp: run_process_snoc run_process_Nil ticks_def)

lemma run_records:
  assumes "run_process hz cpus h = Some ps"
  shows "number_of_records ps = of_nat (length h)"
  using assms by (rule run_process_induct) (simp_all add: ac_simps)

definition cpu_spec :: "double list \<Rightarrow> process_state_t \<Rightarrow> bool" where
  "cpu_spec us ps = (cpu_usage_sum ps = foldl d_add (Fin 0) us
     \<and> cpu_usage_samples ps = to_long (int (length us)))"

lemma of_nat_u64_pos: "0 < n \<Longrightarrow> n < 2 ^ 64 \<Longrightarrow> 0 < (of_nat n :: u64)"
  by (simp add: word_less_nat_alt unat_of_nat)

lemma cpu_counts_run:
  assumes "run_process hz cpus h = Some ps" and "h \<noteq> []" and "monotonic_clock (h @ [i])"
    and "length h < 2 ^ 64"
  shows "cpu_counts i ps = (ticks (last h) \<le> ticks i)"
proof -
  have "0 < number_of_records ps"
    using assms by (simp only: run_records [OF assms(1)]) (simp add: of_nat_u64_pos)
  then show ?thesis
    using run_last_ticks [OF assms(1)] run_last_timestamp [OF assms(1)] monotonic_snoc(4) [OF assms(3,2)]
    by (simp add: cpu_counts_def ticks_def)
qed

lemma cpu_spec_run:
  assumes "run_process hz cpus h = Some ps" and "monotonic_clock h" and "length h \<le> 2 ^ 64"
  shows "cpu_spec (cpu_usages hz cpus h) ps"
proof -
  have "monotonic_clock h \<longrightarrow> length h \<le> 2 ^ 64 \<longrightarrow> cpu_spec (cpu_usages hz cpus h) ps"
    using assms(1)
  proof (rule run_process_induct)
    show "monotonic_clock [i] \<longrightarrow> length [i] \<le> 2 ^ 64 \<longrightarrow>
      cpu_spec (cpu_usages hz cpus [i]) (update_process hz cpus i (new_process i))" for i
      by (simp add: cpu_spec_def cpu_counts_def)
  next
    fix h i ps
    assume h: "h \<noteq> []" and r: "run_process hz cpus h = Some ps"
      and IH: "monotonic_clock h \<longrightarrow> length h \<le> 2 ^ 64 \<longrightarrow> cpu_spec (cpu_usages hz cpus h) ps"
    show "monotonic_clock (h @ [i]) \<longrightarrow> length (h @ [i]) \<le> 2 ^ 64 \<longrightarrow>
      cpu_spec (cpu_usages hz cpus (h @ [i])) (update_process hz cpus i ps)"
    proof (intro impI)
      assume m: "monotonic_clock (h @ [i])" and n: "length (h @ [i]) \<le> 2 ^ 64"
      then have c: "cpu_counts i ps = (ticks (last h) \<le> ticks i)"
        by (intro cpu_counts_run [OF r h]) simp_all
      have "cpu_spec (cpu_usages hz cpus h) ps" using IH monotonic_snoc(1) [OF m h] n by simp
      then show "cpu_spec (cpu_usages hz cpus (h @ [i])) (update_process hz cpus i ps)"
        using c run_last_ticks [OF r] run_last_timestamp [OF r]
        by (simp add: cpu_spec_def cpu_usages_snoc [OF h] to_long_add_left ticks_def)
    qed
  qed
  with assms(2,3) show ?thesis by simp
qed

text \<open>Every usage is a number that is not negative, and so is their sum.\<close>

lemma compute_cpu_nonneg:
  assumes "1 \<le> hz" and "hz \<le> LONG_MAX" and "1 \<le> cpus" and "cpus \<le> LONG_MAX"
    and "is_finite a" and "is_finite b" and "d_less a b"
  shows "d_nonneg (compute_cpu_usage hz cpus p c a b)"
proof -
  obtain t where t: "d_of_u64 (c - p) = Fin t" "rnd t = t" "0 \<le> t" "t < 2 ^ 1024"
    using of_u64_rep by blast
  obtain z where z: "d_of_long hz = Fin z" "1 \<le> z" using of_long_pos assms(1,2) by blast
  obtain k where k: "d_of_long cpus = Fin k" "1 \<le> k" using of_long_pos assms(3,4) by blast
  obtain q where q: "d_div (Fin t) (Fin z) = Fin q" "0 \<le> q"
    using div_by_long [OF t(2,3,4) z(2)] by blast
  have dt: "d_less (Fin 0) (d_sub b a)" using assms(5-7) by (intro sub_pos)
  have "d_nonneg (d_div (Fin q) (d_sub b a))" using q(2) dt by (intro nonneg_div) auto
  then have "d_nonneg (d_div (d_div (Fin q) (d_sub b a)) (Fin k))"
    by (rule nonneg_div) (use k(2) in auto)
  then show ?thesis
    using dt by (simp add: compute_cpu_usage_def t z k q pos_not_le nonneg_mul_pos del: d_div.simps)
qed

lemma cpu_usages_nonneg:
  assumes "1 \<le> hz" and "hz \<le> LONG_MAX" and "1 \<le> cpus" and "cpus \<le> LONG_MAX" and "monotonic_clock h"
  shows "list_all d_nonneg (cpu_usages hz cpus h)"
  using assms
  by (induction hz cpus h rule: cpu_usages.induct) (auto simp: monotonic_clock_def intro!: compute_cpu_nonneg)

lemma sum_nonneg: "list_all d_nonneg us \<Longrightarrow> d_nonneg a \<Longrightarrow> d_nonneg (foldl d_add a us)"
  by (induction us arbitrary: a) (auto simp: nonneg_add)

section \<open>Name, state and timestamps\<close>

lemma run_comm_state:
  assumes "run_process hz cpus h = Some ps"
  shows "comm ps = take 64 (i_comm (last h)) \<and> threads ps = i_threads (last h) \<and> state ps = i_state (hd h)"
  using assms by (rule run_process_induct) simp_all

lemma feed_stamps:
  assumes "is_module_initialized st" and "is \<noteq> []"
  shows "h_r_last_timestamp (stats_feed is st) = c_snprintf 64 (i_h_r_timestamp (last is))
    \<and> (h_r_initial_timestamp st \<noteq> [] \<longrightarrow> h_r_initial_timestamp (stats_feed is st) = h_r_initial_timestamp st)
    \<and> (h_r_initial_timestamp st = [] \<and> i_h_r_timestamp (hd is) \<noteq> [] \<longrightarrow>
        h_r_initial_timestamp (stats_feed is st) = c_snprintf 64 (i_h_r_timestamp (hd is)))
    \<and> prog_name (stats_feed is st) = prog_name st
    \<and> g_number_of_snapshots (stats_feed is st) = g_number_of_snapshots st"
  using assms
proof (induction "is" arbitrary: st)
  case (Cons i "is")
  let ?s = "process_stats_update True i st"
  have u: "h_r_last_timestamp ?s = c_snprintf 64 (i_h_r_timestamp i)"
      "h_r_initial_timestamp ?s = (if h_r_initial_timestamp st = [] then c_snprintf 64 (i_h_r_timestamp i)
         else h_r_initial_timestamp st)"
      "prog_name ?s = prog_name st" "g_number_of_snapshots ?s = g_number_of_snapshots st"
    using Cons.prems(1) by (simp_all add: process_stats_update_def Let_def split: prod.splits option.splits)
  have ne: "i_h_r_timestamp i \<noteq> [] \<Longrightarrow> c_snprintf 64 (i_h_r_timestamp i) \<noteq> []" by (simp add: c_snprintf_def)
  have f: "stats_feed (i # is) st = stats_feed is ?s" by (simp add: stats_feed_def)
  show ?case
  proof (cases "is = []")
    case True
    then show ?thesis using u by (simp add: stats_feed_def)
  next
    case False
    then show ?thesis using Cons.IH [of ?s] Cons.prems u ne unfolding f by auto
  qed
qed simp

section \<open>The collector from start-up\<close>

definition collect :: "int \<Rightarrow> int \<Rightarrow> string \<Rightarrow> process_state_input_t list \<Rightarrow> process_stats" where
  "collect hz cpus prog is = stats_feed is (process_stats_initialize hz cpus prog process_stats_initial)"

text \<open>The divisors in force: the defaults 100 and 1 where \<^verbatim>\<open>sysconf\<close> gives no positive answer.\<close>

definition ticks_per_second :: "int \<Rightarrow> int" where
  "ticks_per_second hz = (if 0 < hz then hz else 100)"

definition online_cpus :: "int \<Rightarrow> int" where
  "online_cpus cpus = (if 0 < cpus then cpus else 1)"

lemma initialize_fields:
  "is_module_initialized (process_stats_initialize hz cpus prog process_stats_initial)"
  "g_process_table (process_stats_initialize hz cpus prog process_stats_initial) = None"
  "g_clock_ticks_per_second (process_stats_initialize hz cpus prog process_stats_initial) = ticks_per_second hz"
  "g_online_cpu_count (process_stats_initialize hz cpus prog process_stats_initial) = online_cpus cpus"
  by (simp_all add: process_stats_initialize_def process_stats_initial_def Let_def
      ticks_per_second_def online_cpus_def)

lemma empty_table: "table_ok pid None" "table_lookup pid None p = None"
  by (simp_all add: table_ok_def table_lookup_def HASH_FIND_INT_def)

lemma collect_run:
  "stats_ok (collect hz cpus prog is)"
  "lookup_process (collect hz cpus prog is) p =
     run_process (ticks_per_second hz) (online_cpus cpus) (history p is)"
  using feed_invariant [of "process_stats_initialize hz cpus prog process_stats_initial" "is"]
    feed_lookup [of "process_stats_initialize hz cpus prog process_stats_initial" p "is"]
  by (simp_all add: collect_def initialize_fields stats_ok_def lookup_process_def empty_table)

lemma collect_Some:
  "history p is \<noteq> [] \<Longrightarrow> \<exists>ps. lookup_process (collect hz cpus prog is) p = Some ps"
  by (simp add: collect_run(2) run_process_Some)

lemma collect_stamps:
  assumes "is \<noteq> []" and "i_h_r_timestamp (hd is) \<noteq> []"
  shows "h_r_initial_timestamp (collect hz cpus prog is) = take 63 (i_h_r_timestamp (hd is))"
    and "h_r_last_timestamp (collect hz cpus prog is) = take 63 (i_h_r_timestamp (last is))"
    and "prog_name (collect hz cpus prog is) = Some prog"
    and "g_number_of_snapshots (collect hz cpus prog is) = 0"
  using feed_stamps [of "process_stats_initialize hz cpus prog process_stats_initial" "is"] assms
  by (simp_all add: collect_def process_stats_initialize_def process_stats_initial_def Let_def c_snprintf_def)

text \<open>Samples for concrete runs: process \<open>p\<close> at \<open>t\<close> seconds.\<close>

definition sample :: "int \<Rightarrow> rat \<Rightarrow> u64 \<Rightarrow> int \<Rightarrow> u64 \<Rightarrow> u64 \<Rightarrow> bool \<Rightarrow> process_state_input_t" where
  "sample p t tk rss fds io ok = \<lparr>i_pid = p, i_comm = ''sh'', i_state = CHR ''S'', i_ppid = 1,
     i_utime = tk, i_stime = 0, i_rssKb = rss, i_timestamp = Fin t, i_h_r_timestamp = ''12:00:00'',
     i_threads = 1, i_read_kbytes = io, i_write_kbytes = 2 * io, i_bo_is_rss_valid = True,
     i_bo_is_io_valid = ok, i_number_of_fds = fds, i_bo_is_fd_valid = True\<rparr>"

lemma rnd_numeral: "numeral n < (2 ^ 53 :: int) \<Longrightarrow> rnd (numeral n) = numeral n"
  using rnd_of_int [of "numeral n"] by simp

lemma rnd_one [simp]: "rnd 1 = 1"
  using rnd_of_int [of 1] by simp

lemmas sample_simps = sample_def history_def monotonic_clock_def rnd_numeral

definition two_samples :: "process_state_input_t list" where
  "two_samples = [sample 7 1 10 100 3 5 True, sample 8 1 0 50 9 1 True, sample 7 2 35 160 8 25 True]"

lemma two_samples_run: "\<exists>ps. lookup_process (collect 100 4 ''pa'' two_samples) 7 = Some ps"
  by (rule collect_Some) (simp add: two_samples_def sample_simps)

text \<open>C3: After any sequence of samples the hash table is well formed and the record of each
  process is the one obtained from that process's own samples alone, in order: the table neither
  loses, duplicates nor mixes up processes, whatever the collisions and bucket expansions.\<close>

theorem collect_isolates:
  "stats_ok (collect hz cpus prog is) \<and> (\<forall>p. lookup_process (collect hz cpus prog is) p =
     run_process (ticks_per_second hz) (online_cpus cpus) (history p is))"
  by (simp add: collect_run)

text \<open>C31: The RSS aggregates of a process are those of its valid RSS samples: their number, their
  sum, the first value and the variation from the first to the last, in \<^verbatim>\<open>long\<close> arithmetic.\<close>

theorem collect_rss:
  assumes "lookup_process (collect hz cpus prog is) p = Some ps"
  shows "rss_spec (rss_samples (history p is)) ps"
  using assms rss_spec_run by (simp add: collect_run(2))

theorem collect_rss_witness:
  "\<exists>ps. lookup_process (collect 100 4 ''pa'' two_samples) 7 = Some ps \<and>
     rss_spec [100, 160] ps \<and> rss_sum ps = 260 \<and> rss_variation_since_startup ps = 60"
proof -
  obtain ps where ps: "lookup_process (collect 100 4 ''pa'' two_samples) 7 = Some ps"
    using two_samples_run by blast
  have "rss_samples (history 7 two_samples) = [100, 160]"
    by (simp add: two_samples_def rss_samples_def sample_simps)
  with collect_rss [OF ps] have "rss_spec [100, 160] ps" by simp
  with ps show ?thesis by (auto simp: rss_spec_def to_long_def)
qed

text \<open>C33: The descriptor aggregates of a process are the first and the last valid count and
  their signed 64-bit difference; without a valid sample the delta stays 0.\<close>

theorem collect_fds:
  assumes "lookup_process (collect hz cpus prog is) p = Some ps"
  shows "fd_spec (fd_samples (history p is)) ps"
  using assms fd_spec_run by (simp add: collect_run(2))

theorem collect_fds_witness:
  "\<exists>ps. lookup_process (collect 100 4 ''pa'' two_samples) 7 = Some ps \<and>
     fd_spec [3, 8] ps \<and> current_num_of_fds ps = 8"
proof -
  obtain ps where ps: "lookup_process (collect 100 4 ''pa'' two_samples) 7 = Some ps"
    using two_samples_run by blast
  have "fd_samples (history 7 two_samples) = [3, 8]"
    by (simp add: two_samples_def fd_samples_def sample_simps)
  with collect_fds [OF ps] have "fd_spec [3, 8] ps" by simp
  with ps show ?thesis by (auto simp: fd_spec_def)
qed

text \<open>C27: With the clock increasing, the read and write totals are the sums of the advances
  between consecutive valid counters, a counter that went back counting zero; where both counters
  never go back they are last minus first, and two valid samples make the I/O time positive.\<close>

theorem collect_io:
  assumes "lookup_process (collect hz cpus prog is) p = Some ps" and "monotonic_clock (history p is)"
    and "io_samples (history p is) = v"
  shows "total_read_kbytes ps = increments (map fst v) \<and> total_write_kbytes ps = increments (map snd v)
    \<and> (v \<noteq> [] \<and> sorted (map fst v) \<longrightarrow> total_read_kbytes ps = fst (last v) - fst (hd v))
    \<and> (v \<noteq> [] \<and> sorted (map snd v) \<longrightarrow> total_write_kbytes ps = snd (last v) - snd (hd v))
    \<and> (2 \<le> length v \<longrightarrow> d_less (Fin 0) (io_time_acc ps))"
  using io_spec_run [of "ticks_per_second hz" "online_cpus cpus" "history p is" ps] assms
    increments_sorted [of "map fst v"] increments_sorted [of "map snd v"]
  by (auto simp: collect_run(2) io_spec_def last_map hd_map)

theorem collect_io_witness:
  "\<exists>ps. lookup_process (collect 100 4 ''pa'' two_samples) 7 = Some ps \<and>
     total_read_kbytes ps = 20 \<and> total_write_kbytes ps = 40 \<and> d_less (Fin 0) (io_time_acc ps)"
proof -
  obtain ps where ps: "lookup_process (collect 100 4 ''pa'' two_samples) 7 = Some ps"
    using two_samples_run by blast
  have m: "monotonic_clock (history 7 two_samples)"
    by (simp add: two_samples_def sample_simps)
  have v: "io_samples (history 7 two_samples) = [(5, 10), (25, 50)]"
    by (simp add: two_samples_def io_samples_def sample_simps)
  show ?thesis using collect_io [OF ps m v] ps by (auto simp: advance_def)
qed

text \<open>C26: With the clock increasing, the CPU usages accumulated are exactly those of the
  intervals between consecutive samples whose tick count did not go back, added in order; each
  usage and the sum are numbers that are not negative, never a NaN.\<close>

theorem collect_cpu:
  assumes "lookup_process (collect hz cpus prog is) p = Some ps" and "monotonic_clock (history p is)"
    and "length (history p is) < 2 ^ 63" and "hz \<le> LONG_MAX" and "cpus \<le> LONG_MAX"
  shows "let us = cpu_usages (ticks_per_second hz) (online_cpus cpus) (history p is)
    in cpu_usage_sum ps = foldl d_add (Fin 0) us \<and> cpu_usage_samples ps = int (length us)
       \<and> list_all d_nonneg us \<and> d_nonneg (cpu_usage_sum ps)"
proof -
  let ?us = "cpu_usages (ticks_per_second hz) (online_cpus cpus) (history p is)"
  have sp: "cpu_spec ?us ps" using assms by (intro cpu_spec_run) (simp_all add: collect_run(2))
  have "int (length ?us) \<le> LONG_MAX"
    using cpu_usages_length [of "ticks_per_second hz" "online_cpus cpus" "history p is"] assms(3)
    by (simp add: LONG_MAX_def)
  then have "to_long (int (length ?us)) = int (length ?us)"
    by (intro to_long_id) (simp_all add: LONG_MIN_def)
  moreover have "list_all d_nonneg ?us"
    using assms by (intro cpu_usages_nonneg)
      (auto simp: ticks_per_second_def online_cpus_def LONG_MAX_def)
  ultimately show ?thesis using sp sum_nonneg [of ?us "Fin 0"] by (simp add: cpu_spec_def)
qed

theorem collect_cpu_witness:
  "\<exists>ps. lookup_process (collect 100 4 ''pa'' two_samples) 7 = Some ps \<and>
     cpu_usage_samples ps = 1 \<and> d_nonneg (cpu_usage_sum ps)"
proof -
  obtain ps where ps: "lookup_process (collect 100 4 ''pa'' two_samples) 7 = Some ps"
    using two_samples_run by blast
  have m: "monotonic_clock (history 7 two_samples)" and l: "length (history 7 two_samples) < 2 ^ 63"
    by (simp_all add: two_samples_def sample_simps)
  have us: "length (cpu_usages (ticks_per_second 100) (online_cpus 4) (history 7 two_samples)) = 1"
    by (simp add: two_samples_def ticks_def sample_simps)
  show ?thesis using collect_cpu [OF ps m l] ps us by (auto simp: LONG_MAX_def Let_def)
qed

text \<open>C34: The report's start and end times are those of the first and the last sample, cut to the
  63 bytes of their buffers, and the record of a process carries the name and thread count of its
  last sample but the state letter of its first one: the state is set when the record is created
  and no later sample refreshes it.\<close>

theorem collect_names_and_stamps:
  assumes "is \<noteq> []" and "i_h_r_timestamp (hd is) \<noteq> []"
    and "lookup_process (collect hz cpus prog is) p = Some ps"
  shows "h_r_initial_timestamp (collect hz cpus prog is) = take 63 (i_h_r_timestamp (hd is))
    \<and> h_r_last_timestamp (collect hz cpus prog is) = take 63 (i_h_r_timestamp (last is))
    \<and> comm ps = take 64 (i_comm (last (history p is))) \<and> threads ps = i_threads (last (history p is))
    \<and> state ps = i_state (hd (history p is))"
  using assms run_comm_state [of "ticks_per_second hz" "online_cpus cpus" "history p is" ps]
  by (simp add: collect_run(2) collect_stamps)

theorem collect_names_and_stamps_witness:
  "\<exists>ps. lookup_process (collect 100 4 ''pa''
       [sample 7 1 0 1 1 0 True, (sample 7 2 0 1 1 0 True)\<lparr>i_state := CHR ''Z''\<rparr>]) 7 = Some ps
     \<and> state ps = CHR ''S''"
proof -
  let ?is = "[sample 7 1 0 1 1 0 True, (sample 7 2 0 1 1 0 True)\<lparr>i_state := CHR ''Z''\<rparr>]"
  have h: "history 7 ?is = ?is" by (simp add: sample_simps)
  then have "\<exists>ps. lookup_process (collect 100 4 ''pa'' ?is) 7 = Some ps"
    by (intro collect_Some) simp
  then obtain ps where ps: "lookup_process (collect 100 4 ''pa'' ?is) 7 = Some ps" by blast
  have "state ps = i_state (hd (history 7 ?is))"
    using collect_names_and_stamps [OF _ _ ps] by (simp add: sample_def)
  with ps h show ?thesis by (auto simp: sample_def)
qed

text \<open>When a sample between two valid I/O samples has no I/O data, the bytes cover the whole
  interval but the I/O time only the part after the invalid sample: the average rate computed
  from them is over a shorter time than the one the bytes were transferred in.\<close>

theorem io_time_gap:
  assumes "i_bo_is_io_valid a" and "\<not> i_bo_is_io_valid b" and "i_bo_is_io_valid c"
    and "i_pid a = p" and "i_pid b = p" and "i_pid c = p" and "monotonic_clock [a, b, c]"
  shows "\<exists>ps. lookup_process (collect hz cpus prog [a, b, c]) p = Some ps
    \<and> total_read_kbytes ps = advance (i_read_kbytes a) (i_read_kbytes c)
    \<and> io_time_acc ps = d_add (Fin 0) (d_sub (i_timestamp c) (i_timestamp b))"
proof -
  have "d_less (Fin 0) (d_sub (i_timestamp c) (i_timestamp b))"
    using monotonic_snoc(4) [of "[a, b]" c] assms(7) by simp
  then have "\<not> d_le (d_sub (i_timestamp c) (i_timestamp b)) (Fin 0)" by (rule pos_not_le)
  then show ?thesis
    using assms by (simp add: collect_run(2) history_def run_process_def io_counts_def)
qed

theorem io_time_gap_witness:
  "\<exists>ps. lookup_process (collect 100 4 ''pa'' [sample 7 1 0 1 1 10 True, sample 7 11 0 1 1 0 False,
       sample 7 12 0 1 1 1110 True]) 7 = Some ps
     \<and> total_read_kbytes ps = 1100 \<and> io_time_acc ps = Fin 1"
proof -
  have "monotonic_clock [sample 7 1 0 1 1 10 True, sample 7 11 0 1 1 0 False, sample 7 12 0 1 1 1110 True]"
    by (simp add: sample_simps)
  then show ?thesis
    using io_time_gap [of "sample 7 1 0 1 1 10 True" "sample 7 11 0 1 1 0 False"
        "sample 7 12 0 1 1 1110 True" 7 100 4 "''pa''"]
    by (simp add: sample_def advance_def d_sub_def)
qed

section \<open>Tearing the module down\<close>

lemma deinit_state:
  "process_stats_deinit st = (HASH_ITER (g_process_table st), st\<lparr>g_process_table := None,
     pfJsonOutput := None, is_module_initialized := False, prog_name := None,
     g_number_of_snapshots := 0, boIsFirstJsonMetric := True, h_r_initial_timestamp := [],
     h_r_last_timestamp := []\<rparr>)"
  by (simp add: process_stats_deinit_def free_loop_all)

lemma feed_uninitialized: "\<not> is_module_initialized st \<Longrightarrow> stats_feed is st = st"
  by (induction "is") (simp_all add: stats_feed_def process_stats_update_def)

lemma iter_lookup_process:
  assumes "stats_ok st"
  shows "ps \<in> set (HASH_ITER (g_process_table st)) \<longleftrightarrow> lookup_process st (pid ps) = Some ps"
proof -
  let ?xs = "HASH_ITER (g_process_table st)"
  have "table_ok pid (g_process_table st)" using assms by (simp add: stats_ok_def)
  then have lk: "lookup_process st (pid ps) = find (\<lambda>x. pid x = pid ps) ?xs" and d: "distinct (map pid ?xs)"
    by (simp_all add: lookup_process_def ut.lookup_iter ut.iter_distinct)
  show ?thesis
  proof
    assume "ps \<in> set ?xs"
    then obtain i where "i < length ?xs" "?xs ! i = ps" by (auto simp: in_set_conv_nth)
    with find_distinct_nth [OF d] lk show "lookup_process st (pid ps) = Some ps" by metis
  next
    assume "lookup_process st (pid ps) = Some ps"
    then have "find (\<lambda>x. pid x = pid ps) ?xs = Some ps" using lk by simp
    from find_SomeD [OF this] show "ps \<in> set ?xs" by blast
  qed
qed

lemma feed_first:
  "stats_feed is (st\<lparr>boIsFirstJsonMetric := b\<rparr>) = (stats_feed is st)\<lparr>boIsFirstJsonMetric := b\<rparr>"
proof (induction "is" arbitrary: st)
  case (Cons i "is")
  have "process_stats_update True i (st\<lparr>boIsFirstJsonMetric := b\<rparr>) = (process_stats_update True i st)\<lparr>boIsFirstJsonMetric := b\<rparr>"
    by (simp add: process_stats_update_def Let_def split: prod.split option.split)
  with Cons.IH [of "process_stats_update True i st"] show ?case by (simp add: stats_feed_def)
qed (simp add: stats_feed_def)

text \<open>The state after a run: samples, counted snapshots and perhaps a report that was begun.\<close>

definition run_state ::
    "int \<Rightarrow> int \<Rightarrow> string \<Rightarrow> process_state_input_t list \<Rightarrow> u64 \<Rightarrow> fpath option \<Rightarrow> bool \<Rightarrow> process_stats" where
  "run_state hz cpus prog is k f first = (collect hz cpus prog is)
     \<lparr>g_number_of_snapshots := k, pfJsonOutput := f, boIsFirstJsonMetric := first\<rparr>"

lemma deinit_run_state:
  "snd (process_stats_deinit (run_state hz cpus prog is k f first)) = process_stats_initial
     \<lparr>boIsFirstJsonMetric := True, g_clock_ticks_per_second := ticks_per_second hz, g_online_cpu_count := online_cpus cpus\<rparr>"
proof -
  let ?st = "process_stats_initialize hz cpus prog process_stats_initial"
  have "g_clock_ticks_per_second (stats_feed is ?st) = ticks_per_second hz" "g_online_cpu_count (stats_feed is ?st) = online_cpus cpus"
    using feed_invariant [of ?st "is"] by (simp_all add: initialize_fields stats_ok_def empty_table)
  then show ?thesis by (simp add: run_state_def collect_def deinit_state process_stats_initial_def)
qed

text \<open>C40: \<^verbatim>\<open>process_stats_deinit\<close> undoes a run. It frees every record the samples created exactly once (one
  per process, each the record a lookup would have found) although it deletes from the table it iterates
  over, and leaves the static variables as the program starts with them, whatever was sampled, counted and
  opened: no table, no stream, no program name, the counter at 0, both time stamps empty. Only the flag for
  the first JSON metric is set, and the tick and CPU counts persist. Samples are then ignored; and after the
  module is initialised again, the next run is that of a fresh program, except that the counts of the earlier
  run stand in for those the system does not give.\<close>

theorem deinit_frees_each_once:
  "let st = run_state hz cpus prog is k f first;
       (freed, st') = process_stats_deinit st;
       hz'' = if 0 < hz' then hz' else ticks_per_second hz;
       cpus'' = if 0 < cpus' then cpus' else online_cpus cpus
   in distinct (map pid freed)
      \<and> (ps \<in> set freed \<longleftrightarrow> lookup_process st (pid ps) = Some ps)
      \<and> length freed = HASH_COUNT (g_process_table st)
      \<and> st' = process_stats_initial\<lparr>boIsFirstJsonMetric := True, g_clock_ticks_per_second := ticks_per_second hz,
          g_online_cpu_count := online_cpus cpus\<rparr>
      \<and> stats_feed js st' = st'
      \<and> stats_feed js (process_stats_initialize hz' cpus' prog' st')
          = (collect hz'' cpus'' prog' js)\<lparr>boIsFirstJsonMetric := True\<rparr>"
proof -
  let ?st = "run_state hz cpus prog is k f first"
  let ?st' = "snd (process_stats_deinit ?st)"
  have tables: "g_process_table ?st = g_process_table (collect hz cpus prog is)" by (simp add: run_state_def)
  then have ok: "stats_ok ?st" using collect_run(1) [of hz cpus prog "is"] by (simp add: stats_ok_def)
  then have tok: "table_ok pid (g_process_table ?st)" by (simp add: stats_ok_def)
  have "stats_feed js ?st' = ?st'" by (rule feed_uninitialized) (simp add: deinit_state)
  moreover have "process_stats_initialize hz' cpus' prog' ?st' =
      (process_stats_initialize (if 0 < hz' then hz' else ticks_per_second hz)
        (if 0 < cpus' then cpus' else online_cpus cpus) prog' process_stats_initial)\<lparr>boIsFirstJsonMetric := True\<rparr>"
    by (simp add: deinit_run_state process_stats_initialize_def Let_def process_stats_initial_def ticks_per_second_def online_cpus_def)
  ultimately show ?thesis
    using ut.iter_distinct [OF tok] ut.count_iter [OF tok] iter_lookup_process [OF ok] deinit_run_state [of hz cpus prog "is" k f first]
      feed_first [of js]
    by (simp add: deinit_state Let_def collect_def)
qed

end
