(* ===== verification/C_Qsort.thy ===== *)
theory C_Qsort
  imports Prelude "HOL-Library.Multiset"
begin

text \<open>
  \<^verbatim>\<open>qsort\<close> as the C library implements it for arrays of pointers: the merge sort of
  \<^verbatim>\<open>msort_with_tmp\<close>, which halves the array, sorts both halves and merges them preferring the
  left one on ties. The locale \<open>comparator\<close> states what a caller's comparison function has to
  satisfy on the elements it is used for, and proves what the caller may then rely on.
\<close>

fun merge_runs :: "('a \<Rightarrow> 'a \<Rightarrow> int) \<Rightarrow> 'a list \<Rightarrow> 'a list \<Rightarrow> 'a list" where
  "merge_runs cmp (a # as) (b # bs) =
     (if cmp a b \<le> 0 then a # merge_runs cmp as (b # bs) else b # merge_runs cmp (a # as) bs)"
| "merge_runs cmp [] bs = bs"
| "merge_runs cmp as [] = as"

function c_qsort :: "('a \<Rightarrow> 'a \<Rightarrow> int) \<Rightarrow> 'a list \<Rightarrow> 'a list" where
  "c_qsort cmp xs =
     (if length xs \<le> 1 then xs
      else let n1 = length xs div 2
           in merge_runs cmp (c_qsort cmp (take n1 xs)) (c_qsort cmp (drop n1 xs)))"
  by pat_completeness auto
termination by (relation "measure (\<lambda>(cmp, xs). length xs)") auto

declare c_qsort.simps [simp del]

lemma mset_merge_runs: "mset (merge_runs cmp as bs) = mset as + mset bs"
  by (induction cmp as bs rule: merge_runs.induct) auto

lemma mset_qsort: "mset (c_qsort cmp xs) = mset xs"
proof (induction cmp xs rule: c_qsort.induct)
  case (1 cmp xs)
  show ?case
  proof (cases "length xs \<le> 1")
    case True
    then show ?thesis by (simp add: c_qsort.simps [of cmp xs])
  next
    case False
    let ?n = "length xs div 2"
    have "mset (take ?n xs) + mset (drop ?n xs) = mset xs"
      by (metis append_take_drop_id mset_append)
    with False 1 [of ?n] show ?thesis
      by (simp add: c_qsort.simps [of cmp xs] Let_def mset_merge_runs)
  qed
qed

lemma set_qsort [simp]: "set (c_qsort cmp xs) = set xs"
  using mset_qsort [of cmp xs] by (metis set_mset_mset)

lemma length_qsort [simp]: "length (c_qsort cmp xs) = length xs"
  using mset_qsort [of cmp xs] by (metis size_mset)

lemma distinct_qsort: "distinct (c_qsort cmp xs) = distinct xs"
  by (intro mset_eq_imp_distinct_iff mset_qsort)

lemma set_merge_runs: "set (merge_runs cmp as bs) = set as \<union> set bs"
  using mset_merge_runs [of cmp as bs] by (metis set_mset_mset set_mset_union)

section \<open>Comparison functions\<close>

locale comparator =
  fixes cmp :: "'a \<Rightarrow> 'a \<Rightarrow> int" and S :: "'a set"
  assumes cmp_total: "a \<in> S \<Longrightarrow> b \<in> S \<Longrightarrow> cmp a b \<le> 0 \<or> cmp b a \<le> 0"
    and cmp_trans: "a \<in> S \<Longrightarrow> b \<in> S \<Longrightarrow> c \<in> S \<Longrightarrow> cmp a b \<le> 0 \<Longrightarrow> cmp b c \<le> 0 \<Longrightarrow> cmp a c \<le> 0"
begin

definition ordered :: "'a list \<Rightarrow> bool" where
  "ordered xs = sorted_wrt (\<lambda>a b. cmp a b \<le> 0) xs"

lemma ordered_merge:
  assumes "set as \<union> set bs \<subseteq> S" and "ordered as" and "ordered bs"
  shows "ordered (merge_runs cmp as bs)"
  using assms
proof (induction cm \<equiv> cmp as bs rule: merge_runs.induct)
  case (1 a as b bs)
  show ?case
  proof (cases "cmp a b \<le> 0")
    case True
    moreover have "\<forall>y \<in> set bs. cmp a y \<le> 0"
      using 1(3-5) True cmp_trans [of a b] by (auto simp: ordered_def)
    ultimately show ?thesis using 1 by (auto simp: ordered_def set_merge_runs)
  next
    case False
    then have ba: "cmp b a \<le> 0" using cmp_total [of a b] 1(3) by auto
    moreover have "\<forall>y \<in> set as. cmp b y \<le> 0"
      using 1(3-5) ba cmp_trans [of b a] by (auto simp: ordered_def)
    ultimately show ?thesis using 1 False by (auto simp: ordered_def set_merge_runs)
  qed
qed auto

lemma ordered_qsort: "set xs \<subseteq> S \<Longrightarrow> ordered (c_qsort cmp xs)"
proof (induction cm \<equiv> cmp xs rule: c_qsort.induct)
  case (1 xs)
  show ?case
  proof (cases "length xs \<le> 1")
    case True
    then have "c_qsort cmp xs = xs" by (simp add: c_qsort.simps [of cmp xs])
    with True show ?thesis by (cases xs) (auto simp: ordered_def)
  next
    case False
    let ?n = "length xs div 2"
    have s: "set (take ?n xs) \<subseteq> S" "set (drop ?n xs) \<subseteq> S"
      using 1(3) set_take_subset [of ?n xs] set_drop_subset [of ?n xs] by blast+
    then have "ordered (merge_runs cmp (c_qsort cmp (take ?n xs)) (c_qsort cmp (drop ?n xs)))"
      using 1(1,2) [OF False refl] by (intro ordered_merge) auto
    with False show ?thesis by (simp add: c_qsort.simps [of cmp xs] Let_def)
  qed
qed

text \<open>The first \<open>n\<close> elements after sorting: nothing left out comes before something listed.\<close>

lemma top_first:
  assumes "set xs \<subseteq> S" and "x \<in> set (take n (c_qsort cmp xs))" and "y \<in> set (drop n (c_qsort cmp xs))"
  shows "cmp x y \<le> 0"
proof -
  have "ordered (take n (c_qsort cmp xs) @ drop n (c_qsort cmp xs))"
    using ordered_qsort [OF assms(1)] by simp
  with assms(2,3) show ?thesis
    by (auto simp: ordered_def sorted_wrt_append simp del: append_take_drop_id)
qed

end

text \<open>A comparison function that ranks by a key of a linear order, largest first.\<close>

locale ranking =
  fixes cmp :: "'a \<Rightarrow> 'a \<Rightarrow> int" and key :: "'a \<Rightarrow> 'k :: linorder"
  assumes cmp_key: "cmp a b \<le> 0 \<longleftrightarrow> key b \<le> key a"

sublocale ranking \<subseteq> comparator cmp UNIV
  by unfold_locales (auto simp: cmp_key)

context ranking
begin

lemma ranked: "sorted (rev (map key (c_qsort cmp xs)))"
proof -
  have "sorted_wrt (\<lambda>a b. key b \<le> key a) (c_qsort cmp xs)"
    using ordered_qsort [of xs] by (simp add: ordered_def cmp_key)
  then have "sorted_wrt (\<lambda>a b. b \<le> a) (map key (c_qsort cmp xs))" by (simp add: sorted_wrt_map)
  then show ?thesis by (simp add: sorted_wrt_rev)
qed

end

end
