(* ===== verification/Config.thy ===== *)
theory Config
  imports File_System
begin

text \<open>
  \<^verbatim>\<open>config.c\<close>: the configuration record and its defaults, the parser of the configuration
  file, the creation and check of the output directory, the validation, the start-up banner and
  the getters. Messages on the error stream are not kept; the text of the banner is. Reading the
  configuration file, once it is open, does not fail.
\<close>

section \<open>The configuration\<close>

datatype config_status = config_success | config_error_io | config_error_parse | config_error_validation

record config_t =
  output_dir :: string
  raw_log_enabled :: bool
  raw_jsonl_enabled :: bool
  raw_console_enabled :: bool
  compression_enabled :: bool
  metrics_console_enabled :: bool
  metrics_json_enabled :: bool
  max_file_size_bytes :: int
  max_number_of_files :: int
  include_self :: bool

definition CONFIG_LOG_FILE :: string where "CONFIG_LOG_FILE = ''ptime.log''"
definition CONFIG_JSON_FILE :: string where "CONFIG_JSON_FILE = ''ptime.jsonl''"
definition CONFIG_METRICS_JSON :: string where "CONFIG_METRICS_JSON = ''metrics.json''"
definition CONFIG_LOCK_FILE :: string where "CONFIG_LOCK_FILE = ''ptime.lock''"

definition config_default :: config_t where
  "config_default = \<lparr>output_dir = ''/tmp/ptime'', raw_log_enabled = True, raw_jsonl_enabled = True,
     raw_console_enabled = False, compression_enabled = False, metrics_console_enabled = True,
     metrics_json_enabled = True, max_file_size_bytes = 5 * 1024 * 1024, max_number_of_files = 3,
     include_self = False\<rparr>"

text \<open>The static variable before \<^verbatim>\<open>config_init\<close>: all zero.\<close>

definition configuration_zero :: config_t where
  "configuration_zero = \<lparr>output_dir = [], raw_log_enabled = False, raw_jsonl_enabled = False,
     raw_console_enabled = False, compression_enabled = False, metrics_console_enabled = False,
     metrics_json_enabled = False, max_file_size_bytes = 0, max_number_of_files = 0,
     include_self = False\<rparr>"

section \<open>Parsing\<close>

definition trim :: "string \<Rightarrow> string" where
  "trim s = (let s = dropWhile c_isspace s
     in if s = [] then [] else rev (dropWhile c_isspace (rev s)))"

definition parse_bool :: "string \<Rightarrow> bool option" where
  "parse_bool v =
     (if c_strcasecmp_eq v ''true'' \<or> c_strcasecmp_eq v ''yes'' \<or> v = ''1'' then Some True
      else if c_strcasecmp_eq v ''false'' \<or> c_strcasecmp_eq v ''no'' \<or> v = ''0'' then Some False
      else None)"

text \<open>The product wraps in \<^verbatim>\<open>unsigned long long\<close> and is converted to the signed \<^verbatim>\<open>off_t\<close>.\<close>

definition parse_size :: "string \<Rightarrow> int option" where
  "parse_size v =
     (let (n, end) = c_strtoull v
      in if end = v then None
         else case end of
             [] \<Rightarrow> Some (sint n)
           | c # _ \<Rightarrow>
               if c = CHR ''k'' \<or> c = CHR ''K'' then Some (sint (n * 1024))
               else if c = CHR ''m'' \<or> c = CHR ''M'' then Some (sint (n * (1024 * 1024)))
               else if c = CHR ''g'' \<or> c = CHR ''G'' then Some (sint (n * (1024 * 1024 * 1024)))
               else None)"

definition config_set_option :: "string \<Rightarrow> string \<Rightarrow> config_t \<Rightarrow> config_t option" where
  "config_set_option key v c =
     (if key = ''output_dir'' then (if PATH_MAX \<le> length v then None else Some (c\<lparr>output_dir := v\<rparr>))
      else if key = ''raw_log_enabled'' then map_option (\<lambda>b. c\<lparr>raw_log_enabled := b\<rparr>) (parse_bool v)
      else if key = ''raw_jsonl_enabled'' then map_option (\<lambda>b. c\<lparr>raw_jsonl_enabled := b\<rparr>) (parse_bool v)
      else if key = ''raw_console_enabled''
      then map_option (\<lambda>b. c\<lparr>raw_console_enabled := b\<rparr>) (parse_bool v)
      else if key = ''compression_enabled''
      then map_option (\<lambda>b. c\<lparr>compression_enabled := b\<rparr>) (parse_bool v)
      else if key = ''metrics_on_console''
      then map_option (\<lambda>b. c\<lparr>metrics_console_enabled := b\<rparr>) (parse_bool v)
      else if key = ''metrics_on_json''
      then map_option (\<lambda>b. c\<lparr>metrics_json_enabled := b\<rparr>) (parse_bool v)
      else if key = ''max_file_size'' then map_option (\<lambda>n. c\<lparr>max_file_size_bytes := n\<rparr>) (parse_size v)
      else if key = ''max_number_of_files'' then Some (c\<lparr>max_number_of_files := c_atoi v\<rparr>)
      else if key = ''include_self'' then map_option (\<lambda>b. c\<lparr>include_self := b\<rparr>) (parse_bool v)
      else None)"

text \<open>The loop over the lines: it stops at the first bad one, keeping what was set before.\<close>

fun parse_config_lines :: "string list \<Rightarrow> config_t \<Rightarrow> config_status \<times> config_t" where
  "parse_config_lines [] c = (config_success, c)"
| "parse_config_lines (line # ls) c =
     (let s = trim line
      in if s = [] \<or> hd s = CHR ''#'' then parse_config_lines ls c
         else case split_first (CHR ''='') s of
             None \<Rightarrow> (config_error_parse, c)
           | Some (k, v) \<Rightarrow>
               (case config_set_option (trim k) (trim v) c of
                  None \<Rightarrow> (config_error_parse, c)
                | Some c' \<Rightarrow> parse_config_lines ls c'))"

definition parse_config_file :: "file_system \<Rightarrow> string \<Rightarrow> config_t \<Rightarrow> config_status \<times> config_t" where
  "parse_config_file fs path c = (case sys_stat fs path of
     Some (File _) \<Rightarrow>
       (case open_read fs path of
          None \<Rightarrow> (config_error_io, c)
        | Some txt \<Rightarrow> parse_config_lines (c_lines 512 txt) c)
   | _ \<Rightarrow> (config_error_io, c))"

section \<open>The output directory\<close>

text \<open>An access outside of an object, which C leaves undefined.\<close>

datatype c_fault = Out_Of_Bounds | Null_Stream | Null_Call

text \<open>Creating the directory of every prefix that ends before a slash; \<open>True\<close> is success.\<close>

fun mkdir_prefixes :: "string list \<Rightarrow> file_system \<Rightarrow> bool \<times> file_system" where
  "mkdir_prefixes [] fs = (True, fs)"
| "mkdir_prefixes (t # ts) fs = (case sys_mkdir fs t of
     (e, fs') \<Rightarrow> if e = None \<or> e = Some EEXIST then mkdir_prefixes ts fs' else (False, fs'))"

definition slash_prefixes :: "string \<Rightarrow> string list" where
  "slash_prefixes tmp = map (\<lambda>i. take i tmp) (filter (\<lambda>i. tmp ! i = CHR ''/'') [1 ..< length tmp])"

definition mkdir_p :: "file_system \<Rightarrow> string \<Rightarrow> c_fault + bool \<times> file_system" where
  "mkdir_p fs path =
     (if PATH_MAX \<le> length path then Inr (False, fs)
      else if path = [] then Inl Out_Of_Bounds
      else let tmp = (if last path = CHR ''/'' then butlast path else path)
           in Inr (mkdir_prefixes (slash_prefixes tmp @ [tmp]) fs))"

definition check_file_access :: "file_system \<Rightarrow> string \<Rightarrow> bool \<times> file_system" where
  "check_file_access fs dir =
     (let path = dir @ ''/dummyfile''
      in if PATH_MAX \<le> length path then (False, fs)
         else case open_write False fs path of
             (None, fs') \<Rightarrow> (False, fs')
           | (Some _, fs') \<Rightarrow> (True, snd (sys_unlink fs' path)))"

definition ensure_output_dir :: "file_system \<Rightarrow> string \<Rightarrow> c_fault + bool \<times> file_system" where
  "ensure_output_dir fs path = (case sys_stat fs path of
     Some Dir \<Rightarrow> Inr (check_file_access fs path)
   | Some _ \<Rightarrow> Inr (False, fs)
   | None \<Rightarrow> (case mkdir_p fs path of
        Inl e \<Rightarrow> Inl e
      | Inr (False, fs') \<Rightarrow> Inr (False, fs')
      | Inr (True, fs') \<Rightarrow> Inr (check_file_access fs' path)))"

section \<open>Validation and start-up\<close>

definition validate_config :: "file_system \<Rightarrow> config_t \<Rightarrow> c_fault + config_status \<times> file_system" where
  "validate_config fs c = (case ensure_output_dir fs (output_dir c) of
     Inl e \<Rightarrow> Inl e
   | Inr (ok, fs') \<Rightarrow> Inr
       (if \<not> ok then config_error_validation
        else if max_file_size_bytes c < 1024 then config_error_validation
        else if max_number_of_files c < 1 \<or> 1000 \<le> max_number_of_files c then config_error_validation
        else if \<not> raw_log_enabled c \<and> \<not> raw_jsonl_enabled c \<and> \<not> raw_console_enabled c
        then config_error_validation
        else config_success, fs'))"

text \<open>\<open>env\<close> is the value of PROCESS_ANALYZER_CONFIG, \<open>c\<close> the static variable.\<close>

definition config_init ::
    "file_system \<Rightarrow> string option \<Rightarrow> config_t \<Rightarrow> c_fault + config_status \<times> config_t \<times> file_system" where
  "config_init fs env c =
     (let (st, c) = (case env of Some path \<Rightarrow> parse_config_file fs path c
                                | None \<Rightarrow> (config_success, config_default))
      in if st \<noteq> config_success then Inr (st, c, fs)
         else case validate_config fs c of
             Inl e \<Rightarrow> Inl e
           | Inr (st, fs') \<Rightarrow> Inr (st, c, fs'))"

section \<open>Banner and getters\<close>

definition truefalse :: "bool \<Rightarrow> string" where
  "truefalse v = (if v then ''yes'' else ''no'')"

definition print_size :: "u64 \<Rightarrow> string" where
  "print_size bytes =
     (if 1024 * 1024 \<le> bytes then show_nat (unat (bytes div (1024 * 1024))) @ '' MB''
      else if 1024 \<le> bytes then show_nat (unat (bytes div 1024)) @ '' KB''
      else show_nat (unat bytes) @ '' B'')"

definition config_print_banner :: "config_t \<Rightarrow> string" where
  "config_print_banner c =
     nl @ ''================================================='' @ nl
     @ ''   Process Analyzer - Active Configuration'' @ nl
     @ ''================================================='' @ nl
     @ '' Output directory      : '' @ output_dir c @ nl @ nl
     @ '' Raw snapshots:'' @ nl
     @ ''   .log file            : '' @ truefalse (raw_log_enabled c) @ nl
     @ ''   .jsonl file          : '' @ truefalse (raw_jsonl_enabled c) @ nl
     @ ''   console              : '' @ truefalse (raw_console_enabled c) @ nl @ nl
     @ '' Compression:'' @ nl
     @ ''   compression enabled  : '' @ truefalse (compression_enabled c) @ nl @ nl
     @ '' Metrics output:'' @ nl
     @ ''   console              : '' @ truefalse (metrics_console_enabled c) @ nl
     @ ''   metrics.json         : '' @ truefalse (metrics_json_enabled c) @ nl @ nl
     @ '' Log rotation:'' @ nl
     @ ''   max file size         : '' @ print_size (word_of_int (max_file_size_bytes c)) @ nl
     @ ''   max files             : '' @ show_int (max_number_of_files c) @ nl @ nl
     @ '' General options'' @ nl
     @ ''   include self          : '' @ truefalse (include_self c) @ nl
     @ ''================================================='' @ nl @ nl"

definition config_get_output_dir :: "config_t \<Rightarrow> string" where
  "config_get_output_dir c = output_dir c"

definition config_get_max_file_size_bytes :: "config_t \<Rightarrow> int" where
  "config_get_max_file_size_bytes c = max_file_size_bytes c"

definition config_get_max_number_of_files :: "config_t \<Rightarrow> int" where
  "config_get_max_number_of_files c = max_number_of_files c"

definition config_get_raw_console_enabled :: "config_t \<Rightarrow> bool" where
  "config_get_raw_console_enabled c = raw_console_enabled c"

definition config_get_raw_log_enabled :: "config_t \<Rightarrow> bool" where
  "config_get_raw_log_enabled c = raw_log_enabled c"

definition config_get_raw_jsonl_enabled :: "config_t \<Rightarrow> bool" where
  "config_get_raw_jsonl_enabled c = raw_jsonl_enabled c"

definition config_get_metrics_console_enabled :: "config_t \<Rightarrow> bool" where
  "config_get_metrics_console_enabled c = metrics_console_enabled c"

text \<open>As the source has it: the getter of the JSON switch reads the console switch.\<close>

definition config_get_metrics_json_enabled :: "config_t \<Rightarrow> bool" where
  "config_get_metrics_json_enabled c = metrics_console_enabled c"

definition config_get_include_self :: "config_t \<Rightarrow> bool" where
  "config_get_include_self c = include_self c"

definition config_get_compression_enabled :: "config_t \<Rightarrow> bool" where
  "config_get_compression_enabled c = compression_enabled c"

section \<open>Creating a directory path\<close>

text \<open>What creating the directory \<open>p\<close> may change: directories appear on the way to it, nothing else.\<close>

definition dirs_added :: "file_system \<Rightarrow> fpath \<Rightarrow> file_system \<Rightarrow> bool" where
  "dirs_added fs p g = (fs_ok g \<and> cwd g = cwd fs \<and> refuses g = refuses fs
     \<and> (\<forall>q. node_at g q = node_at fs q
            \<or> prefix q p \<and> node_at fs q = None \<and> node_at g q = Some Dir))"

lemma resolve_dirs_added: "dirs_added fs p g \<Longrightarrow> resolve g s = resolve fs s"
  by (simp add: dirs_added_def resolve_def)

lemma dirs_added_mono: "dirs_added fs p g \<Longrightarrow> prefix p q \<Longrightarrow> dirs_added fs q g"
  by (auto simp: dirs_added_def dest: prefix_order.trans)

definition dirpart :: "file_system \<Rightarrow> string \<Rightarrow> fpath" where
  "dirpart fs s = (if absolute s then [] else cwd fs)
     @ filter (\<lambda>w. w \<noteq> [] \<and> w \<noteq> ''.'') (butlast (path_split s))"

lemma resolve_dirpart: "resolve fs s = dirpart fs s \<or> (\<exists>w. resolve fs s = dirpart fs s @ [w])"
proof -
  have "path_split s = butlast (path_split s) @ [last (path_split s)]" by simp
  then have "components s = filter (\<lambda>w. w \<noteq> [] \<and> w \<noteq> ''.'') (butlast (path_split s))
      @ filter (\<lambda>w. w \<noteq> [] \<and> w \<noteq> ''.'') [last (path_split s)]"
    unfolding components_def by (metis filter_append)
  then show ?thesis by (auto simp: resolve_def dirpart_def)
qed

lemma path_split_snoc: "path_split (s @ [c]) = (if c = CHR ''/'' then path_split s @ [[]]
    else butlast (path_split s) @ [last (path_split s) @ [c]])"
  by (induction s) (auto split: list.splits)

lemma dirpart_snoc:
  assumes "s \<noteq> []"
  shows "dirpart fs (s @ [c]) = (if c = CHR ''/'' then resolve fs s else dirpart fs s)"
  using assms by (simp add: dirpart_def resolve_def components_def path_split_snoc absolute_def)

lemma slash_prefixes_snoc:
  "slash_prefixes (s @ [c]) = slash_prefixes s @ (if c = CHR ''/'' \<and> s \<noteq> [] then [s] else [])"
proof (cases "s = []")
  case True
  then show ?thesis by (simp add: slash_prefixes_def)
next
  case False
  then have r: "[1 ..< length (s @ [c])] = [1 ..< length s] @ [length s]"
    by (cases s) (simp_all del: upt_Suc add: upt_Suc_append)
  have "map (\<lambda>i. take i (s @ [c])) (filter (\<lambda>i. (s @ [c]) ! i = CHR ''/'') [1 ..< length s])
      = slash_prefixes s"
    unfolding slash_prefixes_def by (auto simp: nth_append intro!: map_cong filter_cong)
  then show ?thesis unfolding slash_prefixes_def [of "s @ [c]"] r using False by auto
qed

lemma mkdir_step:
  assumes "dirs_added fs t g" and "prefix (resolve fs s) t" and "is_dir g (dirpart fs s)" and "s \<noteq> []"
    and "\<not> refuses fs (Mkdir (resolve fs s))" and "node_at fs (resolve fs s) \<in> {None, Some Dir}"
  shows "\<exists>e g'. sys_mkdir g s = (e, g') \<and> e \<in> {None, Some EEXIST} \<and> dirs_added fs t g'
    \<and> is_dir g' (resolve fs s)"
proof -
  let ?p = "resolve fs s"
  have r: "resolve g s = ?p" and ref: "refuses g = refuses fs" and ok: "fs_ok g"
    using assms(1) resolve_dirs_added by (auto simp: dirs_added_def)
  have n: "node_at g ?p = None \<or> node_at g ?p = Some Dir"
    using assms(1,6) unfolding dirs_added_def by (metis insert_iff singletonD)
  show ?thesis
  proof (cases "node_at g ?p")
    case None
    then have "?p \<noteq> dirpart fs s" using assms(3) by (auto simp: is_dir_def)
    then have par: "parent_ok g ?p"
      using resolve_dirpart [of fs s] assms(3) by (auto simp: parent_ok_def)
    let ?g = "g\<lparr>node_at := (node_at g)(?p \<mapsto> Dir)\<rparr>"
    have old: "node_at g q = node_at fs q \<or> prefix q t \<and> node_at fs q = None \<and> node_at g q = Some Dir" for q
      using assms(1) unfolding dirs_added_def by blast
    have "fs_ok ?g" using ok par None by (intro fs_ok_put) simp_all
    moreover have "node_at ?g q = node_at fs q \<or> prefix q t \<and> node_at fs q = None \<and> node_at ?g q = Some Dir" for q
      using old [of q] None assms(2) by auto
    ultimately have "dirs_added fs t ?g" using assms(1) by (simp add: dirs_added_def)
    moreover have "sys_mkdir g s = (None, ?g)"
      using None par assms(4,5) by (simp add: sys_mkdir_def r ref Let_def)
    ultimately show ?thesis by (simp add: is_dir_def)
  next
    case (Some x)
    with n have "x = Dir" by simp
    then show ?thesis using Some assms by (simp add: sys_mkdir_def r ref Let_def is_dir_def)
  qed
qed

lemma mkdir_prefixes_snoc:
  assumes "mkdir_prefixes ts fs = (True, g)" and "sys_mkdir g t = (e, g')" and "e \<in> {None, Some EEXIST}"
  shows "mkdir_prefixes (ts @ [t]) fs = (True, g')"
  using assms by (induction ts arbitrary: fs) (auto split: prod.splits if_splits)

definition mkdir_allowed :: "file_system \<Rightarrow> fpath \<Rightarrow> bool" where
  "mkdir_allowed fs p = (fs_ok fs \<and> (\<forall>q. \<not> refuses fs (Mkdir q))
     \<and> (\<forall>q. prefix q p \<longrightarrow> node_at fs q \<in> {None, Some Dir}))"

lemma mkdir_allowed_prefix: "mkdir_allowed fs p \<Longrightarrow> prefix q p \<Longrightarrow> mkdir_allowed fs q"
  by (auto simp: mkdir_allowed_def dest: prefix_order.trans)

lemma mkdir_slash_prefixes:
  assumes "s \<noteq> []" and "mkdir_allowed fs (dirpart fs s)"
  shows "\<exists>g. mkdir_prefixes (slash_prefixes s) fs = (True, g) \<and> dirs_added fs (dirpart fs s) g
    \<and> is_dir g (dirpart fs s)"
  using assms
proof (induction s rule: rev_induct)
  case (snoc c s)
  have ok: "fs_ok fs" using snoc.prems by (simp add: mkdir_allowed_def)
  then have self: "dirs_added fs p fs" for p by (simp add: dirs_added_def)
  show ?case
  proof (cases "s = []")
    case True
    have "is_dir fs (dirpart fs [c])"
      using ok by (simp add: dirpart_def fs_ok_def absolute_def)
    then show ?thesis using True self by (simp add: slash_prefixes_def)
  next
    case False
    have pre: "prefix (dirpart fs s) (dirpart fs (s @ [c]))"
      using False resolve_dirpart [of fs s] by (auto simp: dirpart_snoc)
    obtain g where g: "mkdir_prefixes (slash_prefixes s) fs = (True, g)"
        "dirs_added fs (dirpart fs (s @ [c])) g" "is_dir g (dirpart fs s)"
      using snoc.IH [OF False mkdir_allowed_prefix [OF snoc.prems(2) pre]] dirs_added_mono [OF _ pre]
      by blast
    show ?thesis
    proof (cases "c = CHR ''/''")
      case True
      then have d: "dirpart fs (s @ [c]) = resolve fs s" using False by (simp add: dirpart_snoc)
      obtain e g' where e: "sys_mkdir g s = (e, g')" "e \<in> {None, Some EEXIST}"
          "dirs_added fs (resolve fs s) g'" "is_dir g' (resolve fs s)"
        using mkdir_step [OF g(2) _ g(3) False] snoc.prems(2) d by (auto simp: mkdir_allowed_def)
      then show ?thesis
        using True False d mkdir_prefixes_snoc [OF g(1) e(1,2)] by (simp add: slash_prefixes_snoc)
    next
      case slash: False
      with g False show ?thesis by (simp add: slash_prefixes_snoc dirpart_snoc)
    qed
  qed
qed simp

lemma mkdir_all_prefixes:
  assumes "s \<noteq> []" and "mkdir_allowed fs (resolve fs s)"
  shows "\<exists>g. mkdir_prefixes (slash_prefixes s @ [s]) fs = (True, g) \<and> dirs_added fs (resolve fs s) g
    \<and> is_dir g (resolve fs s)"
proof -
  have pre: "prefix (dirpart fs s) (resolve fs s)" using resolve_dirpart [of fs s] by auto
  obtain g where g: "mkdir_prefixes (slash_prefixes s) fs = (True, g)" "dirs_added fs (resolve fs s) g"
      "is_dir g (dirpart fs s)"
    using mkdir_slash_prefixes [OF assms(1) mkdir_allowed_prefix [OF assms(2) pre]]
      dirs_added_mono [OF _ pre] by blast
  obtain e g' where e: "sys_mkdir g s = (e, g')" "e \<in> {None, Some EEXIST}"
      "dirs_added fs (resolve fs s) g'" "is_dir g' (resolve fs s)"
    using mkdir_step [OF g(2) _ g(3) assms(1)] assms(2) by (auto simp: mkdir_allowed_def)
  then show ?thesis using mkdir_prefixes_snoc [OF g(1) e(1,2)] by auto
qed

lemma resolve_trailing_slash: "s \<noteq> [] \<Longrightarrow> resolve fs (s @ ''/'') = resolve fs s"
  using components_join [of s "[]"] by (simp add: resolve_def absolute_def components_def)

lemma mkdir_p_ok:
  assumes "path \<noteq> []" and "path \<noteq> ''/''" and "length path < PATH_MAX"
    and "mkdir_allowed fs (resolve fs path)"
  shows "\<exists>g. mkdir_p fs path = Inr (True, g) \<and> dirs_added fs (resolve fs path) g \<and> is_dir g (resolve fs path)"
proof (cases "last path = CHR ''/''")
  case True
  then have p: "path = butlast path @ ''/''" using assms(1) by (metis append_butlast_last_id)
  then have ne: "butlast path \<noteq> []" using assms(2) by auto
  have r: "resolve fs path = resolve fs (butlast path)"
    using resolve_trailing_slash [OF ne] p by simp
  show ?thesis
    using mkdir_all_prefixes [OF ne] assms True r by (simp add: mkdir_p_def Let_def)
next
  case False
  then show ?thesis using mkdir_all_prefixes [OF assms(1)] assms by (simp add: mkdir_p_def)
qed

section \<open>The output directory and the validation\<close>

lemma dummy_resolve: "dir \<noteq> [] \<Longrightarrow> resolve fs (dir @ ''/dummyfile'') = resolve fs dir @ [''dummyfile'']"
  using resolve_join [of dir "''dummyfile''" fs] by simp

text \<open>Only the probe file is touched, and it can be opened only under a directory.\<close>

lemma check_file_access_True:
  assumes "check_file_access fs dir = (True, g)" and "fs_ok fs" and "dir \<noteq> []"
  shows "is_dir fs (resolve fs dir) \<and> fs_ok g \<and> cwd g = cwd fs
    \<and> (\<forall>p. p \<noteq> resolve fs dir @ [''dummyfile''] \<longrightarrow> node_at g p = node_at fs p)"
proof -
  let ?s = "dir @ ''/dummyfile''"
  obtain p h where h: "open_write False fs ?s = (Some p, h)" and g: "g = snd (sys_unlink h ?s)"
    using assms(1) by (auto simp: check_file_access_def Let_def split: if_splits prod.splits option.splits)
  note r = dummy_resolve [OF assms(3), of fs]
  have d: "is_dir fs (resolve fs dir)" and c: "cwd h = cwd fs"
    and n: "\<forall>q. q \<noteq> resolve fs dir @ [''dummyfile''] \<longrightarrow> node_at h q = node_at fs q"
    using h assms(2) fs_ok_parent [of fs "resolve fs dir @ [''dummyfile'']"]
    by (auto simp: open_write_def r parent_ok_def Let_def split: if_splits option.splits node.splits)
  have "fs_ok h" using open_write_ok [OF assms(2), of False ?s] h by simp
  then have "fs_ok g" by (simp add: g fs_simps)
  moreover have "cwd g = cwd h" and "\<forall>q. q \<noteq> resolve h ?s \<longrightarrow> node_at g q = node_at h q"
    by (simp_all add: g sys_unlink_def Let_def split: option.splits node.splits)
  moreover have "resolve h ?s = resolve fs dir @ [''dummyfile'']"
    using dummy_resolve [OF assms(3), of h] c by (simp add: resolve_def)
  ultimately show ?thesis using d c n by simp
qed

lemma mkdir_prefixes_ok:
  "fs_ok fs \<Longrightarrow> mkdir_prefixes ts fs = (b, g) \<Longrightarrow> fs_ok g \<and> cwd g = cwd fs"
proof (induction ts arbitrary: fs)
  case (Cons t ts)
  obtain e h where h: "sys_mkdir fs t = (e, h)" by fastforce
  have "fs_ok h" using sys_mkdir_ok [OF Cons.prems(1), of t] h by simp
  moreover have "cwd h = cwd fs" using h by (auto simp: sys_mkdir_def Let_def split: if_splits)
  ultimately show ?case using Cons.IH [of h] Cons.prems(2) h by (auto split: if_splits)
qed simp

lemma ensure_output_dir_True:
  assumes "ensure_output_dir fs dir = Inr (True, g)" and "fs_ok fs"
  shows "dir \<noteq> [] \<and> is_dir g (resolve g dir) \<and> fs_ok g"
proof -
  have use: "dir \<noteq> [] \<and> is_dir g (resolve g dir) \<and> fs_ok g"
    if "check_file_access h dir = (True, g)" and "fs_ok h" and "dir \<noteq> []" for h
    using check_file_access_True [OF that] \<open>dir \<noteq> []\<close>
    by (auto simp: resolve_def is_dir_def)
  show ?thesis
  proof (cases "sys_stat fs dir")
    case None
    then obtain h where h: "mkdir_p fs dir = Inr (True, h)" and c: "check_file_access h dir = (True, g)"
      using assms(1) by (auto simp: ensure_output_dir_def split: sum.splits bool.splits)
    have ne: "dir \<noteq> []" using h by (auto simp: mkdir_p_def PATH_MAX_def)
    have "fs_ok h" using h ne mkdir_prefixes_ok [OF assms(2)]
      by (auto simp: mkdir_p_def Let_def split: if_splits)
    then show ?thesis using use c ne by blast
  next
    case (Some x)
    then have "dir \<noteq> []" by (auto simp: sys_stat_def)
    with Some assms use show ?thesis by (auto simp: ensure_output_dir_def split: node.splits)
  qed
qed

definition config_valid :: "config_t \<Rightarrow> bool" where
  "config_valid c = (1024 \<le> max_file_size_bytes c \<and> 1 \<le> max_number_of_files c
     \<and> max_number_of_files c < 1000
     \<and> (raw_log_enabled c \<or> raw_jsonl_enabled c \<or> raw_console_enabled c))"

lemma validate_success:
  "validate_config fs c = Inr (config_success, g) \<longleftrightarrow>
     ensure_output_dir fs (output_dir c) = Inr (True, g) \<and> config_valid c"
  by (auto simp: validate_config_def config_valid_def split: sum.splits)

section \<open>Trimming and lines\<close>

definition trimmed :: "string \<Rightarrow> bool" where
  "trimmed v = (v = [] \<or> \<not> c_isspace (hd v) \<and> \<not> c_isspace (last v))"

lemma trim_alt: "trim s = rev (dropWhile c_isspace (rev (dropWhile c_isspace s)))"
proof -
  define d where "d = dropWhile c_isspace s"
  show ?thesis unfolding trim_def Let_def d_def [symmetric] by (cases d) simp_all
qed

lemma trim_pad:
  assumes "list_all c_isspace a" and "list_all c_isspace b" and "trimmed v"
  shows "trim (a @ v @ b) = v"
proof (cases "v = []")
  case True
  have "dropWhile c_isspace (a @ b) = []" using assms(1,2) by (auto simp: list_all_iff)
  with True show ?thesis by (simp only: trim_alt append_Nil) simp
next
  case False
  then have "dropWhile c_isspace (a @ v @ b) = v @ b"
    using assms by (simp add: dropWhile_all dropWhile_stop trimmed_def)
  moreover have "dropWhile c_isspace (rev b @ rev v) = rev v"
    using assms False by (subst dropWhile_all) (simp_all add: dropWhile_stop trimmed_def hd_rev)
  ultimately show ?thesis by (simp add: trim_alt)
qed

lemma trim_split: "\<exists>a b. s = a @ trim s @ b \<and> list_all c_isspace a \<and> list_all c_isspace b"
proof -
  let ?d = "dropWhile c_isspace s"
  have "s = takeWhile c_isspace s @ ?d" by simp
  moreover have "?d = trim s @ rev (takeWhile c_isspace (rev ?d))"
    unfolding trim_alt by (metis rev_append rev_rev_ident takeWhile_dropWhile_id)
  moreover have "list_all c_isspace (takeWhile c_isspace t)" for t
    using set_takeWhileD by (fastforce simp: list_all_iff)
  ultimately show ?thesis by (metis list_all_rev)
qed

lemma trimmed_trim: "trimmed (trim s)"
proof (cases "trim s = []")
  case False
  then have "last (trim s) = hd (dropWhile c_isspace (rev (dropWhile c_isspace s)))"
    by (simp add: trim_alt last_rev)
  then have "\<not> c_isspace (last (trim s))"
    using False hd_dropWhile [of c_isspace "rev (dropWhile c_isspace s)"] by (simp add: trim_alt)
  moreover have "\<not> c_isspace (hd (trim s))"
  proof -
    obtain w where d: "dropWhile c_isspace s = trim s @ w"
      unfolding trim_alt by (metis rev_append rev_rev_ident takeWhile_dropWhile_id)
    then have "dropWhile c_isspace s \<noteq> []" and "hd (dropWhile c_isspace s) = hd (trim s)"
      using False by (simp_all add: d)
    then show ?thesis using hd_dropWhile [of c_isspace s] by simp
  qed
  ultimately show ?thesis by (simp add: trimmed_def)
qed (simp add: trimmed_def)

definition option_line :: "string \<Rightarrow> string \<Rightarrow> string" where
  "option_line k v = k @ '' = '' @ v"

lemma space_chars [simp]: "c_isspace (CHR '' '')" "c_isspace (CHR 0x0A)" "\<not> c_isspace (CHR ''='')"
  by (simp_all add: c_isspace_def)

lemma parse_option_line:
  assumes "k \<noteq> []" and "trimmed k" and "hd k \<noteq> CHR ''#''" and "CHR ''='' \<notin> set k" and "trimmed v"
  shows "parse_config_lines ((option_line k v @ nl) # ls) c =
    (case config_set_option k v c of None \<Rightarrow> (config_error_parse, c)
       | Some c' \<Rightarrow> parse_config_lines ls c')"
proof -
  define w where "w = (if v = [] then [] else '' '' @ v)"
  have t: "trimmed (k @ '' ='' @ w)" using assms by (auto simp: trimmed_def w_def)
  have l: "option_line k v @ nl = [] @ (k @ '' ='' @ w) @ (if v = [] then '' '' else []) @ nl"
    by (simp add: option_line_def w_def)
  have line: "trim (option_line k v @ nl) = k @ '' ='' @ w"
    unfolding l by (rule trim_pad [OF _ _ t]) (simp_all add: nl_def)
  have sp: "split_first (CHR ''='') (k @ '' ='' @ w) = Some (k @ '' '', w)"
    using split_first_append [of "CHR ''=''" "k @ '' ''" w] assms(4) by simp
  have "trim (k @ '' '') = k" using trim_pad [of "[]" "'' ''" k] assms(2) by simp
  moreover have "trim w = v" using trim_pad [of "'' ''" "[]" v] assms(5) by (simp add: w_def trim_alt)
  ultimately show ?thesis using assms(1,3) sp by (simp add: line)
qed

section \<open>A configuration written out\<close>

definition config_lines :: "config_t \<Rightarrow> string list" where
  "config_lines c =
     [option_line ''output_dir'' (output_dir c),
      option_line ''raw_log_enabled'' (truefalse (raw_log_enabled c)),
      option_line ''raw_jsonl_enabled'' (truefalse (raw_jsonl_enabled c)),
      option_line ''raw_console_enabled'' (truefalse (raw_console_enabled c)),
      option_line ''compression_enabled'' (truefalse (compression_enabled c)),
      option_line ''metrics_on_console'' (truefalse (metrics_console_enabled c)),
      option_line ''metrics_on_json'' (truefalse (metrics_json_enabled c)),
      option_line ''max_file_size'' (show_nat (nat (max_file_size_bytes c))),
      option_line ''max_number_of_files'' (show_nat (nat (max_number_of_files c))),
      option_line ''include_self'' (truefalse (include_self c))]"

definition config_writable :: "config_t \<Rightarrow> bool" where
  "config_writable c = (trimmed (output_dir c) \<and> length (output_dir c) \<le> 480
     \<and> CHR 0x0A \<notin> set (output_dir c) \<and> CHR 0x00 \<notin> set (output_dir c)
     \<and> 0 \<le> max_file_size_bytes c \<and> max_file_size_bytes c \<le> LONG_MAX
     \<and> 0 \<le> max_number_of_files c \<and> max_number_of_files c \<le> INT_MAX)"

lemma trimmed_keys:
  "trimmed ''output_dir''" "trimmed ''raw_log_enabled''" "trimmed ''raw_jsonl_enabled''"
  "trimmed ''raw_console_enabled''" "trimmed ''compression_enabled''" "trimmed ''metrics_on_console''"
  "trimmed ''metrics_on_json''" "trimmed ''max_file_size''" "trimmed ''max_number_of_files''"
  "trimmed ''include_self''" "trimmed (truefalse b)"
  by (simp_all add: trimmed_def c_isspace_def truefalse_def)

lemma trimmed_show_nat [simp]: "trimmed (show_nat n)"
  using show_nat_digits [of n] isdigit_not_space by (auto simp: trimmed_def list_all_iff)

lemma parse_bool_truefalse [simp]: "parse_bool (truefalse b) = Some b"
  by (simp add: parse_bool_def truefalse_def c_strcasecmp_eq_def c_tolower_def)

lemma parse_size_show:
  assumes "int n \<le> LONG_MAX"
  shows "parse_size (show_nat n) = Some (int n)"
proof -
  have u: "n \<le> ULLONG_MAX" using assms by (simp add: limits_defs)
  have "sint (of_nat n :: u64) = int n" using assms by (rule sint_of_nat)
  moreover have "[] \<noteq> show_nat n" using show_nat_not_Nil [of n] by metis
  ultimately show ?thesis using strtoull_show_nat [of "[]" n] u by (simp add: parse_size_def)
qed

lemma atoi_show_nat: "int n \<le> INT_MAX \<Longrightarrow> c_atoi (show_nat n) = int n"
  using strtol_show_nat [of "[]" n] by (simp add: c_atoi_def limits_defs to_int_id)

lemma config_set_keys:
  "length v < PATH_MAX \<Longrightarrow> config_set_option ''output_dir'' v c = Some (c\<lparr>output_dir := v\<rparr>)"
  "config_set_option ''raw_log_enabled'' v c = map_option (\<lambda>b. c\<lparr>raw_log_enabled := b\<rparr>) (parse_bool v)"
  "config_set_option ''raw_jsonl_enabled'' v c = map_option (\<lambda>b. c\<lparr>raw_jsonl_enabled := b\<rparr>) (parse_bool v)"
  "config_set_option ''raw_console_enabled'' v c = map_option (\<lambda>b. c\<lparr>raw_console_enabled := b\<rparr>) (parse_bool v)"
  "config_set_option ''compression_enabled'' v c = map_option (\<lambda>b. c\<lparr>compression_enabled := b\<rparr>) (parse_bool v)"
  "config_set_option ''metrics_on_console'' v c = map_option (\<lambda>b. c\<lparr>metrics_console_enabled := b\<rparr>) (parse_bool v)"
  "config_set_option ''metrics_on_json'' v c = map_option (\<lambda>b. c\<lparr>metrics_json_enabled := b\<rparr>) (parse_bool v)"
  "config_set_option ''max_file_size'' v c = map_option (\<lambda>n. c\<lparr>max_file_size_bytes := n\<rparr>) (parse_size v)"
  "config_set_option ''max_number_of_files'' v c = Some (c\<lparr>max_number_of_files := c_atoi v\<rparr>)"
  "config_set_option ''include_self'' v c = map_option (\<lambda>b. c\<lparr>include_self := b\<rparr>) (parse_bool v)"
  by (simp_all add: config_set_option_def)

definition config_key :: "string \<Rightarrow> bool" where
  "config_key k = (k \<noteq> [] \<and> trimmed k \<and> hd k \<noteq> CHR ''#'' \<and> CHR ''='' \<notin> set k)"

lemma config_keys:
  "config_key ''output_dir''" "config_key ''raw_log_enabled''" "config_key ''raw_jsonl_enabled''"
  "config_key ''raw_console_enabled''" "config_key ''compression_enabled''"
  "config_key ''metrics_on_console''" "config_key ''metrics_on_json''" "config_key ''max_file_size''"
  "config_key ''max_number_of_files''" "config_key ''include_self''"
  by (simp_all add: config_key_def trimmed_keys)

lemma parse_key_line:
  "config_key k \<Longrightarrow> trimmed v \<Longrightarrow> parse_config_lines ((option_line k v @ nl) # ls) c =
    (case config_set_option k v c of None \<Rightarrow> (config_error_parse, c)
       | Some c' \<Rightarrow> parse_config_lines ls c')"
  by (simp add: parse_option_line config_key_def del: parse_config_lines.simps)

lemma parse_config_written:
  assumes "config_writable c"
  shows "parse_config_lines (map (\<lambda>l. l @ nl) (config_lines c)) c0 = (config_success, c)"
proof -
  have len: "length (output_dir c) < PATH_MAX" and t: "trimmed (output_dir c)"
    and sz: "parse_size (show_nat (nat (max_file_size_bytes c))) = Some (max_file_size_bytes c)"
    and nf: "c_atoi (show_nat (nat (max_number_of_files c))) = max_number_of_files c"
    using assms by (simp_all add: config_writable_def PATH_MAX_def parse_size_show atoi_show_nat)
  show ?thesis
    unfolding config_lines_def list.map
    by (simp only: parse_key_line config_keys t trimmed_keys trimmed_show_nat config_set_keys len
        parse_bool_truefalse sz nf option.map option.case parse_config_lines.simps(1)) simp
qed

definition line_text :: "string \<Rightarrow> bool" where
  "line_text s = (CHR 0x0A \<notin> set s \<and> CHR 0x00 \<notin> set s)"

lemma line_text_option: "line_text (option_line k v) = (line_text k \<and> line_text v)"
  by (auto simp: line_text_def option_line_def)

lemma line_text_values: "line_text (show_nat n)" "line_text (truefalse b)"
  by (simp_all add: line_text_def truefalse_def show_nat_notin c_isdigit_def)

lemma line_text_keys:
  "line_text ''output_dir''" "line_text ''raw_log_enabled''" "line_text ''raw_jsonl_enabled''"
  "line_text ''raw_console_enabled''" "line_text ''compression_enabled''" "line_text ''metrics_on_console''"
  "line_text ''metrics_on_json''" "line_text ''max_file_size''" "line_text ''max_number_of_files''"
  "line_text ''include_self''"
  by (simp_all add: line_text_def)

lemma config_line_chars: "config_writable c \<Longrightarrow> list_all line_text (config_lines c)"
  unfolding config_lines_def list.pred_inject line_text_option
  by (simp add: line_text_values line_text_keys) (simp add: line_text_def config_writable_def)

lemma show_nat_length: "n < 10 ^ k \<Longrightarrow> 0 < k \<Longrightarrow> length (show_nat n) \<le> k"
proof (induction k arbitrary: n)
  case (Suc k)
  show ?case
  proof (cases "n < 10")
    case True
    then show ?thesis by (simp add: show_nat.simps [of n])
  next
    case False
    then have "0 < k" using Suc.prems by (cases k) auto
    moreover have "n div 10 < 10 ^ k" using Suc.prems by (simp add: less_mult_imp_div_less)
    ultimately have "length (show_nat (n div 10)) \<le> k" by (intro Suc.IH)
    with False show ?thesis by (simp add: show_nat.simps [of n])
  qed
qed simp

lemma config_line_length:
  assumes "config_writable c"
  shows "list_all (\<lambda>l. length l + 1 < 512) (config_lines c)"
proof -
  have "nat (max_file_size_bytes c) < 10 ^ 19" and "nat (max_number_of_files c) < 10 ^ 19"
    using assms by (auto simp: config_writable_def limits_defs nat_less_iff)
  then have "length (show_nat (nat (max_file_size_bytes c))) \<le> 19"
    and "length (show_nat (nat (max_number_of_files c))) \<le> 19"
    by (simp_all add: show_nat_length)
  moreover have "length (truefalse b) = (if b then 3 else 2)" for b by (simp add: truefalse_def)
  ultimately show ?thesis
    using assms by (simp add: config_lines_def option_line_def config_writable_def)
qed

section \<open>Properties\<close>

text \<open>C25: Reading back a configuration file: the file that lists every option of a configuration
  with the syntax the parser expects is parsed, whatever the static variable held, to exactly
  that configuration.\<close>

theorem config_roundtrip:
  assumes "config_writable c" and "sys_stat fs path = Some (File t)"
    and "open_read fs path = Some (unlines (config_lines c))"
  shows "parse_config_file fs path c0 = (config_success, c)"
proof -
  have "c_lines 512 (unlines (config_lines c)) = map (\<lambda>l. l @ nl) (config_lines c)"
    using config_line_chars [OF assms(1)] config_line_length [OF assms(1)]
    by (intro c_lines_unlines) (simp_all add: list_all_iff line_text_def)
  then show ?thesis using assms parse_config_written by (simp add: parse_config_file_def)
qed

definition conf_fs :: "fpath \<Rightarrow> string \<Rightarrow> file_system" where
  "conf_fs p txt = \<lparr>cwd = [],
     node_at = [[] \<mapsto> Dir, [''tmp''] \<mapsto> Dir, p \<mapsto> File txt], refuses = (\<lambda>_. False)\<rparr>"

lemma conf_fs_ok: "p = [''pa.conf''] \<Longrightarrow> fs_ok (conf_fs p txt)"
  by (auto simp: fs_ok_def conf_fs_def is_dir_def parent_ok_def split: if_splits)

lemma conf_fs_read:
  "sys_stat (conf_fs [''pa.conf''] txt) ''/pa.conf'' = Some (File txt)"
  "open_read (conf_fs [''pa.conf''] txt) ''/pa.conf'' = Some txt"
  by (simp_all add: sys_stat_def open_read_def conf_fs_def resolve_def absolute_def components_def Let_def)

theorem config_roundtrip_witness:
  "parse_config_file (conf_fs [''pa.conf''] (unlines (config_lines config_default))) ''/pa.conf''
     configuration_zero = (config_success, config_default)"
proof -
  have "config_writable config_default"
    by (simp add: config_writable_def config_default_def trimmed_def c_isspace_def limits_defs)
  then show ?thesis by (rule config_roundtrip) (rule conf_fs_read)+
qed

definition empty_fs :: file_system where
  "empty_fs = \<lparr>cwd = [], node_at = [[] \<mapsto> Dir], refuses = (\<lambda>_. False)\<rparr>"

lemma empty_fs_ok: "fs_ok empty_fs"
  by (auto simp: fs_ok_def empty_fs_def is_dir_def parent_ok_def split: if_splits)

lemma tmp_ptime_resolve: "resolve fs ''/tmp/ptime'' = [''tmp'', ''ptime'']"
  by (simp add: resolve_def absolute_def components_def)

lemma stat_None: "node_at fs (resolve fs s) = None \<Longrightarrow> sys_stat fs s = None"
  by (simp add: sys_stat_def Let_def)

lemma check_access_fresh:
  assumes "is_dir g (resolve g d)" and "d \<noteq> []" and "length d + 10 < PATH_MAX"
    and "\<not> refuses g (Open_Write (resolve g d @ [''dummyfile'']))"
    and "node_at g (resolve g d @ [''dummyfile'']) \<noteq> Some Dir"
  shows "fst (check_file_access g d)"
  using assms dummy_resolve [OF assms(2), of g]
  by (simp add: check_file_access_def open_write_def Let_def parent_ok_def split: option.splits node.splits)

lemma init_default:
  assumes "mkdir_allowed fs [''tmp'', ''ptime'']" and "node_at fs [''tmp'', ''ptime''] = None"
    and "\<not> refuses fs (Open_Write [''tmp'', ''ptime'', ''dummyfile''])"
  shows "\<exists>g. config_init fs None c0 = Inr (config_success, config_default, g)
    \<and> is_dir g [''tmp'', ''ptime'']"
proof -
  let ?d = "''/tmp/ptime''"
  obtain g where g: "mkdir_p fs ?d = Inr (True, g)"
      "dirs_added fs (resolve fs ?d) g" "is_dir g [''tmp'', ''ptime'']"
    using mkdir_p_ok [of ?d fs] assms(1) by (auto simp: tmp_ptime_resolve PATH_MAX_def)
  let ?f = "[''tmp'', ''ptime'', ''dummyfile'']"
  have ok: "fs_ok g" using g(2) by (simp add: dirs_added_def)
  have "node_at fs ?f = None"
    using assms(1,2) by (auto simp: mkdir_allowed_def fs_ok_def parent_ok_def is_dir_def)
  moreover have "\<not> prefix ?f (resolve fs ?d)" by (simp add: tmp_ptime_resolve)
  ultimately have "node_at g ?f = None" using g(2) unfolding dirs_added_def by metis
  moreover have "\<not> refuses g (Open_Write ?f)" using assms(3) g(2) by (simp add: dirs_added_def)
  ultimately have "fst (check_file_access g ?d)"
    using g(3) by (intro check_access_fresh) (simp_all add: tmp_ptime_resolve PATH_MAX_def)
  then obtain h where h: "check_file_access g ?d = (True, h)" by (metis prod.collapse)
  have "is_dir h [''tmp'', ''ptime'']"
    using check_file_access_True [OF h ok] g(3) by (simp add: tmp_ptime_resolve is_dir_def)
  moreover have "sys_stat fs ?d = None" using assms(2) by (intro stat_None) (simp add: tmp_ptime_resolve)
  then have "ensure_output_dir fs ?d = Inr (True, h)" using g(1) h by (simp add: ensure_output_dir_def)
  then have "validate_config fs config_default = Inr (config_success, h)"
    by (simp add: validate_success config_valid_def config_default_def)
  then have "config_init fs None c0 = Inr (config_success, config_default, h)"
    by (simp add: config_init_def)
  ultimately show ?thesis by blast
qed

lemma empty_fs_allowed: "mkdir_allowed empty_fs [''tmp'', ''ptime'']"
  using empty_fs_ok by (simp add: mkdir_allowed_def empty_fs_def)

text \<open>C35: A successful initialisation leaves a configuration that is fit for use: the rotation
  bounds hold, some raw output is enabled, and the output directory exists as a directory of a
  well-formed tree. The bound on the number of files is 1 to 999: the message of the check promises
  1000, which it rejects.\<close>

theorem config_init_valid:
  assumes "config_init fs env c0 = Inr (config_success, c, g)" and "fs_ok fs"
  shows "config_valid c \<and> 1 \<le> max_number_of_files c \<and> max_number_of_files c \<le> 999
    \<and> output_dir c \<noteq> [] \<and> is_dir g (resolve g (output_dir c)) \<and> fs_ok g"
proof -
  have "validate_config fs c = Inr (config_success, g)"
    using assms(1) by (auto simp: config_init_def Let_def split: prod.splits if_splits sum.splits)
  then have "config_valid c" "output_dir c \<noteq> [] \<and> is_dir g (resolve g (output_dir c)) \<and> fs_ok g"
    using ensure_output_dir_True assms(2) by (auto simp: validate_success)
  then show ?thesis by (simp add: config_valid_def)
qed

theorem config_init_valid_witness:
  "\<exists>g. config_init empty_fs None configuration_zero = Inr (config_success, config_default, g)
    \<and> config_valid config_default \<and> is_dir g [''tmp'', ''ptime''] \<and> fs_ok g \<and> \<not> is_dir empty_fs [''tmp'', ''ptime'']"
proof -
  obtain g where g: "config_init empty_fs None configuration_zero = Inr (config_success, config_default, g)"
    using init_default [OF empty_fs_allowed, of configuration_zero] by (auto simp: empty_fs_def)
  have "resolve g (output_dir config_default) = [''tmp'', ''ptime'']"
    by (simp add: config_default_def resolve_def absolute_def components_def)
  with config_init_valid [OF g empty_fs_ok] g show ?thesis by (simp add: empty_fs_def is_dir_def)
qed

text \<open>Without a configuration file the defaults are used, and on a system that lets the
  program create directories below an existing or absent \<^verbatim>\<open>/tmp\<close> and a file in them the
  initialisation succeeds, creating \<^verbatim>\<open>/tmp/ptime\<close> where it was missing.\<close>

theorem config_init_default:
  assumes "mkdir_allowed fs [''tmp'', ''ptime'']" and "node_at fs [''tmp'', ''ptime''] = None"
    and "\<not> refuses fs (Open_Write [''tmp'', ''ptime'', ''dummyfile''])"
  shows "\<exists>g. config_init fs None c0 = Inr (config_success, config_default, g)
    \<and> is_dir g [''tmp'', ''ptime'']"
  using assms by (rule init_default)

theorem config_init_default_witness:
  "\<exists>g. config_init empty_fs None configuration_zero = Inr (config_success, config_default, g)
     \<and> is_dir g [''tmp'', ''ptime'']"
  by (rule config_init_default [OF empty_fs_allowed]) (simp_all add: empty_fs_def)

text \<open>Creating the output directory: on a tree where nothing but directories lies on the way
  and the kernel allows \<^verbatim>\<open>mkdir\<close>, \<^verbatim>\<open>mkdir_p\<close> succeeds for every path shorter than PATH_MAX, with
  or without doubled and trailing slashes; the directory then exists, every directory that was
  added lies on the way to it and nothing else changed.\<close>

theorem mkdir_p_creates:
  assumes "mkdir_allowed fs (resolve fs path)" and "path \<noteq> []" and "path \<noteq> ''/''"
    and "length path < PATH_MAX"
  shows "\<exists>g. mkdir_p fs path = Inr (True, g) \<and> is_dir g (resolve fs path) \<and> fs_ok g
    \<and> (\<forall>q. node_at g q = node_at fs q
           \<or> prefix q (resolve fs path) \<and> node_at fs q = None \<and> node_at g q = Some Dir)"
  using mkdir_p_ok [OF assms(2,3,4,1)] by (auto simp: dirs_added_def)

theorem mkdir_p_creates_witness:
  "\<exists>g. mkdir_p empty_fs ''/tmp//ptime/'' = Inr (True, g) \<and> is_dir g [''tmp'', ''ptime'']"
proof -
  have r: "resolve empty_fs ''/tmp//ptime/'' = [''tmp'', ''ptime'']"
    by (simp add: resolve_def absolute_def components_def)
  show ?thesis
    using mkdir_p_creates [of empty_fs "''/tmp//ptime/''"] empty_fs_allowed
    by (auto simp: r PATH_MAX_def)
qed

text \<open>A configuration file that does not set \<^verbatim>\<open>output_dir\<close> (the options it leaves out keep the
  zero of the static variable, not the documented default) makes the validation write in front
  of a buffer: \<^verbatim>\<open>mkdir_p\<close> of the empty path accesses \<^verbatim>\<open>tmp[-1]\<close>.\<close>

theorem config_init_no_output_dir:
  assumes "parse_config_file fs path c0 = (config_success, c)" and "output_dir c = []"
  shows "config_init fs (Some path) c0 = Inl Out_Of_Bounds"
proof -
  have "mkdir_p fs [] = Inl Out_Of_Bounds" by (simp add: mkdir_p_def PATH_MAX_def)
  then have "ensure_output_dir fs [] = Inl Out_Of_Bounds"
    by (simp add: ensure_output_dir_def sys_stat_def Let_def)
  then show ?thesis using assms by (simp add: config_init_def validate_config_def)
qed

lemma size_only_file:
  "parse_config_lines (c_lines 512 (unlines [option_line ''max_file_size'' (show_nat 4096)])) configuration_zero
     = (config_success, configuration_zero\<lparr>max_file_size_bytes := 4096\<rparr>)"
proof -
  have "length (show_nat 4096) \<le> 4" by (rule show_nat_length) simp_all
  then have "c_lines 512 (unlines [option_line ''max_file_size'' (show_nat 4096)])
      = [option_line ''max_file_size'' (show_nat 4096) @ nl]"
    using line_text_option [of "''max_file_size''" "show_nat 4096"] line_text_values line_text_keys
    by (subst c_lines_unlines) (simp_all add: line_text_def option_line_def)
  moreover have size4096: "parse_size (show_nat 4096) = Some 4096"
    using parse_size_show [of 4096] by (simp add: LONG_MAX_def)
  ultimately show ?thesis
    by (simp only: parse_key_line config_keys trimmed_show_nat config_set_keys option.case option.map
        parse_config_lines.simps(1) size4096)
qed

theorem config_init_no_output_dir_witness:
  "config_init (conf_fs [''pa.conf''] (unlines [option_line ''max_file_size'' (show_nat 4096)]))
     (Some ''/pa.conf'') configuration_zero = Inl Out_Of_Bounds"
proof (rule config_init_no_output_dir)
  show "parse_config_file (conf_fs [''pa.conf''] (unlines [option_line ''max_file_size'' (show_nat 4096)]))
      ''/pa.conf'' configuration_zero = (config_success, configuration_zero\<lparr>max_file_size_bytes := 4096\<rparr>)"
    using size_only_file conf_fs_read by (simp add: parse_config_file_def)
qed (simp add: configuration_zero_def)

definition unit_bytes :: "string \<Rightarrow> nat option" where
  "unit_bytes u = (if u = [] then Some 1
     else if hd u = CHR ''k'' \<or> hd u = CHR ''K'' then Some 1024
     else if hd u = CHR ''m'' \<or> hd u = CHR ''M'' then Some (1024 * 1024)
     else if hd u = CHR ''g'' \<or> hd u = CHR ''G'' then Some (1024 * 1024 * 1024) else None)"

lemma parse_size_unit:
  assumes "u = [] \<or> \<not> c_isdigit (hd u)" and "n \<le> ULLONG_MAX"
  shows "parse_size (show_nat n @ u) = map_option (\<lambda>m. sint (of_nat (n * m) :: u64)) (unit_bytes u)"
proof -
  have "show_nat n @ u \<noteq> u" by simp
  then show ?thesis using strtoull_show_nat [OF assms]
    by (auto simp: parse_size_def unit_bytes_def neq_Nil_conv split: list.splits)
qed

text \<open>A size is read as its number times the unit its suffix names whenever the product fits
  the signed 64-bit \<^verbatim>\<open>off_t\<close>, and refused when the suffix is none of the known ones; whatever
  follows the suffix letter is ignored.\<close>

theorem parse_size_value:
  assumes "u = [] \<or> \<not> c_isdigit (hd u)" and "case unit_bytes u of None \<Rightarrow> n \<le> ULLONG_MAX | Some m \<Rightarrow> int (n * m) \<le> LONG_MAX"
  shows "parse_size (show_nat n @ u) = map_option (\<lambda>m. int (n * m)) (unit_bytes u)"
proof (cases "unit_bytes u")
  case None
  with assms(2) parse_size_unit [OF assms(1)] show ?thesis by simp
next
  case (Some m)
  have "0 < m" using Some by (auto simp: unit_bytes_def split: if_splits)
  then have "n \<le> n * m" by simp
  then have "int n \<le> int (n * m)" by (simp only: of_nat_le_iff)
  moreover have nm: "int (n * m) \<le> LONG_MAX" using assms(2) Some by simp
  ultimately have "int n \<le> LONG_MAX" by (rule order_trans)
  then have "n \<le> ULLONG_MAX" by (simp add: limits_defs)
  moreover have "sint (of_nat (n * m) :: u64) = int (n * m)"
    using nm by (rule sint_of_nat)
  ultimately show ?thesis using parse_size_unit [OF assms(1)] Some by simp
qed

theorem parse_size_value_witness:
  "parse_size (show_nat 5 @ ''M'') = Some 5242880 \<and> parse_size (show_nat 5 @ ''x'') = None"
  using parse_size_value [of "''M''" 5] parse_size_value [of "''x''" 5]
  by (simp add: unit_bytes_def c_isdigit_def limits_defs)

text \<open>The product of number and unit wraps: a request for more than 16 EiB passes the parser
  and the validation as a limit of 1024 bytes.\<close>

theorem parse_size_wraps:
  "parse_size (show_nat (2 ^ 54 + 1) @ ''K'') = Some 1024"
  using parse_size_unit [of "''K''" "2 ^ 54 + 1"]
  by (simp add: unit_bytes_def c_isdigit_def limits_defs)

text \<open>Trimming removes exactly the leading and trailing white space: the rest of the text is
  kept in one piece and neither starts nor ends with white space.\<close>

theorem trim_correct:
  "trimmed (trim s) \<and> (\<exists>a b. s = a @ trim s @ b \<and> list_all c_isspace a \<and> list_all c_isspace b)"
  using trimmed_trim trim_split by blast

end
