(* ===== verification/Timestamps.thy ===== *)
theory Timestamps
  imports C_Double
begin

text \<open>
  The timestamps of the report: \<^verbatim>\<open>strptime\<close> with the one format the program uses,
  \<^verbatim>\<open>timegm\<close>, and from \<^verbatim>\<open>process_stats.c\<close> \<^verbatim>\<open>parse_timestamp_to_double\<close> and
  \<^verbatim>\<open>get_snapshot_duration\<close>.
\<close>

section \<open>Broken-down time\<close>

record tm =
  tm_year :: int
  tm_mon :: int
  tm_mday :: int
  tm_hour :: int
  tm_min :: int
  tm_sec :: int

text \<open>
  A number of at most \<open>n\<close> digits, reading on while the value times ten stays within \<open>hi\<close>;
  blanks may precede it and the value must lie between \<open>lo\<close> and \<open>hi\<close>.
\<close>

fun scan_digits :: "nat \<Rightarrow> nat \<Rightarrow> nat \<Rightarrow> string \<Rightarrow> nat \<times> string" where
  "scan_digits (Suc n) hi v (c # cs) =
     (if c_isdigit c \<and> v * 10 \<le> hi then scan_digits n hi (v * 10 + digit_val c) cs else (v, c # cs))"
| "scan_digits _ hi v s = (v, s)"

definition get_number :: "nat \<Rightarrow> nat \<Rightarrow> nat \<Rightarrow> string \<Rightarrow> (nat \<times> string) option" where
  "get_number lo hi n s =
     (let s = dropWhile (\<lambda>c. c = CHR '' '') s
      in if s = [] \<or> \<not> c_isdigit (hd s) then None
         else let (v, r) = scan_digits n hi 0 s in if lo \<le> v \<and> v \<le> hi then Some (v, r) else None)"

definition match_char :: "char \<Rightarrow> string \<Rightarrow> string option" where
  "match_char c s = (case s of [] \<Rightarrow> None | x # xs \<Rightarrow> if x = c then Some xs else None)"

text \<open>\<^verbatim>\<open>strptime(ts, "%Y-%m-%d %H:%M:%S", &tm)\<close>; the year is kept as it is written.\<close>

definition c_strptime :: "string \<Rightarrow> tm option" where
  "c_strptime s =
     Option.bind (get_number 0 9999 4 s) (\<lambda>(Y, s). Option.bind (match_char (CHR ''-'') s) (\<lambda>s.
     Option.bind (get_number 1 12 2 s) (\<lambda>(M, s). Option.bind (match_char (CHR ''-'') s) (\<lambda>s.
     Option.bind (get_number 1 31 2 s) (\<lambda>(D, s).
     Option.bind (get_number 0 23 2 (dropWhile c_isspace s)) (\<lambda>(h, s).
     Option.bind (match_char (CHR '':'') s) (\<lambda>s.
     Option.bind (get_number 0 59 2 s) (\<lambda>(m, s). Option.bind (match_char (CHR '':'') s) (\<lambda>s.
     Option.bind (get_number 0 61 2 s) (\<lambda>(sec, s).
     Some \<lparr>tm_year = int Y, tm_mon = int M, tm_mday = int D, tm_hour = int h, tm_min = int m,
           tm_sec = int sec\<rparr>))))))))))"

text \<open>Days from the epoch: years start in March, so that the leap day is the last of its year.\<close>

definition year_days :: "int \<Rightarrow> int" where
  "year_days y = 365 * y + y div 4 - y div 100 + y div 400"

definition days_from_civil :: "int \<Rightarrow> int \<Rightarrow> int \<Rightarrow> int" where
  "days_from_civil y m d =
     (let y' = (if m \<le> 2 then y - 1 else y); mp = (m + 9) mod 12
      in year_days y' + (153 * mp + 2) div 5 + (d - 1) - 719468)"

definition c_timegm :: "tm \<Rightarrow> int" where
  "c_timegm t = days_from_civil (tm_year t) (tm_mon t) (tm_mday t) * 86400
     + tm_hour t * 3600 + tm_min t * 60 + tm_sec t"

section \<open>The program's functions\<close>

definition parse_timestamp_to_double :: "string \<Rightarrow> double" where
  "parse_timestamp_to_double ts = (case c_strptime ts of
     None \<Rightarrow> Fin (- 1)
   | Some t \<Rightarrow>
       (let seconds = d_of_long (c_timegm t)
        in case split_first (CHR ''.'') ts of
             None \<Rightarrow> seconds
           | Some (_, ms_part) \<Rightarrow>
               d_add seconds (d_div (d_of_long (c_atoi ms_part)) (Fin 1000))))"

definition get_snapshot_duration :: "string \<Rightarrow> string \<Rightarrow> double" where
  "get_snapshot_duration initial last_ts =
     (let start_time = parse_timestamp_to_double initial;
          end_time = parse_timestamp_to_double last_ts
      in if d_less (Fin 0) start_time \<and> d_less (Fin 0) end_time \<and> d_le start_time end_time
         then d_sub end_time start_time else Fin 0)"

section \<open>The calendar\<close>

definition leap_year :: "int \<Rightarrow> bool" where
  "leap_year y = (4 dvd y \<and> (\<not> 100 dvd y \<or> 400 dvd y))"

definition month_length :: "int \<Rightarrow> int \<Rightarrow> int" where
  "month_length y m = (if m = 2 then if leap_year y then 29 else 28
     else if m \<in> {4, 6, 9, 11} then 30 else 31)"

definition next_day :: "int \<times> int \<times> int \<Rightarrow> int \<times> int \<times> int" where
  "next_day d = (case d of (y, m, d) \<Rightarrow> if d < month_length y m then (y, m, d + 1)
     else if m < 12 then (y, m + 1, 1) else (y + 1, 1, 1))"

lemma div_step: "0 < k \<Longrightarrow> (y :: int) div k - (y - 1) div k = (if k dvd y then 1 else 0)"
proof -
  assume k: "0 < k"
  obtain q r where y: "y = k * q + r" "0 \<le> r" "r < k"
    using k by (metis mult_div_mod_eq pos_mod_bound pos_mod_sign)
  show ?thesis
  proof (cases "r = 0")
    case True
    then have "(y - 1) div k = q - 1"
      using y(1) k by (intro int_div_pos_eq [where r = "k - 1"]) (simp_all add: algebra_simps)
    then show ?thesis using y True k by simp
  next
    case False
    then have "(y - 1) div k = q" using y k by (intro int_div_pos_eq [where r = "r - 1"]) simp_all
    moreover have "y div k = q" using y by (intro int_div_pos_eq [where r = r]) simp_all
    moreover have "\<not> k dvd y" using False y by (auto simp: dvd_add_right_iff dest: zdvd_imp_le)
    ultimately show ?thesis by simp
  qed
qed

lemma year_step: "year_days y = year_days (y - 1) + (if leap_year y then 366 else 365)"
proof -
  have d: "400 dvd y \<Longrightarrow> 100 dvd y" "100 dvd y \<Longrightarrow> 4 dvd y"
    by (rule dvd_trans [of 100 400 y], simp, assumption) (rule dvd_trans [of 4 100 y], simp, assumption)
  define a b c where "a = (y - 1) div 4" and "b = (y - 1) div 100" and "c = (y - 1) div 400"
  then have e: "y div 4 = a + (if 4 dvd y then 1 else 0)" "y div 100 = b + (if 100 dvd y then 1 else 0)"
      "y div 400 = c + (if 400 dvd y then 1 else 0)"
    using div_step [of 4 y] div_step [of 100 y] div_step [of 400 y]
    by (simp_all only: eq_diff_eq diff_eq_eq ac_simps zero_less_numeral simp_thms)
  show ?thesis
    unfolding year_days_def e a_def [symmetric] b_def [symmetric] c_def [symmetric] leap_year_def
    using d by (cases "4 dvd y"; cases "100 dvd y"; cases "400 dvd y") simp_all
qed

lemma month_step:
  assumes "1 \<le> m" and "m \<le> 12"
  shows "days_from_civil (if m < 12 then y else y + 1) (if m < 12 then m + 1 else 1) 1
    = days_from_civil y m 1 + month_length y m"
proof -
  obtain k where k: "m = int k" using assms(1) by (metis nonneg_int_cases order_trans zero_le_one)
  then have "k \<in> {1, 2, 3, 4, 5, 6, 7, 8, 9, 10, 11, 12}"
    using assms by (simp add: numeral_eq_Suc le_Suc_eq)
  then show ?thesis
    unfolding k days_from_civil_def month_length_def Let_def
    by (elim insertE emptyE; hypsubst) (simp_all add: year_step [of y])
qed

lemma days_day: "days_from_civil y m d = days_from_civil y m 1 + (d - 1)"
  by (simp add: days_from_civil_def Let_def)

text \<open>The day count of \<^verbatim>\<open>timegm\<close> follows the Gregorian calendar: it is 0 on 1 January 1970
  and grows by one from each calendar day to the next, over month ends, leap days and new years.\<close>

theorem days_follow_calendar:
  assumes "1 \<le> m" and "m \<le> 12" and "d \<le> month_length y m" and "next_day (y, m, d) = (y', m', d')"
  shows "days_from_civil 1970 1 1 = 0 \<and> days_from_civil y' m' d' = days_from_civil y m d + 1"
proof -
  have "days_from_civil 1970 1 1 = 0" by (simp add: days_from_civil_def year_days_def)
  moreover have "days_from_civil y' m' d' = days_from_civil y m d + 1"
    using assms month_step [OF assms(1,2), of y] days_day [of y m d] days_day [of y m "d + 1"]
    by (auto simp: next_day_def split: if_splits)
  ultimately show ?thesis by simp
qed

theorem days_follow_calendar_witness:
  "days_from_civil 2024 2 29 = days_from_civil 2024 2 28 + 1
     \<and> days_from_civil 2025 1 1 = days_from_civil 2024 12 31 + 1"
  using days_follow_calendar [of 2 28 2024 2024 2 29] days_follow_calendar [of 12 31 2024 2025 1 1]
  by (simp add: next_day_def month_length_def leap_year_def)

section \<open>The duration\<close>

lemma get_number_range: "get_number lo hi n s = Some (v, r) \<Longrightarrow> v \<le> hi"
  by (auto simp: get_number_def Let_def split: if_splits prod.splits)

lemma strptime_range:
  assumes "c_strptime s = Some t"
  shows "0 \<le> tm_year t \<and> tm_year t \<le> 9999 \<and> 0 \<le> tm_mon t \<and> tm_mon t \<le> 12
    \<and> 0 \<le> tm_mday t \<and> tm_mday t \<le> 31 \<and> 0 \<le> tm_hour t \<and> tm_hour t \<le> 23
    \<and> 0 \<le> tm_min t \<and> tm_min t \<le> 59 \<and> 0 \<le> tm_sec t \<and> tm_sec t \<le> 61"
  using assms unfolding c_strptime_def
  by (auto simp: bind_eq_Some_conv dest!: get_number_range)

lemma timegm_bounded:
  assumes "c_strptime s = Some t"
  shows "\<bar>c_timegm t\<bar> \<le> 2 ^ 50"
proof -
  note r = strptime_range [OF assms]
  have yd: "\<bar>year_days y\<bar> \<le> 4000000" if "- 1 \<le> y" and "y \<le> 9999" for y
  proof -
    have "- 1 \<le> y div 4" "y div 4 \<le> 9999" "- 1 \<le> y div 100" "y div 100 \<le> 9999"
        "- 1 \<le> y div 400" "y div 400 \<le> 9999"
      using that by auto
    then show ?thesis using that unfolding year_days_def abs_le_iff by linarith
  qed
  define y where "y = (if tm_mon t \<le> 2 then tm_year t - 1 else tm_year t)"
  define q where "q = (153 * ((tm_mon t + 9) mod 12) + 2) div 5"
  have "0 \<le> q" and "q \<le> 1000" using r by (auto simp: q_def)
  moreover have "\<bar>year_days y\<bar> \<le> 4000000" using r by (intro yd) (auto simp: y_def)
  ultimately have "\<bar>days_from_civil (tm_year t) (tm_mon t) (tm_mday t)\<bar> \<le> 5000000"
    using r unfolding days_from_civil_def Let_def y_def [symmetric] q_def [symmetric] abs_le_iff
    by linarith
  then show ?thesis using r unfolding c_timegm_def abs_le_iff by auto
qed

lemma atoi_range: "- 2147483648 \<le> c_atoi s \<and> c_atoi s \<le> 2147483647"
proof -
  define x where "x = (fst (c_strtol s) + 2 ^ 31) mod 2 ^ 32"
  then have "0 \<le> x" and "x < 2 ^ 32" by simp_all
  moreover have "c_atoi s = x - 2 ^ 31" by (simp add: c_atoi_def to_int_def x_def)
  ultimately show ?thesis by simp
qed

lemma parse_timestamp_finite: "\<exists>r. parse_timestamp_to_double ts = Fin r \<and> \<bar>r\<bar> \<le> 2 ^ 51"
proof (cases "c_strptime ts")
  case (Some t)
  obtain s where s: "d_of_long (c_timegm t) = Fin s" "\<bar>s\<bar> \<le> 2 ^ 50"
    using of_long_bounded [OF timegm_bounded [OF Some]] by auto
  have ms: "\<exists>r. d_div (d_of_long (c_atoi m)) (Fin 1000) = Fin r \<and> \<bar>r\<bar> \<le> 2 ^ 32" for m
  proof -
    obtain a where a: "d_of_long (c_atoi m) = Fin a" "\<bar>a\<bar> \<le> 2 ^ 32"
      using of_long_bounded [of "c_atoi m" 32] atoi_range [of m] by (auto simp: abs_le_iff)
    then have "\<bar>a / 1000\<bar> \<le> 2 ^ 32" by (simp add: abs_divide)
    then show ?thesis using to_double_bounded [of "a / 1000" 32] a by simp
  qed
  have "\<exists>r. d_add (Fin s) (d_div (d_of_long (c_atoi m)) (Fin 1000)) = Fin r \<and> \<bar>r\<bar> \<le> 2 ^ 51" for m
  proof -
    obtain b where b: "d_div (d_of_long (c_atoi m)) (Fin 1000) = Fin b" "\<bar>b\<bar> \<le> 2 ^ 32" using ms by blast
    then have "\<bar>s + b\<bar> \<le> 2 ^ 51" using s(2) by simp
    then show ?thesis using to_double_bounded [of "s + b" 51] b by auto
  qed
  then show ?thesis using Some s by (auto simp: parse_timestamp_to_double_def Let_def split: option.splits)
qed (simp add: parse_timestamp_to_double_def)

lemma duration_finite: "\<exists>x. get_snapshot_duration a b = Fin x"
proof -
  obtain x y where x: "parse_timestamp_to_double a = Fin x" "\<bar>x\<bar> \<le> 2 ^ 51"
    and y: "parse_timestamp_to_double b = Fin y" "\<bar>y\<bar> \<le> 2 ^ 51"
    using parse_timestamp_finite by blast
  then have "\<bar>y - x\<bar> \<le> 2 ^ 52" by simp
  then obtain r where "to_double (y - x) = Fin r" using to_double_bounded [of "y - x" 52] by auto
  with x y show ?thesis by (simp add: get_snapshot_duration_def Let_def d_sub_def)
qed

text \<open>The duration of the report is never negative and never a NaN, whatever the two
  timestamps are: unparsable or reversed ones give zero.\<close>

theorem duration_nonneg: "d_nonneg (get_snapshot_duration a b)"
proof -
  obtain x y where "parse_timestamp_to_double a = Fin x" and "parse_timestamp_to_double b = Fin y"
    using parse_timestamp_finite by blast
  then show ?thesis
    by (auto simp: get_snapshot_duration_def Let_def d_sub_def d_le_def nonneg_to_double)
qed

end
