(* ===== verification/JSON.thy ===== *)
theory JSON
  imports C_Double
begin

text \<open>
  The grammar of JSON texts, as a relation between a value and the texts that denote it, and the
  facts that the program's number formats are JSON numbers. Strings are those that need no
  escapes: the program writes none.
\<close>

section \<open>Grammar\<close>

datatype json = JStr string | JNum string | JArr "json list" | JObj "(string \<times> json) list"

definition json_ws :: "string \<Rightarrow> bool" where
  "json_ws w = list_all (\<lambda>c. c \<in> {CHR '' '', CHR 0x09, CHR 0x0A, CHR 0x0D}) w"

definition json_plain :: "string \<Rightarrow> bool" where
  "json_plain s = list_all (\<lambda>c. 32 \<le> (of_char c :: nat) \<and> c \<noteq> CHR 0x22 \<and> c \<noteq> CHR 0x5C) s"

definition json_unsigned :: "string \<Rightarrow> bool" where
  "json_unsigned u =
     (let ip = takeWhile c_isdigit u; r = dropWhile c_isdigit u
      in ip \<noteq> [] \<and> (hd ip = CHR ''0'' \<longrightarrow> length ip = 1)
         \<and> (r = [] \<or> hd r = CHR ''.'' \<and> tl r \<noteq> [] \<and> list_all c_isdigit (tl r)))"

definition json_number :: "string \<Rightarrow> bool" where
  "json_number s = (if s \<noteq> [] \<and> hd s = CHR ''-'' then json_unsigned (tl s) else json_unsigned s)"

definition quoted :: "string \<Rightarrow> string" where
  "quoted s = [CHR 0x22] @ s @ [CHR 0x22]"

inductive json_text :: "json \<Rightarrow> string \<Rightarrow> bool"
  and json_items :: "json list \<Rightarrow> string \<Rightarrow> bool"
  and json_members :: "(string \<times> json) list \<Rightarrow> string \<Rightarrow> bool" where
  j_str: "json_plain s \<Longrightarrow> json_text (JStr s) (quoted s)"
| j_num: "json_number s \<Longrightarrow> json_text (JNum s) s"
| j_ws: "json_text v s \<Longrightarrow> json_ws a \<Longrightarrow> json_ws b \<Longrightarrow> json_text v (a @ s @ b)"
| j_arr_empty: "json_ws w \<Longrightarrow> json_text (JArr []) (''['' @ w @ '']'')"
| j_arr: "json_items vs s \<Longrightarrow> json_text (JArr vs) (''['' @ s @ '']'')"
| j_obj_empty: "json_ws w \<Longrightarrow> json_text (JObj []) (''{'' @ w @ ''}'')"
| j_obj: "json_members ms s \<Longrightarrow> json_text (JObj ms) (''{'' @ s @ ''}'')"
| j_item: "json_text v s \<Longrightarrow> json_items [v] s"
| j_items: "json_text v s \<Longrightarrow> json_items vs t \<Longrightarrow> json_items (v # vs) (s @ '','' @ t)"
| j_member: "json_ws a \<Longrightarrow> json_plain k \<Longrightarrow> json_ws b \<Longrightarrow> json_text v s \<Longrightarrow>
    json_members [(k, v)] (a @ quoted k @ b @ '':'' @ s)"
| j_members: "json_members [m] s \<Longrightarrow> json_members ms t \<Longrightarrow> json_members (m # ms) (s @ '','' @ t)"

section \<open>White space and numbers\<close>

lemma json_ws_append [simp]: "json_ws (a @ b) = (json_ws a \<and> json_ws b)"
  by (simp add: json_ws_def)

lemma json_ws_simps [simp]: "json_ws []" "json_ws nl" "json_ws '' ''" "json_ws (replicate k (CHR 0x09))"
  by (simp_all add: json_ws_def nl_def list_all_iff)

lemma j_ws_left: "json_text v s \<Longrightarrow> json_ws a \<Longrightarrow> json_text v (a @ s)"
  using j_ws [of v s a "[]"] by simp

lemma j_ws_right: "json_text v s \<Longrightarrow> json_ws b \<Longrightarrow> json_text v (s @ b)"
  using j_ws [of v s "[]" b] by simp

lemma show_nat_no_zero: "hd (show_nat n) = CHR ''0'' \<Longrightarrow> length (show_nat n) = 1"
proof (induction n rule: show_nat.induct)
  case (1 n)
  show ?case
  proof (cases "n < 10")
    case True
    then show ?thesis by (simp add: show_nat.simps [of n])
  next
    case False
    then have s: "show_nat n = show_nat (n div 10) @ [digit_char (n mod 10)]"
      by (simp add: show_nat.simps [of n])
    with 1 False have "length (show_nat (n div 10)) = 1" and z: "hd (show_nat (n div 10)) = CHR ''0''"
      by simp_all
    then have "show_nat (n div 10) = ''0''" by (cases "show_nat (n div 10)") auto
    then have "n div 10 = dec_val ''0''" by (metis dec_val_show_nat)
    then have "n div 10 = 0" by (simp add: dec_val_def digit_val_def)
    with False show ?thesis by simp
  qed
qed

lemma json_unsigned_show_nat:
  assumes "r = [] \<or> hd r = CHR ''.'' \<and> tl r \<noteq> [] \<and> list_all c_isdigit (tl r)"
  shows "json_unsigned (show_nat n @ r)"
proof -
  have "r = [] \<or> \<not> c_isdigit (hd r)" using assms by (auto simp: c_isdigit_def)
  then have "takeWhile c_isdigit (show_nat n @ r) = show_nat n" and "dropWhile c_isdigit (show_nat n @ r) = r"
    by (simp_all add: scan_show_nat)
  then show ?thesis using assms show_nat_no_zero [of n] by (simp add: json_unsigned_def)
qed

lemma unsigned_is_number: "json_unsigned s \<Longrightarrow> json_number s"
  by (cases s) (auto simp: json_number_def json_unsigned_def c_isdigit_def)

lemma json_number_show_nat [simp]: "json_number (show_nat n)"
  using json_unsigned_show_nat [of "[]" n] by (simp add: unsigned_is_number)

lemma json_number_show_int [simp]: "json_number (show_int i)"
  using json_unsigned_show_nat [of "[]" "nat (- i)"] by (simp add: show_int_def) (simp add: json_number_def)

lemma json_number_fmt_fixed:
  assumes "0 < k"
  shows "json_number (fmt_fixed k (Fin x))"
proof -
  define n where "n = nat (round_even (\<bar>x\<bar> * 10 ^ k))"
  have "list_all c_isdigit (pad_zeros k (show_nat (n mod 10 ^ k)))"
    using show_nat_digits by (auto simp: pad_zeros_def list_all_iff c_isdigit_def)
  moreover have "pad_zeros k (show_nat (n mod 10 ^ k)) \<noteq> []" by (simp add: pad_zeros_def)
  ultimately have "json_unsigned (show_nat (n div 10 ^ k) @ ''.'' @ pad_zeros k (show_nat (n mod 10 ^ k)))"
    by (intro json_unsigned_show_nat) simp
  moreover have "fmt_fixed k (Fin x) = (if x < 0 then ''-'' else [])
      @ show_nat (n div 10 ^ k) @ ''.'' @ pad_zeros k (show_nat (n mod 10 ^ k))"
    by (simp add: fmt_fixed_def n_def Let_def)
  ultimately show ?thesis by (simp add: unsigned_is_number) (simp add: json_number_def)
qed

end
