(* ===== verification/Metrics_Report.thy ===== *)
theory Metrics_Report
  imports Process_History C_Qsort Config Timestamps JSON
begin

text \<open>
  \<^verbatim>\<open>process_stats.c\<close>, the reporting half: the comparison functions, the descriptors of the
  metrics, the averages computed at the end of the run, the eleven sections of the report on
  the console and in \<^verbatim>\<open>metrics.json\<close>, and \<^verbatim>\<open>process_stats_print_metrics\<close> itself. An
  operation that reaches undefined behaviour returns the fault instead of a state. A write to a stream
  that is open does not fail; the results of \<^verbatim>\<open>fprintf\<close> are not looked at by the program either.
\<close>

section \<open>Comparison functions\<close>

definition labs :: "int \<Rightarrow> int" where
  "labs x = to_long \<bar>x\<bar>"

definition cmp_average_cpu :: "process_state_t \<Rightarrow> process_state_t \<Rightarrow> int" where
  "cmp_average_cpu pa pb =
     (if d_less (average_cpu_usage pa) (average_cpu_usage pb) then 1
      else if d_less (average_cpu_usage pb) (average_cpu_usage pa) then -1 else 0)"

definition cmp_average_rss :: "process_state_t \<Rightarrow> process_state_t \<Rightarrow> int" where
  "cmp_average_rss pa pb = (if rss_average_kb pa < rss_average_kb pb then 1
     else if rss_average_kb pb < rss_average_kb pa then -1 else 0)"

definition cmp_rss_variation :: "process_state_t \<Rightarrow> process_state_t \<Rightarrow> int" where
  "cmp_rss_variation pa pb =
     (if rss_variation_since_startup pa < rss_variation_since_startup pb then 1
      else if rss_variation_since_startup pb < rss_variation_since_startup pa then -1 else 0)"

definition cmp_rss_delta :: "process_state_t \<Rightarrow> process_state_t \<Rightarrow> int" where
  "cmp_rss_delta pa pb =
     (if labs (rss_variation_since_startup pa) < labs (rss_variation_since_startup pb) then 1
      else if labs (rss_variation_since_startup pb) < labs (rss_variation_since_startup pa) then -1
      else 0)"

definition compare_total_read_kbytes :: "process_state_t \<Rightarrow> process_state_t \<Rightarrow> int" where
  "compare_total_read_kbytes pa pb = (if total_read_kbytes pa < total_read_kbytes pb then 1
     else if total_read_kbytes pb < total_read_kbytes pa then -1 else 0)"

definition compare_total_write_kbytes :: "process_state_t \<Rightarrow> process_state_t \<Rightarrow> int" where
  "compare_total_write_kbytes pa pb = (if total_write_kbytes pa < total_write_kbytes pb then 1
     else if total_write_kbytes pb < total_write_kbytes pa then -1 else 0)"

definition compare_avg_read_rate :: "process_state_t \<Rightarrow> process_state_t \<Rightarrow> int" where
  "compare_avg_read_rate pa pb =
     (if d_less (avg_read_rate_kb_s pa) (avg_read_rate_kb_s pb) then 1
      else if d_less (avg_read_rate_kb_s pb) (avg_read_rate_kb_s pa) then -1 else 0)"

definition compare_avg_write_rate :: "process_state_t \<Rightarrow> process_state_t \<Rightarrow> int" where
  "compare_avg_write_rate pa pb =
     (if d_less (avg_write_rate_kb_s pa) (avg_write_rate_kb_s pb) then 1
      else if d_less (avg_write_rate_kb_s pb) (avg_write_rate_kb_s pa) then -1 else 0)"

definition compare_fd_increase :: "process_state_t \<Rightarrow> process_state_t \<Rightarrow> int" where
  "compare_fd_increase pa pb = (if fd_delta pa < fd_delta pb then 1
     else if fd_delta pb < fd_delta pa then -1 else 0)"

definition compare_opened_fd :: "process_state_t \<Rightarrow> process_state_t \<Rightarrow> int" where
  "compare_opened_fd pa pb = (if current_num_of_fds pa < current_num_of_fds pb then 1
     else if current_num_of_fds pb < current_num_of_fds pa then -1 else 0)"

definition compare_fd_delta :: "process_state_t \<Rightarrow> process_state_t \<Rightarrow> int" where
  "compare_fd_delta pa pb = (if labs (fd_delta pa) < labs (fd_delta pb) then 1
     else if labs (fd_delta pb) < labs (fd_delta pa) then -1 else 0)"

section \<open>Metric descriptors\<close>

datatype metric_value_type_t = METRIC_DOUBLE | METRIC_INT32 | METRIC_INT64

text \<open>A getter that the initialiser does not name is a null pointer.\<close>

record metric_desc_t =
  json_key :: string
  value_key :: string
  value_type :: metric_value_type_t
  get_double :: "(process_state_t \<Rightarrow> double) option"
  get_int32 :: "(process_state_t \<Rightarrow> int) option"
  get_int64 :: "(process_state_t \<Rightarrow> int) option"

datatype t_metrics = avg_cpu | avg_rss | rss_incr | rss_delta | bytes_read | read_rate
  | written_bytes | write_rate | fds_increase | no_of_fds | fds_delta

definition get_avg_cpu :: "process_state_t \<Rightarrow> double" where
  "get_avg_cpu ps = average_cpu_usage ps"

definition get_avg_rss :: "process_state_t \<Rightarrow> int" where
  "get_avg_rss ps = rss_average_kb ps"

definition get_rss_increase :: "process_state_t \<Rightarrow> int" where
  "get_rss_increase ps = rss_variation_since_startup ps"

definition get_total_read :: "process_state_t \<Rightarrow> int" where
  "get_total_read ps = sint (total_read_kbytes ps)"

definition get_avg_read_rate :: "process_state_t \<Rightarrow> double" where
  "get_avg_read_rate ps = avg_read_rate_kb_s ps"

definition get_total_write :: "process_state_t \<Rightarrow> int" where
  "get_total_write ps = sint (total_write_kbytes ps)"

definition get_avg_write_rate :: "process_state_t \<Rightarrow> double" where
  "get_avg_write_rate ps = avg_write_rate_kb_s ps"

definition get_rss_delta :: "process_state_t \<Rightarrow> int" where
  "get_rss_delta ps = rss_variation_since_startup ps"

definition get_fds_delta :: "process_state_t \<Rightarrow> int" where
  "get_fds_delta ps = to_int (fd_delta ps)"

definition get_opened_fds :: "process_state_t \<Rightarrow> int" where
  "get_opened_fds ps = sint (current_num_of_fds ps)"

definition double_metric :: "string \<Rightarrow> string \<Rightarrow> (process_state_t \<Rightarrow> double) \<Rightarrow> metric_desc_t" where
  "double_metric k v f = \<lparr>json_key = k, value_key = v, value_type = METRIC_DOUBLE,
     get_double = Some f, get_int32 = None, get_int64 = None\<rparr>"

definition int32_metric :: "string \<Rightarrow> string \<Rightarrow> (process_state_t \<Rightarrow> int) \<Rightarrow> metric_desc_t" where
  "int32_metric k v f = \<lparr>json_key = k, value_key = v, value_type = METRIC_INT32,
     get_double = None, get_int32 = Some f, get_int64 = None\<rparr>"

definition int64_metric :: "string \<Rightarrow> string \<Rightarrow> (process_state_t \<Rightarrow> int) \<Rightarrow> metric_desc_t" where
  "int64_metric k v f = \<lparr>json_key = k, value_key = v, value_type = METRIC_INT64,
     get_double = None, get_int32 = None, get_int64 = Some f\<rparr>"

fun g_metrics :: "t_metrics \<Rightarrow> metric_desc_t" where
  "g_metrics avg_cpu = double_metric ''cpu_average'' ''cpu_avg_pct'' get_avg_cpu"
| "g_metrics avg_rss = int64_metric ''rss_average'' ''rss_avg_kb'' get_avg_rss"
| "g_metrics rss_incr = int64_metric ''rss_increase'' ''rss_incr_kb'' get_rss_increase"
| "g_metrics rss_delta = int64_metric ''rss_delta'' ''rss_delta_kb'' get_rss_delta"
| "g_metrics bytes_read = int64_metric ''kbytes_read'' ''bytes_read_kb'' get_total_read"
| "g_metrics read_rate = double_metric ''read_rate'' ''read_rate_kbps'' get_avg_read_rate"
| "g_metrics written_bytes = int64_metric ''written_kbytes'' ''written_bytes_kb'' get_total_write"
| "g_metrics write_rate = double_metric ''write_rate'' ''write_rate_kbps'' get_avg_write_rate"
| "g_metrics fds_increase = int32_metric ''fds_increase'' ''no_of_fds_increase'' get_fds_delta"
| "g_metrics no_of_fds = int64_metric ''opened_fds'' ''no_of_opened_fds'' get_opened_fds"
| "g_metrics fds_delta = int32_metric ''fds_delta'' ''fds_delta'' get_fds_delta"

section \<open>Averages\<close>

text \<open>The body of the loop over the table; the division of the RSS sum is unsigned.\<close>

definition finalize_process ::
    "process_stats_metrics_arguments \<Rightarrow> process_state_t \<Rightarrow> process_state_t" where
  "finalize_process args ps =
     (let ps = (if cpu_average_requested args \<and> cpu_usage_samples ps \<noteq> 0
                then ps\<lparr>average_cpu_usage := d_div (cpu_usage_sum ps) (d_of_long (cpu_usage_samples ps))\<rparr>
                else ps);
          ps = (if rss_average_requested args \<and> num_of_rss_records ps \<noteq> 0
                then ps\<lparr>rss_average_kb := sint (word_of_int (rss_sum ps) div num_of_rss_records ps)\<rparr>
                else ps);
          ps = (if read_rate_requested args \<and> io_time_acc ps \<noteq> Fin 0
                then ps\<lparr>avg_read_rate_kb_s := d_div (d_of_u64 (total_read_kbytes ps)) (io_time_acc ps)\<rparr>
                else ps)
      in if write_rate_requested args \<and> io_time_acc ps \<noteq> Fin 0
         then ps\<lparr>avg_write_rate_kb_s := d_div (d_of_u64 (total_write_kbytes ps)) (io_time_acc ps)\<rparr>
         else ps)"

definition update_items :: "('a \<Rightarrow> 'a) \<Rightarrow> 'a UT_hash_table option \<Rightarrow> 'a UT_hash_table option" where
  "update_items f head = map_option (\<lambda>t. t\<lparr>items := map f (items t)\<rparr>) head"

section \<open>Writing the report\<close>

record report_state =
  r_stats :: process_stats
  r_files :: file_system
  r_console :: string

text \<open>What the environment contributes: the outcome of the allocations and the host's name.\<close>

record report_env =
  arr_alloc :: bool
  path_alloc :: bool
  host_alloc :: bool
  host_name :: "string option"

definition bind_fault :: "'e + 'a \<Rightarrow> ('a \<Rightarrow> 'e + 'b) \<Rightarrow> 'e + 'b" where
  "bind_fault x f = (case x of Inl e \<Rightarrow> Inl e | Inr a \<Rightarrow> f a)"

definition open_metrics_file :: "config_t \<Rightarrow> report_env \<Rightarrow> report_state \<Rightarrow> report_state" where
  "open_metrics_file cfg env r =
     (if \<not> config_get_metrics_json_enabled cfg \<or> \<not> path_alloc env then r
      else case open_write True (r_files r) (config_get_output_dir cfg @ ''/'' @ CONFIG_METRICS_JSON) of
          (f, fs) \<Rightarrow> r\<lparr>r_stats := (r_stats r)\<lparr>pfJsonOutput := f\<rparr>, r_files := fs\<rparr>)"

definition get_hostname_alloc :: "report_env \<Rightarrow> string option" where
  "get_hostname_alloc env = (if \<not> host_alloc env then None else host_name env)"

text \<open>\<^verbatim>\<open>fprintf(pfJsonOutput, ...)\<close>.\<close>

definition json_put :: "string \<Rightarrow> report_state \<Rightarrow> c_fault + report_state" where
  "json_put txt r = (case pfJsonOutput (r_stats r) of
     None \<Rightarrow> Inl Null_Stream
   | Some p \<Rightarrow> Inr (r\<lparr>r_files := append_file p txt (r_files r)\<rparr>))"

definition tab :: "nat \<Rightarrow> string" where
  "tab k = replicate k (CHR 0x09)"

definition PROC_STATS_SCHEMA_VERSION :: string where
  "PROC_STATS_SCHEMA_VERSION = ''1.0''"

definition PROCESS_ANALYZER_VERSION :: string where
  "PROCESS_ANALYZER_VERSION = ''process_analyzer V1.3''"

definition json_meta_text ::
    "u64 \<Rightarrow> u32 \<Rightarrow> string \<Rightarrow> string \<Rightarrow> string \<Rightarrow> string \<Rightarrow> double \<Rightarrow> string \<Rightarrow> string" where
  "json_meta_text snapshot_count interval_ms version start_time end_time prog duration hostname =
     ''{'' @ nl @ tab 1 @ quoted ''meta'' @ '': {'' @ nl
     @ tab 2 @ quoted ''tool'' @ '': '' @ quoted prog @ '','' @ nl
     @ tab 2 @ quoted ''version'' @ '': '' @ quoted version @ '','' @ nl
     @ tab 2 @ quoted ''schema_version'' @ '': '' @ quoted PROC_STATS_SCHEMA_VERSION @ '','' @ nl
     @ tab 2 @ quoted ''hostname'' @ '': '' @ quoted hostname @ '','' @ nl
     @ tab 2 @ quoted ''interval_ms'' @ '': '' @ show_nat (unat interval_ms) @ '','' @ nl
     @ tab 2 @ quoted ''start_time'' @ '': '' @ quoted start_time @ '','' @ nl
     @ tab 2 @ quoted ''end_time'' @ '': '' @ quoted end_time @ '','' @ nl
     @ tab 2 @ quoted ''duration_sec'' @ '': '' @ fmt_fixed 3 duration @ '','' @ nl
     @ tab 2 @ quoted ''snapshots'' @ '': '' @ show_nat (unat snapshot_count) @ nl
     @ tab 1 @ ''},'' @ nl @ tab 1 @ quoted ''metrics'' @ '': {'' @ nl"

definition metrics_json_begin ::
    "report_env \<Rightarrow> u64 \<Rightarrow> u32 \<Rightarrow> string \<Rightarrow> string \<Rightarrow> string \<Rightarrow> string \<Rightarrow> double \<Rightarrow> report_state
     \<Rightarrow> c_fault + report_state" where
  "metrics_json_begin env snapshot_count interval_ms version start_time end_time prog duration r =
     (let hostname = (case get_hostname_alloc env of None \<Rightarrow> ''unknown'' | Some h \<Rightarrow> h);
          r = r\<lparr>r_stats := (r_stats r)\<lparr>boIsFirstJsonMetric := True\<rparr>\<rparr>
      in json_put (json_meta_text snapshot_count interval_ms version start_time end_time prog
                     duration hostname) r)"

text \<open>The value of a metric as the branch of its type prints it.\<close>

definition metric_value_text :: "metric_desc_t \<Rightarrow> process_state_t \<Rightarrow> c_fault + string" where
  "metric_value_text m ps = (case value_type m of
     METRIC_DOUBLE \<Rightarrow> (case get_double m of None \<Rightarrow> Inl Null_Call | Some f \<Rightarrow> Inr (fmt_fixed 2 (f ps)))
   | METRIC_INT64 \<Rightarrow> (case get_int64 m of None \<Rightarrow> Inl Null_Call | Some f \<Rightarrow> Inr (show_int (f ps)))
   | METRIC_INT32 \<Rightarrow> (case get_int32 m of None \<Rightarrow> Inl Null_Call | Some f \<Rightarrow> Inr (show_int (f ps))))"

definition process_json_text :: "metric_desc_t \<Rightarrow> process_state_t \<Rightarrow> string \<Rightarrow> string \<Rightarrow> string" where
  "process_json_text m ps v sep =
     tab 3 @ ''{'' @ nl
     @ tab 3 @ quoted ''pid'' @ '': '' @ show_int (pid ps) @ '','' @ nl
     @ tab 3 @ quoted ''comm'' @ '': '' @ quoted (comm ps) @ '','' @ nl
     @ tab 3 @ quoted ''state'' @ '': '' @ quoted [state ps] @ '','' @ nl
     @ tab 3 @ quoted (value_key m) @ '': '' @ v @ '','' @ nl
     @ tab 3 @ quoted ''threads'' @ '': '' @ show_int (threads ps) @ '','' @ nl
     @ tab 3 @ quoted ''records'' @ '': '' @ show_nat (unat (number_of_records ps)) @ nl
     @ tab 3 @ ''}'' @ sep @ nl"

fun processes_json_text :: "metric_desc_t \<Rightarrow> process_state_t list \<Rightarrow> c_fault + string" where
  "processes_json_text m [] = Inr []"
| "processes_json_text m (ps # rest) =
     bind_fault (metric_value_text m ps) (\<lambda>v.
     bind_fault (processes_json_text m rest) (\<lambda>txt.
     Inr (process_json_text m ps v (if rest = [] then [] else '','') @ txt)))"

definition write_metric_block_json ::
    "metric_desc_t \<Rightarrow> process_state_t list \<Rightarrow> report_state \<Rightarrow> c_fault + report_state" where
  "write_metric_block_json m ps r =
     (if pfJsonOutput (r_stats r) = None then Inr r
      else let sep = (if \<not> boIsFirstJsonMetric (r_stats r) then '','' @ nl else []);
               r = r\<lparr>r_stats := (r_stats r)\<lparr>boIsFirstJsonMetric := False\<rparr>\<rparr>
           in bind_fault (processes_json_text m ps) (\<lambda>txt.
              json_put (sep @ tab 2 @ quoted (json_key m) @ '':['' @ nl @ txt @ tab 2 @ '']'') r))"

definition metrics_json_end :: "report_state \<Rightarrow> c_fault + report_state" where
  "metrics_json_end r =
     (if pfJsonOutput (r_stats r) = None then Inr r
      else bind_fault (json_put (nl @ tab 1 @ ''}'' @ nl @ ''}'' @ nl) r) (\<lambda>r.
           Inr (r\<lparr>r_stats := (r_stats r)\<lparr>boIsFirstJsonMetric := True, pfJsonOutput := None\<rparr>\<rparr>)))"

section \<open>Sections\<close>

definition pad_right :: "nat \<Rightarrow> string \<Rightarrow> string" where
  "pad_right k s = s @ replicate (k - length s) (CHR '' '')"

definition table_row :: "string \<Rightarrow> string \<Rightarrow> string \<Rightarrow> string \<Rightarrow> string \<Rightarrow> string \<Rightarrow> string" where
  "table_row a b c d e f = pad_right 6 a @ '' '' @ pad_right 20 b @ '' '' @ pad_right 6 c @ '' ''
     @ pad_right 18 d @ '' '' @ pad_right 8 e @ '' '' @ pad_right 15 f @ nl"

definition process_row :: "(process_state_t \<Rightarrow> string) \<Rightarrow> process_state_t \<Rightarrow> string" where
  "process_row v ps = table_row (show_int (pid ps)) (take 20 (comm ps)) [state ps] (v ps)
     (show_int (threads ps)) (show_nat (unat (number_of_records ps)))"

definition console_put :: "config_t \<Rightarrow> string \<Rightarrow> report_state \<Rightarrow> report_state" where
  "console_put cfg txt r = (if config_get_metrics_console_enabled cfg
     then r\<lparr>r_console := r_console r @ txt\<rparr> else r)"

text \<open>How many and which processes a section shows.\<close>

definition shown_count :: "int \<Rightarrow> process_state_t list \<Rightarrow> int" where
  "shown_count limit arr = (if limit < int (length arr) then limit else int (length arr))"

definition top_processes ::
    "(process_state_t \<Rightarrow> process_state_t \<Rightarrow> int) \<Rightarrow> int \<Rightarrow> process_state_t list \<Rightarrow> process_state_t list" where
  "top_processes cmp limit arr = take (nat (shown_count limit arr)) (c_qsort cmp arr)"

text \<open>The shape all sections share: sort the whole array, print the first \<open>n\<close> in both outputs.\<close>

definition print_section ::
    "config_t \<Rightarrow> bool \<Rightarrow> int \<Rightarrow> (process_state_t \<Rightarrow> process_state_t \<Rightarrow> int) \<Rightarrow> string \<Rightarrow> string
     \<Rightarrow> (process_state_t \<Rightarrow> string) \<Rightarrow> metric_desc_t
     \<Rightarrow> process_state_t list \<times> report_state \<Rightarrow> c_fault + process_state_t list \<times> report_state" where
  "print_section cfg requested limit cmp title heading v m st =
     (if \<not> requested then Inr st
      else let (arr, r) = st; top = top_processes cmp limit arr; arr' = c_qsort cmp arr;
               r = console_put cfg
                 (nl @ ''Top '' @ show_int (shown_count limit arr) @ '' '' @ title @ nl
                  @ table_row ''PID'' ''COMM'' ''STATE'' heading ''THREADS'' ''RECORDS''
                  @ concat (map (process_row v) top)) r
           in bind_fault (write_metric_block_json m top r) (\<lambda>r. Inr (arr', r)))"

definition section_cpu_average ::
    "config_t \<Rightarrow> process_stats_metrics_arguments \<Rightarrow> process_state_t list \<times> report_state
     \<Rightarrow> c_fault + process_state_t list \<times> report_state" where
  "section_cpu_average cfg args =
     print_section cfg (cpu_average_requested args) (cpu_average_pids_to_display args) cmp_average_cpu
       ''processes by average CPU usage:'' ''AVG CPU%''
       (\<lambda>ps. fmt_fixed 2 (average_cpu_usage ps)) (g_metrics avg_cpu)"

definition section_rss_average ::
    "config_t \<Rightarrow> process_stats_metrics_arguments \<Rightarrow> process_state_t list \<times> report_state
     \<Rightarrow> c_fault + process_state_t list \<times> report_state" where
  "section_rss_average cfg args =
     print_section cfg (rss_average_requested args) (rss_average_pids_to_display args) cmp_average_rss
       ''processes by average RSS (KB):'' ''AVG RSS (KB)''
       (\<lambda>ps. show_int (rss_average_kb ps)) (g_metrics avg_rss)"

definition section_rss_increase ::
    "config_t \<Rightarrow> process_stats_metrics_arguments \<Rightarrow> process_state_t list \<times> report_state
     \<Rightarrow> c_fault + process_state_t list \<times> report_state" where
  "section_rss_increase cfg args =
     print_section cfg (rss_increase_requested args) (rss_increase_pids_to_display args) cmp_rss_variation
       ''processes by RSS increase since startup (KB):'' ''RSS increase (KB)''
       (\<lambda>ps. show_int (rss_variation_since_startup ps)) (g_metrics rss_incr)"

definition section_rss_delta ::
    "config_t \<Rightarrow> process_stats_metrics_arguments \<Rightarrow> process_state_t list \<times> report_state
     \<Rightarrow> c_fault + process_state_t list \<times> report_state" where
  "section_rss_delta cfg args =
     print_section cfg (rss_delta_requested args) (rss_delta_pids_to_display args) cmp_rss_delta
       ''processes by RSS delta since startup (KB):'' ''RSS delta (KB)''
       (\<lambda>ps. show_int (rss_variation_since_startup ps)) (g_metrics rss_delta)"

definition section_bytes_read ::
    "config_t \<Rightarrow> process_stats_metrics_arguments \<Rightarrow> process_state_t list \<times> report_state
     \<Rightarrow> c_fault + process_state_t list \<times> report_state" where
  "section_bytes_read cfg args =
     print_section cfg (bytes_read_requested args) (bytes_read_pids_to_display args) compare_total_read_kbytes
       ''processes by bytes read from disk (KB):'' ''Bytes read (KB)''
       (\<lambda>ps. show_nat (unat (total_read_kbytes ps))) (g_metrics bytes_read)"

definition section_bytes_write ::
    "config_t \<Rightarrow> process_stats_metrics_arguments \<Rightarrow> process_state_t list \<times> report_state
     \<Rightarrow> c_fault + process_state_t list \<times> report_state" where
  "section_bytes_write cfg args =
     print_section cfg (bytes_write_requested args) (bytes_write_pids_to_display args) compare_total_write_kbytes
       ''processes by bytes written to disk (KB):'' ''Bytes written (KB)''
       (\<lambda>ps. show_nat (unat (total_write_kbytes ps))) (g_metrics written_bytes)"

definition section_read_rate ::
    "config_t \<Rightarrow> process_stats_metrics_arguments \<Rightarrow> process_state_t list \<times> report_state
     \<Rightarrow> c_fault + process_state_t list \<times> report_state" where
  "section_read_rate cfg args =
     print_section cfg (read_rate_requested args) (read_rate_pids_to_display args) compare_avg_read_rate
       ''processes by disk read rate (KB/s):'' ''RR(KB/s)''
       (\<lambda>ps. fmt_fixed 2 (avg_read_rate_kb_s ps)) (g_metrics read_rate)"

definition section_write_rate ::
    "config_t \<Rightarrow> process_stats_metrics_arguments \<Rightarrow> process_state_t list \<times> report_state
     \<Rightarrow> c_fault + process_state_t list \<times> report_state" where
  "section_write_rate cfg args =
     print_section cfg (write_rate_requested args) (write_rate_pids_to_display args) compare_avg_write_rate
       ''processes by disk write rate (KB/s):'' ''WR(KB/s)''
       (\<lambda>ps. fmt_fixed 2 (avg_write_rate_kb_s ps)) (g_metrics write_rate)"

definition section_fds_increase ::
    "config_t \<Rightarrow> process_stats_metrics_arguments \<Rightarrow> process_state_t list \<times> report_state
     \<Rightarrow> c_fault + process_state_t list \<times> report_state" where
  "section_fds_increase cfg args =
     print_section cfg (fds_increase_requested args) (fds_increase_pids_to_display args) compare_fd_increase
       ''processes by new file descriptors:'' ''NEW FDs''
       (\<lambda>ps. show_int (fd_delta ps)) (g_metrics fds_increase)"

definition section_opened_fds ::
    "config_t \<Rightarrow> process_stats_metrics_arguments \<Rightarrow> process_state_t list \<times> report_state
     \<Rightarrow> c_fault + process_state_t list \<times> report_state" where
  "section_opened_fds cfg args =
     print_section cfg (opened_fds_requested args) (opened_fds_pids_to_display args) compare_opened_fd
       ''processes by currently opened file descriptors:'' ''FDs''
       (\<lambda>ps. show_nat (unat (current_num_of_fds ps))) (g_metrics no_of_fds)"

definition section_fds_delta ::
    "config_t \<Rightarrow> process_stats_metrics_arguments \<Rightarrow> process_state_t list \<times> report_state
     \<Rightarrow> c_fault + process_state_t list \<times> report_state" where
  "section_fds_delta cfg args =
     print_section cfg (fds_delta_requested args) (fds_delta_pids_to_display args) compare_fd_delta
       ''processes by file descriptors delta'' ''Delta FDs''
       (\<lambda>ps. show_int (fd_delta ps)) (g_metrics fds_delta)"


definition report_sections ::
    "config_t \<Rightarrow> process_stats_metrics_arguments
     \<Rightarrow> (process_state_t list \<times> report_state \<Rightarrow> c_fault + process_state_t list \<times> report_state) list" where
  "report_sections cfg args =
     [section_cpu_average cfg args, section_rss_average cfg args, section_rss_increase cfg args,
      section_rss_delta cfg args, section_bytes_read cfg args, section_bytes_write cfg args,
      section_read_rate cfg args, section_write_rate cfg args, section_fds_increase cfg args,
      section_opened_fds cfg args, section_fds_delta cfg args]"

fun run_sections ::
    "(process_state_t list \<times> report_state \<Rightarrow> c_fault + process_state_t list \<times> report_state) list
     \<Rightarrow> process_state_t list \<times> report_state \<Rightarrow> c_fault + process_state_t list \<times> report_state" where
  "run_sections [] st = Inr st"
| "run_sections (f # fs) st = bind_fault (f st) (run_sections fs)"

definition process_stats_print_metrics ::
    "config_t \<Rightarrow> report_env \<Rightarrow> process_stats_metrics_arguments \<Rightarrow> u64 \<Rightarrow> report_state
     \<Rightarrow> c_fault + report_state" where
  "process_stats_print_metrics cfg env args interval_ms r =
     (if \<not> is_module_initialized (r_stats r) then Inr r
      else if HASH_COUNT (g_process_table (r_stats r)) = 0 then Inr r
      else if \<not> arr_alloc env then Inr r
      else let r = open_metrics_file cfg env r;
               st = r_stats r;
               duration = get_snapshot_duration (h_r_initial_timestamp st) (h_r_last_timestamp st)
           in bind_fault (metrics_json_begin env (g_number_of_snapshots st) (ucast interval_ms)
                PROCESS_ANALYZER_VERSION (h_r_initial_timestamp st) (h_r_last_timestamp st)
                (case prog_name st of None \<Rightarrow> ''(null)'' | Some p \<Rightarrow> p) duration r) (\<lambda>r.
              let tbl = update_items (finalize_process args) (g_process_table (r_stats r));
                  r = r\<lparr>r_stats := (r_stats r)\<lparr>g_process_table := tbl\<rparr>\<rparr>
              in bind_fault (run_sections (report_sections cfg args) (HASH_ITER tbl, r)) (\<lambda>(arr, r).
                 metrics_json_end r)))"

end
