(* ===== verification/Report_Ranking.thy ===== *)
theory Report_Ranking
  imports Metrics_Report
begin

text \<open>
  What the report selects: the comparison functions are consistent orders, so the processes taken from the
  sorted array are those that rank highest for the metric, in descending order; and what the averages
  computed before sorting are. That each section does this for its own metric is in \<open>Report_JSON\<close>.
\<close>

section \<open>The comparison functions as orders\<close>

fun metric_cmp :: "t_metrics \<Rightarrow> process_state_t \<Rightarrow> process_state_t \<Rightarrow> int" where
  "metric_cmp avg_cpu = cmp_average_cpu"
| "metric_cmp avg_rss = cmp_average_rss"
| "metric_cmp rss_incr = cmp_rss_variation"
| "metric_cmp rss_delta = cmp_rss_delta"
| "metric_cmp bytes_read = compare_total_read_kbytes"
| "metric_cmp read_rate = compare_avg_read_rate"
| "metric_cmp written_bytes = compare_total_write_kbytes"
| "metric_cmp write_rate = compare_avg_write_rate"
| "metric_cmp fds_increase = compare_fd_increase"
| "metric_cmp no_of_fds = compare_opened_fd"
| "metric_cmp fds_delta = compare_fd_delta"

text \<open>When a process ranks strictly above another for a metric.\<close>

fun above :: "t_metrics \<Rightarrow> process_state_t \<Rightarrow> process_state_t \<Rightarrow> bool" where
  "above avg_cpu a b = d_less (average_cpu_usage b) (average_cpu_usage a)"
| "above avg_rss a b = (rss_average_kb b < rss_average_kb a)"
| "above rss_incr a b = (rss_variation_since_startup b < rss_variation_since_startup a)"
| "above rss_delta a b = (labs (rss_variation_since_startup b) < labs (rss_variation_since_startup a))"
| "above bytes_read a b = (total_read_kbytes b < total_read_kbytes a)"
| "above read_rate a b = d_less (avg_read_rate_kb_s b) (avg_read_rate_kb_s a)"
| "above written_bytes a b = (total_write_kbytes b < total_write_kbytes a)"
| "above write_rate a b = d_less (avg_write_rate_kb_s b) (avg_write_rate_kb_s a)"
| "above fds_increase a b = (fd_delta b < fd_delta a)"
| "above no_of_fds a b = (current_num_of_fds b < current_num_of_fds a)"
| "above fds_delta a b = (labs (fd_delta b) < labs (fd_delta a))"

text \<open>The metrics of type \<^verbatim>\<open>double\<close> compare consistently where they are numbers.\<close>

fun is_number :: "t_metrics \<Rightarrow> process_state_t \<Rightarrow> bool" where
  "is_number avg_cpu ps = (average_cpu_usage ps \<noteq> NaN)"
| "is_number read_rate ps = (avg_read_rate_kb_s ps \<noteq> NaN)"
| "is_number write_rate ps = (avg_write_rate_kb_s ps \<noteq> NaN)"
| "is_number _ ps = True"

interpretation by_rss: ranking cmp_average_rss rss_average_kb
  by unfold_locales (auto simp: cmp_average_rss_def)

interpretation by_rss_variation: ranking cmp_rss_variation rss_variation_since_startup
  by unfold_locales (auto simp: cmp_rss_variation_def)

interpretation by_rss_delta: ranking cmp_rss_delta "\<lambda>ps. labs (rss_variation_since_startup ps)"
  by unfold_locales (auto simp: cmp_rss_delta_def)

interpretation by_read: ranking compare_total_read_kbytes total_read_kbytes
  by unfold_locales (auto simp: compare_total_read_kbytes_def)

interpretation by_write: ranking compare_total_write_kbytes total_write_kbytes
  by unfold_locales (auto simp: compare_total_write_kbytes_def)

interpretation by_fd_increase: ranking compare_fd_increase fd_delta
  by unfold_locales (auto simp: compare_fd_increase_def)

interpretation by_opened_fd: ranking compare_opened_fd current_num_of_fds
  by unfold_locales (auto simp: compare_opened_fd_def)

interpretation by_fd_delta: ranking compare_fd_delta "\<lambda>ps. labs (fd_delta ps)"
  by unfold_locales (auto simp: compare_fd_delta_def)

lemma not_less_trans_d:
  "b \<noteq> NaN \<Longrightarrow> \<not> d_less a b \<Longrightarrow> \<not> d_less b c \<Longrightarrow> a \<noteq> NaN \<Longrightarrow> c \<noteq> NaN \<Longrightarrow> \<not> d_less a c"
  using less_linear_d [of a b] less_trans_d [of b a c] by blast

lemma cmp_above: "metric_cmp m a b \<le> 0 \<longleftrightarrow> \<not> above m b a"
  by (cases m) (auto simp: cmp_average_cpu_def compare_avg_read_rate_def compare_avg_write_rate_def
      by_rss.cmp_key by_rss_variation.cmp_key by_rss_delta.cmp_key by_read.cmp_key by_write.cmp_key
      by_fd_increase.cmp_key by_opened_fd.cmp_key by_fd_delta.cmp_key)

interpretation metric: comparator "metric_cmp m" "{ps. is_number m ps}" for m
proof
  show "metric_cmp m a b \<le> 0 \<or> metric_cmp m b a \<le> 0" for a b
    unfolding cmp_above by (cases m) (auto dest: less_asym_d)
  show "metric_cmp m a c \<le> 0"
    if "a \<in> {ps. is_number m ps}" "b \<in> {ps. is_number m ps}" "c \<in> {ps. is_number m ps}"
      "metric_cmp m a b \<le> 0" "metric_cmp m b c \<le> 0" for a b c
    using that unfolding cmp_above by (cases m) (auto dest: not_less_trans_d)
qed

section \<open>What a section shows\<close>

lemma length_top: "length (top_processes cmp n arr) = nat (min n (int (length arr)))"
  by (auto simp: top_processes_def shown_count_def)

lemma top_and_rest:
  "mset arr = mset (top_processes cmp n arr) + mset (drop (nat (shown_count n arr)) (c_qsort cmp arr))"
  by (metis append_take_drop_id mset_append mset_qsort top_processes_def)

text \<open>For processes whose metric is a number.\<close>

lemma top_ranked:
  assumes "\<forall>ps \<in> set arr. is_number m ps" and "distinct arr"
    and "top_processes (metric_cmp m) n arr = shown"
  shows "length shown = nat (min n (int (length arr))) \<and> set shown \<subseteq> set arr \<and> distinct shown
    \<and> sorted_wrt (\<lambda>a b. \<not> above m b a) shown
    \<and> (\<forall>x \<in> set shown. \<forall>y \<in> set arr - set shown. \<not> above m y x)"
proof -
  let ?s = "c_qsort (metric_cmp m) arr" and ?n = "nat (shown_count n arr)"
  have S: "set arr \<subseteq> {ps. is_number m ps}" using assms(1) by auto
  have sh: "shown = take ?n ?s" using assms(3) by (simp add: top_processes_def)
  have "sorted_wrt (\<lambda>a b. \<not> above m b a) ?s"
    using metric.ordered_qsort [OF S] by (simp add: metric.ordered_def cmp_above)
  then have "sorted_wrt (\<lambda>a b. \<not> above m b a) shown" unfolding sh by (rule sorted_wrt_take)
  moreover have "\<not> above m y x" if "x \<in> set shown" and "y \<in> set arr - set shown" for x y
  proof -
    have "y \<in> set (take ?n ?s @ drop ?n ?s)" using that(2) by simp
    then have "y \<in> set (drop ?n ?s)" using that(2) unfolding set_append sh by blast
    then show ?thesis using metric.top_first [OF S] that(1) unfolding sh by (simp add: cmp_above)
  qed
  moreover have "distinct shown" "set shown \<subseteq> set arr"
    using assms(2) set_take_subset [of ?n ?s] by (simp_all add: sh distinct_qsort)
  ultimately show ?thesis using length_top [of "metric_cmp m" n arr] assms(3) by blast
qed

section \<open>The averages\<close>

lemma unsigned_mean:
  assumes "0 \<le> s" and "s \<le> LONG_MAX" and "0 < n" and "n < 2 ^ 63"
  shows "sint (word_of_int s div (of_nat n :: u64)) = s div int n"
proof -
  have u: "uint (word_of_int s :: u64) = s" "uint (of_nat n :: u64) = int n"
    using assms by (simp_all add: uint_word_of_int unsigned_of_nat take_bit_eq_mod LONG_MAX_def)
  have "0 \<le> s div int n" and "s div int n \<le> s"
    using assms zdiv_mono2 [of s 1 "int n"] by (simp_all add: pos_imp_zdiv_nonneg_iff)
  then have "to_long (s div int n) = s div int n"
    using assms(2) by (intro to_long_id) (simp_all add: limits_defs)
  then show ?thesis by (simp add: sint_long uint_div u)
qed

lemma finalize_fields [simp]:
  "pid (finalize_process args ps) = pid ps"
  "rss_average_kb (finalize_process args ps) = (if rss_average_requested args \<and> num_of_rss_records ps \<noteq> 0
     then sint (word_of_int (rss_sum ps) div num_of_rss_records ps) else rss_average_kb ps)"
  "average_cpu_usage (finalize_process args ps) = (if cpu_average_requested args \<and> cpu_usage_samples ps \<noteq> 0
     then d_div (cpu_usage_sum ps) (d_of_long (cpu_usage_samples ps)) else average_cpu_usage ps)"
  "avg_read_rate_kb_s (finalize_process args ps) = (if read_rate_requested args \<and> io_time_acc ps \<noteq> Fin 0
     then d_div (d_of_u64 (total_read_kbytes ps)) (io_time_acc ps) else avg_read_rate_kb_s ps)"
  "avg_write_rate_kb_s (finalize_process args ps) = (if write_rate_requested args \<and> io_time_acc ps \<noteq> Fin 0
     then d_div (d_of_u64 (total_write_kbytes ps)) (io_time_acc ps) else avg_write_rate_kb_s ps)"
  by (auto simp: finalize_process_def Let_def)

text \<open>C32: The average RSS reported for a process is the mean of its valid RSS samples, rounded
  down, as long as they are not negative and their sum fits a \<^verbatim>\<open>long\<close>.\<close>

theorem rss_average_is_mean:
  assumes "lookup_process (collect hz cpus prog is) p = Some ps"
    and "rss_samples (history p is) = v" and "v \<noteq> []" and "list_all (\<lambda>x. 0 \<le> x) v"
    and "sum_list v \<le> LONG_MAX" and "length v < 2 ^ 63" and "rss_average_requested args"
  shows "rss_average_kb (finalize_process args ps) = sum_list v div int (length v)"
proof -
  have sp: "rss_spec v ps" using assms(1,2) rss_spec_run by (auto simp: collect_run(2))
  have nn: "0 \<le> sum_list v" using assms(4) by (intro sum_list_nonneg) (simp add: list_all_iff)
  then have s: "rss_sum ps = sum_list v"
    using sp assms(5) by (simp add: rss_spec_def to_long_id LONG_MIN_def)
  have n: "num_of_rss_records ps = of_nat (length v)" using sp by (simp add: rss_spec_def)
  have "0 < (of_nat (length v) :: u64)" using assms(3,6) by (intro of_nat_u64_pos) simp_all
  then have "num_of_rss_records ps \<noteq> 0" unfolding n by simp
  with s n assms(7) show ?thesis
    using unsigned_mean [OF nn assms(5) _ assms(6)] assms(3) by simp
qed

theorem rss_average_is_mean_witness:
  "\<exists>ps. lookup_process (collect 100 4 ''pa'' two_samples) 7 = Some ps
     \<and> rss_average_kb (finalize_process (zero_metrics_arguments\<lparr>rss_average_requested := True\<rparr>) ps) = 130"
proof -
  obtain ps where ps: "lookup_process (collect 100 4 ''pa'' two_samples) 7 = Some ps"
    using two_samples_run by blast
  have "rss_samples (history 7 two_samples) = [100, 160]"
    by (simp add: two_samples_def rss_samples_def sample_simps)
  then show ?thesis
    using rss_average_is_mean [OF ps, of "[100, 160]" "zero_metrics_arguments\<lparr>rss_average_requested := True\<rparr>"] ps
    by (simp add: LONG_MAX_def)
qed

section \<open>No NaN reaches a comparison\<close>

lemma rate_nonneg:
  "d_nonneg t \<Longrightarrow> t \<noteq> Fin 0 \<Longrightarrow> d_nonneg (d_div (d_of_u64 w) t)"
proof -
  assume t: "d_nonneg t" "t \<noteq> Fin 0"
  obtain r where "d_of_u64 w = Fin r" "0 \<le> r" using of_u64_Fin by blast
  moreover have "d_less (Fin 0) t" using t by (cases t) auto
  ultimately show ?thesis by (intro nonneg_div) auto
qed

lemma mean_nonneg:
  "d_nonneg s \<Longrightarrow> 1 \<le> n \<Longrightarrow> n \<le> LONG_MAX \<Longrightarrow> d_nonneg (d_div s (d_of_long n))"
  using of_long_pos [of n] by (auto intro!: nonneg_div)

definition clock_ok :: "process_state_input_t list \<Rightarrow> bool" where
  "clock_ok is = (\<forall>p. monotonic_clock (history p is) \<and> length (history p is) < 2 ^ 63)"

lemma run_unfinalized:
  assumes "run_process hz cpus h = Some ps"
  shows "average_cpu_usage ps = Fin 0 \<and> avg_read_rate_kb_s ps = Fin 0 \<and> avg_write_rate_kb_s ps = Fin 0"
  using assms by (rule run_process_induct) simp_all

lemma run_is_number:
  assumes "run_process hz cpus h = Some ps" and "monotonic_clock h" and "length h < 2 ^ 63"
    and "1 \<le> hz" and "hz \<le> LONG_MAX" and "1 \<le> cpus" and "cpus \<le> LONG_MAX"
  shows "is_number m (finalize_process args ps)"
proof -
  let ?us = "cpu_usages hz cpus h"
  have cs: "cpu_spec ?us ps" using assms by (intro cpu_spec_run) simp_all
  have "int (length ?us) \<le> LONG_MAX"
    using cpu_usages_length [of hz cpus h] assms(3) by (simp add: LONG_MAX_def)
  then have n: "cpu_usage_samples ps = int (length ?us)" "int (length ?us) \<le> LONG_MAX"
    using cs by (simp_all add: cpu_spec_def to_long_id LONG_MIN_def)
  have "d_nonneg (cpu_usage_sum ps)"
    using cs cpu_usages_nonneg [OF assms(4-7,2)] sum_nonneg by (simp add: cpu_spec_def)
  then have "cpu_usage_samples ps \<noteq> 0 \<Longrightarrow>
      d_div (cpu_usage_sum ps) (d_of_long (cpu_usage_samples ps)) \<noteq> NaN"
    using n by (intro nonneg_not_NaN mean_nonneg) linarith+
  then have cpu: "average_cpu_usage (finalize_process args ps) \<noteq> NaN"
    using run_unfinalized [OF assms(1)] by simp
  have "d_nonneg (io_time_acc ps)" using io_spec_run [OF assms(1,2)] by (simp add: io_spec_def)
  then have "avg_read_rate_kb_s (finalize_process args ps) \<noteq> NaN"
    and "avg_write_rate_kb_s (finalize_process args ps) \<noteq> NaN"
    using run_unfinalized [OF assms(1)] rate_nonneg nonneg_not_NaN by auto
  with cpu show ?thesis by (cases m) simp_all
qed

lemma iter_update_items: "HASH_ITER (update_items f head) = map f (HASH_ITER head)"
  by (cases head) (simp_all add: HASH_ITER_def update_items_def)

lemma table_distinct: "table_ok pid head \<Longrightarrow> distinct (map pid (HASH_ITER head))"
  by (cases head) (simp_all add: HASH_ITER_def table_ok_def ut_inv_def)

lemma iter_lookup:
  assumes "stats_ok st" and "ps \<in> set (HASH_ITER (g_process_table st))"
  shows "lookup_process st (pid ps) = Some ps"
  using iter_lookup_process [OF assms(1)] assms(2) by blast

text \<open>The array the report sorts.\<close>

definition report_array :: "process_stats_metrics_arguments \<Rightarrow> process_stats \<Rightarrow> process_state_t list" where
  "report_array args st = HASH_ITER (update_items (finalize_process args) (g_process_table st))"

lemma report_array_pids: "map pid (report_array args st) = map pid (HASH_ITER (g_process_table st))"
  by (simp add: report_array_def iter_update_items)

text \<open>The first \<open>n\<close> processes of an array for a metric.\<close>

definition shows_top :: "t_metrics \<Rightarrow> int \<Rightarrow> process_state_t list \<Rightarrow> process_state_t list \<Rightarrow> bool" where
  "shows_top m n arr shown = (length shown = nat (min n (int (length arr))) \<and> set shown \<subseteq> set arr
     \<and> distinct (map pid shown) \<and> sorted_wrt (\<lambda>a b. \<not> above m b a) shown
     \<and> (\<forall>x \<in> set shown. \<forall>y \<in> set arr - set shown. \<not> above m y x))"

text \<open>A section gets the array as the section before it has left it.\<close>

lemma top_shown:
  assumes "\<forall>ps \<in> set arr. is_number m ps" and "distinct (map pid arr)" and "mset arr' = mset arr"
  shows "shows_top m n arr (top_processes (metric_cmp m) n arr')"
proof -
  let ?t = "top_processes (metric_cmp m) n arr'"
  have same: "set arr' = set arr" "length arr' = length arr" "distinct arr'"
    using assms(2) mset_eq_setD [OF assms(3)] mset_eq_length [OF assms(3)] mset_eq_imp_distinct_iff [OF assms(3)]
    by (simp_all add: distinct_map)
  have t: "length ?t = nat (min n (int (length arr))) \<and> set ?t \<subseteq> set arr \<and> distinct ?t
    \<and> sorted_wrt (\<lambda>a b. \<not> above m b a) ?t \<and> (\<forall>x \<in> set ?t. \<forall>y \<in> set arr - set ?t. \<not> above m y x)"
    using top_ranked [of arr' m n ?t, OF _ same(3) refl] assms(1) same by simp
  then have "inj_on pid (set ?t)" using assms(2) by (auto simp: distinct_map intro: inj_on_subset)
  with t show ?thesis by (simp add: distinct_map shows_top_def)
qed

lemma collected_array:
  assumes "g_process_table st = g_process_table (collect hz cpus prog is)"
  shows "distinct (map pid (report_array args st))"
    and "clock_ok is \<Longrightarrow> hz \<le> LONG_MAX \<Longrightarrow> cpus \<le> LONG_MAX \<Longrightarrow> ps \<in> set (report_array args st) \<Longrightarrow> is_number m ps"
proof -
  let ?st = "collect hz cpus prog is"
  show "distinct (map pid (report_array args st))"
    using collect_run(1) [of hz cpus prog "is"] report_array_pids [of args st] assms
    by (simp add: table_distinct stats_ok_def)
  show "is_number m ps" if t: "clock_ok is" "hz \<le> LONG_MAX" "cpus \<le> LONG_MAX" "ps \<in> set (report_array args st)"
  proof -
    obtain q where q: "ps = finalize_process args q" "q \<in> set (HASH_ITER (g_process_table ?st))"
      using t(4) assms by (auto simp: report_array_def iter_update_items)
    have "run_process (ticks_per_second hz) (online_cpus cpus) (history (pid q) is) = Some q"
      using iter_lookup [OF collect_run(1) q(2)] by (simp add: collect_run(2))
    from run_is_number [OF this] t(1-3) show ?thesis
      unfolding q(1) by (auto simp: clock_ok_def ticks_per_second_def online_cpus_def LONG_MAX_def)
  qed
qed

lemma two_samples_clock: "clock_ok two_samples"
proof -
  have "history p two_samples = (if p = 7 then [sample 7 1 10 100 3 5 True, sample 7 2 35 160 8 25 True]
      else if p = 8 then [sample 8 1 0 50 9 1 True] else [])" for p
    by (auto simp: two_samples_def sample_def history_def)
  then show ?thesis by (simp add: clock_ok_def sample_simps)
qed

end
