(* ===== verification/Report_JSON.thy ===== *)
theory Report_JSON
  imports Report_Ranking
begin

text \<open>
  What the report prints: the exact texts on the console and in \<^verbatim>\<open>metrics.json\<close>, that every section shows
  the top processes of its own metric, and that the file is a JSON object holding the run's data and, per
  requested metric, the processes shown for it.
\<close>

section \<open>The text of a section\<close>

fun metric_text :: "t_metrics \<Rightarrow> process_state_t \<Rightarrow> string" where
  "metric_text avg_cpu ps = fmt_fixed 2 (average_cpu_usage ps)"
| "metric_text avg_rss ps = show_int (rss_average_kb ps)"
| "metric_text rss_incr ps = show_int (rss_variation_since_startup ps)"
| "metric_text rss_delta ps = show_int (rss_variation_since_startup ps)"
| "metric_text bytes_read ps = show_int (sint (total_read_kbytes ps))"
| "metric_text read_rate ps = fmt_fixed 2 (avg_read_rate_kb_s ps)"
| "metric_text written_bytes ps = show_int (sint (total_write_kbytes ps))"
| "metric_text write_rate ps = fmt_fixed 2 (avg_write_rate_kb_s ps)"
| "metric_text fds_increase ps = show_int (to_int (fd_delta ps))"
| "metric_text no_of_fds ps = show_int (sint (current_num_of_fds ps))"
| "metric_text fds_delta ps = show_int (to_int (fd_delta ps))"

lemmas metric_getters = get_avg_cpu_def get_avg_rss_def get_rss_increase_def get_total_read_def
  get_avg_read_rate_def get_total_write_def get_avg_write_rate_def get_rss_delta_def
  get_fds_delta_def get_opened_fds_def

text \<open>The branch taken for a descriptor's type finds its getter set.\<close>

lemma metric_value_ok: "metric_value_text (g_metrics m) ps = Inr (metric_text m ps)"
  by (cases m) (simp_all add: metric_value_text_def double_metric_def int32_metric_def int64_metric_def
      metric_getters)

fun entries_text :: "t_metrics \<Rightarrow> process_state_t list \<Rightarrow> string" where
  "entries_text m [] = []"
| "entries_text m (ps # rest) = process_json_text (g_metrics m) ps (metric_text m ps)
     (if rest = [] then [] else '','') @ entries_text m rest"

lemma processes_json_ok: "processes_json_text (g_metrics m) l = Inr (entries_text m l)"
  by (induction l) (simp_all add: metric_value_ok bind_fault_def)

definition block_text :: "t_metrics \<Rightarrow> process_state_t list \<Rightarrow> string" where
  "block_text m l = tab 2 @ quoted (json_key (g_metrics m)) @ '':['' @ nl @ entries_text m l @ tab 2 @ '']''"

section \<open>Running the sections\<close>

text \<open>Text appended to what a stream points to; a device swallows it.\<close>

definition written :: "string \<Rightarrow> node \<Rightarrow> node" where
  "written t n = (case n of File d \<Rightarrow> File (d @ t) | _ \<Rightarrow> n)"

lemma written_simps [simp]:
  "written t (File d) = File (d @ t)" "written t Special = Special" "written [] n = n"
  "written u (written t n) = written (t @ u) n"
  by (simp_all add: written_def split: node.split)

definition json_open :: "fpath \<Rightarrow> node \<Rightarrow> bool \<Rightarrow> report_state \<Rightarrow> bool" where
  "json_open p n first r = (pfJsonOutput (r_stats r) = Some p
     \<and> node_at (r_files r) p = Some n \<and> boIsFirstJsonMetric (r_stats r) = first)"

lemma json_put_open:
  "json_open p n f r \<Longrightarrow> \<exists>r'. json_put t r = Inr r' \<and> json_open p (written t n) f r' \<and> r_stats r' = r_stats r
     \<and> r_console r' = r_console r"
  by (auto simp: json_open_def json_put_def append_file_def written_def split: node.split)

lemma console_put_open [simp]: "json_open p n f (console_put cfg t r) = json_open p n f r"
  by (simp add: json_open_def console_put_def)

lemma write_block_open:
  assumes "json_open p n f r"
  shows "\<exists>r'. write_metric_block_json (g_metrics m) l r = Inr r'
    \<and> json_open p (written ((if f then [] else '','' @ nl) @ block_text m l) n) False r' \<and> r_console r' = r_console r"
proof -
  let ?r = "r\<lparr>r_stats := (r_stats r)\<lparr>boIsFirstJsonMetric := False\<rparr>\<rparr>"
  have "json_open p n False ?r" using assms by (simp add: json_open_def)
  then show ?thesis
    using assms json_put_open [of p n False ?r "(if f then [] else '','' @ nl) @ block_text m l"]
    by (auto simp: write_metric_block_json_def json_open_def processes_json_ok bind_fault_def Let_def
        block_text_def)
qed

type_synonym section_spec = "t_metrics \<times> bool \<times> int \<times> string \<times> string \<times> (process_state_t \<Rightarrow> string)"

definition section_of ::
    "config_t \<Rightarrow> section_spec \<Rightarrow> process_state_t list \<times> report_state
     \<Rightarrow> c_fault + process_state_t list \<times> report_state" where
  "section_of cfg s = (case s of (m, req, n, t, h, v) \<Rightarrow> print_section cfg req n (metric_cmp m) t h v (g_metrics m))"

fun blocks_text :: "(t_metrics \<times> int) list \<Rightarrow> bool \<Rightarrow> process_state_t list \<Rightarrow> string" where
  "blocks_text [] f arr = []"
| "blocks_text ((m, n) # ms) f arr = (if f then [] else '','' @ nl)
     @ block_text m (top_processes (metric_cmp m) n arr) @ blocks_text ms False (c_qsort (metric_cmp m) arr)"

definition wanted :: "section_spec list \<Rightarrow> (t_metrics \<times> int) list" where
  "wanted ss = map (\<lambda>(m, req, n, _). (m, n)) (filter (\<lambda>(m, req, _). req) ss)"

text \<open>The processes the sections show, each sorting the array it is left by the one before, and the console text.\<close>

fun section_tops :: "(t_metrics \<times> int) list \<Rightarrow> process_state_t list \<Rightarrow> process_state_t list list" where
  "section_tops [] arr = []"
| "section_tops ((m, n) # ms) arr =
     top_processes (metric_cmp m) n arr # section_tops ms (c_qsort (metric_cmp m) arr)"

fun section_console :: "nat \<Rightarrow> section_spec \<Rightarrow> process_state_t list \<Rightarrow> string" where
  "section_console k (m, req, n, t, h, v) shown = nl @ ''Top '' @ show_int (min n (int k)) @ '' '' @ t @ nl
     @ table_row ''PID'' ''COMM'' ''STATE'' h ''THREADS'' ''RECORDS'' @ concat (map (process_row v) shown)"

definition requested :: "section_spec list \<Rightarrow> section_spec list" where
  "requested ss = filter (\<lambda>(m, req, _). req) ss"

definition sections_console :: "section_spec list \<Rightarrow> process_state_t list \<Rightarrow> string" where
  "sections_console ss arr = concat (map2 (section_console (length arr)) (requested ss) (section_tops (wanted ss) arr))"

lemma run_sections_open:
  assumes "json_open p d f r" and "config_get_metrics_console_enabled cfg"
  shows "\<exists>arr' r' f'. run_sections (map (section_of cfg) ss) (arr, r) = Inr (arr', r')
    \<and> json_open p (written (blocks_text (wanted ss) f arr) d) f' r' \<and> r_console r' = r_console r @ sections_console ss arr"
  using assms
proof (induction ss arbitrary: arr r d f)
  case (Cons s ss)
  obtain m req n t h v where s: "s = (m, req, n, t, h, v)" using prod_cases6 by blast
  show ?case
  proof (cases req)
    case False
    then show ?thesis
      using Cons by (simp add: s section_of_def print_section_def bind_fault_def wanted_def sections_console_def requested_def)
  next
    case True
    let ?top = "top_processes (metric_cmp m) n arr"
    let ?d = "written ((if f then [] else '','' @ nl) @ block_text m ?top) d"
    define ctxt where "ctxt = nl @ ''Top '' @ show_int (shown_count n arr) @ '' '' @ t @ nl
      @ table_row ''PID'' ''COMM'' ''STATE'' h ''THREADS'' ''RECORDS'' @ concat (map (process_row v) ?top)"
    have ctxt: "ctxt = section_console (length arr) s ?top" by (simp add: s ctxt_def shown_count_def min_def)
    have "json_open p d f (console_put cfg ctxt r)" using Cons.prems by simp
    then obtain r' where w: "write_metric_block_json (g_metrics m) ?top (console_put cfg ctxt r) = Inr r'"
        and r'2: "json_open p ?d False r'" and r'3: "r_console r' = r_console r @ ctxt"
      using write_block_open [of p d f "console_put cfg ctxt r" m ?top] assms(2) by (auto simp: console_put_def)
    then have "section_of cfg s (arr, r) = Inr (c_qsort (metric_cmp m) arr, r')"
      using True unfolding s section_of_def prod.case print_section_def Let_def ctxt_def [symmetric]
      by (simp add: bind_fault_def)
    note r' = this r'2
    show ?thesis
      using Cons.IH [OF r'(2) assms(2), of "c_qsort (metric_cmp m) arr"] r'(1) r'3 True
      by (auto simp: s bind_fault_def wanted_def sections_console_def requested_def ctxt)
  qed
qed (auto simp: wanted_def sections_console_def requested_def)

definition section_specs :: "process_stats_metrics_arguments \<Rightarrow> section_spec list" where
  "section_specs args =
     [(avg_cpu, cpu_average_requested args, cpu_average_pids_to_display args,
        ''processes by average CPU usage:'', ''AVG CPU%'', \<lambda>ps. fmt_fixed 2 (average_cpu_usage ps)),
      (avg_rss, rss_average_requested args, rss_average_pids_to_display args,
        ''processes by average RSS (KB):'', ''AVG RSS (KB)'', \<lambda>ps. show_int (rss_average_kb ps)),
      (rss_incr, rss_increase_requested args, rss_increase_pids_to_display args,
        ''processes by RSS increase since startup (KB):'', ''RSS increase (KB)'',
        \<lambda>ps. show_int (rss_variation_since_startup ps)),
      (rss_delta, rss_delta_requested args, rss_delta_pids_to_display args,
        ''processes by RSS delta since startup (KB):'', ''RSS delta (KB)'',
        \<lambda>ps. show_int (rss_variation_since_startup ps)),
      (bytes_read, bytes_read_requested args, bytes_read_pids_to_display args,
        ''processes by bytes read from disk (KB):'', ''Bytes read (KB)'',
        \<lambda>ps. show_nat (unat (total_read_kbytes ps))),
      (written_bytes, bytes_write_requested args, bytes_write_pids_to_display args,
        ''processes by bytes written to disk (KB):'', ''Bytes written (KB)'',
        \<lambda>ps. show_nat (unat (total_write_kbytes ps))),
      (read_rate, read_rate_requested args, read_rate_pids_to_display args,
        ''processes by disk read rate (KB/s):'', ''RR(KB/s)'', \<lambda>ps. fmt_fixed 2 (avg_read_rate_kb_s ps)),
      (write_rate, write_rate_requested args, write_rate_pids_to_display args,
        ''processes by disk write rate (KB/s):'', ''WR(KB/s)'', \<lambda>ps. fmt_fixed 2 (avg_write_rate_kb_s ps)),
      (fds_increase, fds_increase_requested args, fds_increase_pids_to_display args,
        ''processes by new file descriptors:'', ''NEW FDs'', \<lambda>ps. show_int (fd_delta ps)),
      (no_of_fds, opened_fds_requested args, opened_fds_pids_to_display args,
        ''processes by currently opened file descriptors:'', ''FDs'',
        \<lambda>ps. show_nat (unat (current_num_of_fds ps))),
      (fds_delta, fds_delta_requested args, fds_delta_pids_to_display args,
        ''processes by file descriptors delta'', ''Delta FDs'', \<lambda>ps. show_int (fd_delta ps))]"

lemma report_sections_specs: "report_sections cfg args = map (section_of cfg) (section_specs args)"
  unfolding report_sections_def section_specs_def list.map section_of_def prod.case metric_cmp.simps
    section_cpu_average_def section_rss_average_def section_rss_increase_def section_rss_delta_def
    section_bytes_read_def section_bytes_write_def section_read_rate_def section_write_rate_def
    section_fds_increase_def section_opened_fds_def section_fds_delta_def ..

text \<open>The blocks of the file, from the processes shown.\<close>

fun blocks_of :: "bool \<Rightarrow> t_metrics list \<Rightarrow> process_state_t list list \<Rightarrow> string" where
  "blocks_of f (m # ms) (l # ls) = (if f then [] else '','' @ nl) @ block_text m l @ blocks_of False ms ls"
| "blocks_of f _ _ = []"

lemma blocks_text_tops: "blocks_text ms f arr = blocks_of f (map fst ms) (section_tops ms arr)"
  by (induction ms f arr rule: blocks_text.induct) simp_all

lemma requested_wanted: "map fst (wanted ss) = map fst (requested ss)"
  by (induction ss) (auto simp: wanted_def requested_def)

lemma section_tops_shown:
  assumes "\<forall>m. \<forall>ps \<in> set arr. is_number m ps" and "distinct (map pid arr)" and "mset arr' = mset arr"
  shows "list_all2 (\<lambda>(m, _, n, _) shown. shows_top m n arr shown) (requested ss) (section_tops (wanted ss) arr')"
  using assms(3)
proof (induction ss arbitrary: arr')
  case (Cons s ss)
  obtain m req n t h v where s: "s = (m, req, n, t, h, v)" using prod_cases6 by blast
  have "shows_top m n arr (top_processes (metric_cmp m) n arr')"
    using assms(1,2) Cons.prems by (intro top_shown) simp_all
  with Cons.IH [of arr'] Cons.IH [of "c_qsort (metric_cmp m) arr'"] Cons.prems show ?case
    by (simp add: s wanted_def requested_def mset_qsort)
qed (simp add: wanted_def requested_def)

section \<open>The whole file\<close>

definition host_text :: "report_env \<Rightarrow> string" where
  "host_text env = (case get_hostname_alloc env of None \<Rightarrow> ''unknown'' | Some h \<Rightarrow> h)"

definition meta_of :: "report_env \<Rightarrow> u64 \<Rightarrow> process_stats \<Rightarrow> string" where
  "meta_of env interval st = json_meta_text (g_number_of_snapshots st) (ucast interval)
     PROCESS_ANALYZER_VERSION (h_r_initial_timestamp st) (h_r_last_timestamp st)
     (case prog_name st of None \<Rightarrow> ''(null)'' | Some p \<Rightarrow> p)
     (get_snapshot_duration (h_r_initial_timestamp st) (h_r_last_timestamp st)) (host_text env)"

definition json_tail :: string where
  "json_tail = nl @ tab 1 @ ''}'' @ nl @ ''}'' @ nl"

definition report_text ::
    "report_env \<Rightarrow> process_stats_metrics_arguments \<Rightarrow> u64 \<Rightarrow> process_stats \<Rightarrow> string" where
  "report_text env args interval st = meta_of env interval st
     @ blocks_text (wanted (section_specs args)) True (report_array args st) @ json_tail"

text \<open>The conditions under which the report is produced at all.\<close>

definition report_ready :: "config_t \<Rightarrow> report_env \<Rightarrow> report_state \<Rightarrow> bool" where
  "report_ready cfg env r = (is_module_initialized (r_stats r)
     \<and> HASH_COUNT (g_process_table (r_stats r)) \<noteq> 0 \<and> arr_alloc env)"

lemma print_metrics_text:
  assumes "report_ready cfg env r" and "metrics_console_enabled cfg" and "path_alloc env"
    and "open_write True (r_files r) (output_dir cfg @ ''/metrics.json'') = (Some p, fs)"
    and "node_at fs p = Some n"
  shows "\<exists>r'. process_stats_print_metrics cfg env args interval r = Inr r'
    \<and> node_at (r_files r') p = Some (written (report_text env args interval (r_stats r)) n)
    \<and> pfJsonOutput (r_stats r') = None
    \<and> r_console r' = r_console r @ sections_console (section_specs args) (report_array args (r_stats r))"
proof -
  let ?st = "r_stats r"
  define r1 where "r1 = r\<lparr>r_stats := ?st\<lparr>pfJsonOutput := Some p\<rparr>, r_files := fs\<rparr>"
  have op: "open_metrics_file cfg env r = r1"
    using assms(2-4) by (simp add: open_metrics_file_def config_get_metrics_json_enabled_def
        config_get_output_dir_def CONFIG_METRICS_JSON_def r1_def)
  have "json_open p n True (r1\<lparr>r_stats := (r_stats r1)\<lparr>boIsFirstJsonMetric := True\<rparr>\<rparr>)"
    using assms(5) by (simp add: json_open_def r1_def)
  then obtain r2 where r2: "json_put (meta_of env interval ?st)
        (r1\<lparr>r_stats := (r_stats r1)\<lparr>boIsFirstJsonMetric := True\<rparr>\<rparr>) = Inr r2"
      "json_open p (written (meta_of env interval ?st) n) True r2"
      "r_stats r2 = (r_stats r1)\<lparr>boIsFirstJsonMetric := True\<rparr>" "r_console r2 = r_console r1"
    using json_put_open by fastforce
  have tbl: "g_process_table (r_stats r2) = g_process_table ?st" using r2(3) by (simp add: r1_def)
  define r3 where "r3 = r2\<lparr>r_stats := (r_stats r2)\<lparr>g_process_table :=
      update_items (finalize_process args) (g_process_table ?st)\<rparr>\<rparr>"
  have "json_open p (written (meta_of env interval ?st) n) True r3" using r2(2) by (simp add: json_open_def r3_def)
  then obtain arr' r4 f where r4: "run_sections (report_sections cfg args) (report_array args ?st, r3)
        = Inr (arr', r4)"
      "json_open p (written (meta_of env interval ?st
         @ blocks_text (wanted (section_specs args)) True (report_array args ?st)) n) f r4"
      "r_console r4 = r_console r3 @ sections_console (section_specs args) (report_array args ?st)"
    using run_sections_open [of p _ True r3 cfg "section_specs args" "report_array args ?st"] assms(2)
    unfolding report_sections_specs by (fastforce simp: config_get_metrics_console_enabled_def)
  obtain r5 where r5: "json_put json_tail r4 = Inr r5"
      "json_open p (written (report_text env args interval ?st) n) f r5" "r_console r5 = r_console r4"
    using json_put_open [OF r4(2)] by (auto simp: report_text_def)
  have beg: "metrics_json_begin env (g_number_of_snapshots ?st) (ucast interval) PROCESS_ANALYZER_VERSION
      (h_r_initial_timestamp ?st) (h_r_last_timestamp ?st) (case prog_name ?st of None \<Rightarrow> ''(null)'' | Some p \<Rightarrow> p)
      (get_snapshot_duration (h_r_initial_timestamp ?st) (h_r_last_timestamp ?st)) r1 = Inr r2"
    using r2(1) by (simp add: metrics_json_begin_def meta_of_def host_text_def Let_def)
  have "metrics_json_end r4 = Inr (r5\<lparr>r_stats := (r_stats r5)\<lparr>boIsFirstJsonMetric := True, pfJsonOutput := None\<rparr>\<rparr>)"
    using r5(1) r4(2) by (simp add: metrics_json_end_def json_tail_def json_open_def bind_fault_def)
  then show ?thesis
    using assms(1) op beg r4(1) r5(2) tbl r5(3) r4(3) r2(4)
    by (simp add: process_stats_print_metrics_def report_ready_def Let_def bind_fault_def r1_def
        r3_def report_array_def json_open_def)
qed

lemma print_metrics_null:
  assumes "report_ready cfg env r" and "pfJsonOutput (r_stats r) = None"
    and "\<not> path_alloc env \<or>
      fst (open_write True (r_files r) (output_dir cfg @ ''/metrics.json'')) = None"
  shows "process_stats_print_metrics cfg env args interval r = Inl Null_Stream"
proof -
  have "pfJsonOutput (r_stats (open_metrics_file cfg env r)) = None"
    using assms(2,3) by (auto simp: open_metrics_file_def config_get_metrics_json_enabled_def
        config_get_output_dir_def CONFIG_METRICS_JSON_def split: prod.splits)
  then show ?thesis
    using assms(1) by (simp add: process_stats_print_metrics_def report_ready_def Let_def
        metrics_json_begin_def json_put_def bind_fault_def)
qed

section \<open>The file is JSON\<close>

lemma tab_ws [simp]: "json_ws (tab k)"
  by (simp add: tab_def)

lemma plain_append [simp]: "json_plain (a @ b) = (json_plain a \<and> json_plain b)"
  by (simp add: json_plain_def)

lemma member_line:
  "json_text v s \<Longrightarrow> json_plain k \<Longrightarrow> json_ws a \<Longrightarrow> json_ws b \<Longrightarrow>
     json_members [(k, v)] (a @ quoted k @ '': '' @ s @ b)"
  using j_member [of a k "[]" v "'' '' @ s @ b"] j_ws [of v s "'' ''" b] by simp

text \<open>A member followed by a comma and more members.\<close>

lemma members_line:
  assumes "json_text v s" and "json_plain k" and "json_ws a" and "json_members ms t"
  shows "json_members ((k, v) # ms) (a @ quoted k @ '': '' @ s @ '','' @ t)"
  using j_members [OF member_line [OF assms(1-3), of "[]"] assms(4)] by simp

definition process_value :: "t_metrics \<Rightarrow> process_state_t \<Rightarrow> json" where
  "process_value m ps = JObj
     [(''pid'', JNum (show_int (pid ps))), (''comm'', JStr (comm ps)), (''state'', JStr [state ps]),
      (value_key (g_metrics m), JNum (metric_text m ps)), (''threads'', JNum (show_int (threads ps))),
      (''records'', JNum (show_nat (unat (number_of_records ps))))]"

definition printable :: "t_metrics \<Rightarrow> process_state_t \<Rightarrow> bool" where
  "printable m ps = (json_plain (comm ps) \<and> json_plain [state ps] \<and> json_number (metric_text m ps))"

lemma plain_metric_keys: "json_plain (value_key (g_metrics m)) \<and> json_plain (json_key (g_metrics m))"
  by (cases m) (simp_all add: double_metric_def int32_metric_def int64_metric_def json_plain_def)

lemma plain_fixed_keys:
  "json_plain ''pid''" "json_plain ''comm''" "json_plain ''state''" "json_plain ''threads''"
  "json_plain ''records''" "json_plain ''meta''" "json_plain ''metrics''" "json_plain ''tool''"
  "json_plain ''version''" "json_plain ''schema_version''" "json_plain ''hostname''"
  "json_plain ''interval_ms''" "json_plain ''start_time''" "json_plain ''end_time''"
  "json_plain ''duration_sec''" "json_plain ''snapshots''" "json_plain PROC_STATS_SCHEMA_VERSION"
  "json_plain PROCESS_ANALYZER_VERSION"
  by (simp_all add: json_plain_def PROC_STATS_SCHEMA_VERSION_def PROCESS_ANALYZER_VERSION_def)

lemmas plain_keys = plain_metric_keys [THEN conjunct1] plain_metric_keys [THEN conjunct2] plain_fixed_keys

definition process_core :: "t_metrics \<Rightarrow> process_state_t \<Rightarrow> string" where
  "process_core m ps = ''{'' @ ((nl @ tab 3) @ quoted ''pid'' @ '': '' @ show_int (pid ps) @ '',''
     @ (nl @ tab 3) @ quoted ''comm'' @ '': '' @ quoted (comm ps) @ '',''
     @ (nl @ tab 3) @ quoted ''state'' @ '': '' @ quoted [state ps] @ '',''
     @ (nl @ tab 3) @ quoted (value_key (g_metrics m)) @ '': '' @ metric_text m ps @ '',''
     @ (nl @ tab 3) @ quoted ''threads'' @ '': '' @ show_int (threads ps) @ '',''
     @ (nl @ tab 3) @ quoted ''records'' @ '': '' @ show_nat (unat (number_of_records ps)) @ (nl @ tab 3))
     @ ''}''"

lemma process_core_json:
  assumes "printable m ps"
  shows "json_text (process_value m ps) (process_core m ps)"
  unfolding process_core_def process_value_def
  by (intro j_obj members_line member_line j_num j_str plain_keys)
    (use assms in \<open>simp_all add: printable_def\<close>)

lemma process_json_core: "process_json_text (g_metrics m) ps (metric_text m ps) sep
    = tab 3 @ process_core m ps @ sep @ nl"
  by (simp add: process_json_text_def process_core_def)

lemma entries_json:
  assumes "l \<noteq> []" and "\<forall>ps \<in> set l. printable m ps" and "json_ws a" and "json_ws b"
  shows "json_items (map (process_value m) l) (a @ entries_text m l @ b)"
  using assms
proof (induction l arbitrary: a)
  case (Cons ps l)
  have v: "json_text (process_value m ps) (process_core m ps)"
    using Cons.prems by (simp add: process_core_json)
  show ?case
  proof (cases "l = []")
    case True
    have "json_items [process_value m ps] ((a @ tab 3) @ process_core m ps @ (nl @ b))"
      using v Cons.prems by (intro j_item j_ws) simp_all
    with True show ?thesis by (simp add: process_json_core)
  next
    case False
    have "json_items (process_value m ps # map (process_value m) l)
        (((a @ tab 3) @ process_core m ps @ []) @ '','' @ (nl @ entries_text m l @ b))"
      using v Cons False by (intro j_items j_ws) simp_all
    with False show ?thesis by (simp add: process_json_core)
  qed
qed simp

definition block_value :: "t_metrics \<Rightarrow> process_state_t list \<Rightarrow> json" where
  "block_value m l = JArr (map (process_value m) l)"

lemma block_json:
  assumes "\<forall>ps \<in> set l. printable m ps" and "json_ws a" and "json_ws b"
  shows "json_members [(json_key (g_metrics m), block_value m l)] (a @ block_text m l @ b)"
proof -
  have "json_text (block_value m l) (''['' @ (nl @ entries_text m l @ tab 2) @ '']'')"
    using assms(1) j_arr_empty [of "nl @ tab 2"] j_arr [OF entries_json]
    by (cases "l = []") (simp_all add: block_value_def)
  then have "json_text (block_value m l) ((''['' @ (nl @ entries_text m l @ tab 2) @ '']'') @ b)"
    using assms(3) by (rule j_ws_right)
  from j_member [OF _ plain_keys(2) _ this, of "a @ tab 2" "[]"] assms(2)
  show ?thesis by (simp add: block_text_def)
qed

fun blocks_value :: "(t_metrics \<times> int) list \<Rightarrow> process_state_t list \<Rightarrow> (string \<times> json) list" where
  "blocks_value [] arr = []"
| "blocks_value ((m, n) # ms) arr = (json_key (g_metrics m), block_value m (top_processes (metric_cmp m) n arr))
     # blocks_value ms (c_qsort (metric_cmp m) arr)"

lemma blocks_text_comma: "ms \<noteq> [] \<Longrightarrow> blocks_text ms False arr = '','' @ nl @ blocks_text ms True arr"
  by (cases ms) auto

lemma top_subset: "set (top_processes cmp n arr) \<subseteq> set arr"
  using set_take_subset [of "nat (shown_count n arr)" "c_qsort cmp arr"] by (simp add: top_processes_def)

lemma blocks_json:
  assumes "ms \<noteq> []" and "\<forall>(m, n) \<in> set ms. \<forall>ps \<in> set arr. printable m ps" and "json_ws a" and "json_ws b"
  shows "json_members (blocks_value ms arr) (a @ blocks_text ms True arr @ b)"
  using assms
proof (induction ms arbitrary: a arr)
  case (Cons mn ms)
  obtain m n where mn: "mn = (m, n)" by fastforce
  let ?top = "top_processes (metric_cmp m) n arr"
  have p: "\<forall>ps \<in> set ?top. printable m ps" using Cons.prems(2) top_subset mn by fastforce
  show ?case
  proof (cases "ms = []")
    case True
    then show ?thesis using block_json [OF p Cons.prems(3,4)] by (simp add: mn)
  next
    case False
    have "json_members (blocks_value ms (c_qsort (metric_cmp m) arr))
        (nl @ blocks_text ms True (c_qsort (metric_cmp m) arr) @ b)"
      using Cons False by (intro Cons.IH) (auto simp: mn)
    from j_members [OF block_json [OF p Cons.prems(3), of "[]"] this] False
    show ?thesis by (simp add: mn blocks_text_comma)
  qed
qed simp

definition meta_value :: "report_env \<Rightarrow> u64 \<Rightarrow> process_stats \<Rightarrow> json" where
  "meta_value env interval st = JObj
     [(''tool'', JStr (case prog_name st of None \<Rightarrow> ''(null)'' | Some p \<Rightarrow> p)),
      (''version'', JStr PROCESS_ANALYZER_VERSION), (''schema_version'', JStr PROC_STATS_SCHEMA_VERSION),
      (''hostname'', JStr (host_text env)),
      (''interval_ms'', JNum (show_nat (unat (ucast interval :: u32)))),
      (''start_time'', JStr (h_r_initial_timestamp st)), (''end_time'', JStr (h_r_last_timestamp st)),
      (''duration_sec'', JNum (fmt_fixed 3
         (get_snapshot_duration (h_r_initial_timestamp st) (h_r_last_timestamp st)))),
      (''snapshots'', JNum (show_nat (unat (g_number_of_snapshots st))))]"

definition report_value ::
    "report_env \<Rightarrow> process_stats_metrics_arguments \<Rightarrow> u64 \<Rightarrow> process_stats \<Rightarrow> json" where
  "report_value env args interval st = JObj [(''meta'', meta_value env interval st),
     (''metrics'', JObj (blocks_value (wanted (section_specs args)) (report_array args st)))]"

text \<open>The texts that enter the file unescaped need no escapes and the metrics are finite.\<close>

definition printable_report ::
    "report_env \<Rightarrow> process_stats_metrics_arguments \<Rightarrow> process_stats \<Rightarrow> bool" where
  "printable_report env args st = (json_plain (case prog_name st of None \<Rightarrow> ''(null)'' | Some p \<Rightarrow> p)
     \<and> json_plain (host_text env) \<and> json_plain (h_r_initial_timestamp st)
     \<and> json_plain (h_r_last_timestamp st)
     \<and> (\<forall>(m, n) \<in> set (wanted (section_specs args)). \<forall>ps \<in> set (report_array args st). printable m ps))"

lemma duration_number: "json_number (fmt_fixed 3 (get_snapshot_duration a b))"
  using duration_finite [of a b] json_number_fmt_fixed [of 3] by fastforce

definition meta_core :: "report_env \<Rightarrow> u64 \<Rightarrow> process_stats \<Rightarrow> string" where
  "meta_core env interval st = ''{''
     @ ((nl @ tab 2) @ quoted ''tool'' @ '': '' @ quoted (case prog_name st of None \<Rightarrow> ''(null)'' | Some p \<Rightarrow> p) @ '',''
     @ (nl @ tab 2) @ quoted ''version'' @ '': '' @ quoted PROCESS_ANALYZER_VERSION @ '',''
     @ (nl @ tab 2) @ quoted ''schema_version'' @ '': '' @ quoted PROC_STATS_SCHEMA_VERSION @ '',''
     @ (nl @ tab 2) @ quoted ''hostname'' @ '': '' @ quoted (host_text env) @ '',''
     @ (nl @ tab 2) @ quoted ''interval_ms'' @ '': '' @ show_nat (unat (ucast interval :: u32)) @ '',''
     @ (nl @ tab 2) @ quoted ''start_time'' @ '': '' @ quoted (h_r_initial_timestamp st) @ '',''
     @ (nl @ tab 2) @ quoted ''end_time'' @ '': '' @ quoted (h_r_last_timestamp st) @ '',''
     @ (nl @ tab 2) @ quoted ''duration_sec'' @ '': '' @ fmt_fixed 3
         (get_snapshot_duration (h_r_initial_timestamp st) (h_r_last_timestamp st)) @ '',''
     @ (nl @ tab 2) @ quoted ''snapshots'' @ '': '' @ show_nat (unat (g_number_of_snapshots st)) @ (nl @ tab 1))
     @ ''}''"

lemma meta_core_json:
  assumes "printable_report env args st"
  shows "json_text (meta_value env interval st) (meta_core env interval st)"
  unfolding meta_core_def meta_value_def
  by (intro j_obj members_line member_line j_num j_str plain_keys)
    (use assms in \<open>simp_all add: printable_report_def duration_number\<close>)

lemma report_json:
  assumes "printable_report env args st"
  shows "json_text (report_value env args interval st) (report_text env args interval st)"
proof -
  let ?ms = "wanted (section_specs args)" and ?arr = "report_array args st"
  have m: "json_text (JObj (blocks_value ?ms ?arr))
      (''{'' @ (nl @ blocks_text ?ms True ?arr @ nl @ tab 1) @ ''}'')"
  proof (cases "?ms = []")
    case True
    then show ?thesis using j_obj_empty [of "nl @ nl @ tab 1"] by simp
  next
    case False
    then show ?thesis using assms by (intro j_obj blocks_json) (simp_all add: printable_report_def)
  qed
  have "json_text (report_value env args interval st)
      (''{'' @ ((nl @ tab 1) @ quoted ''meta'' @ '': '' @ meta_core env interval st @ '',''
        @ (nl @ tab 1) @ quoted ''metrics'' @ '': ''
        @ (''{'' @ (nl @ blocks_text ?ms True ?arr @ nl @ tab 1) @ ''}'') @ nl) @ ''}'')"
    unfolding report_value_def
    by (intro j_obj members_line member_line plain_keys m meta_core_json [OF assms]) simp_all
  from j_ws_right [OF this, of nl] show ?thesis
    by (simp add: report_text_def meta_of_def json_meta_text_def meta_core_def json_tail_def)
qed

text \<open>What there is to report after a run of the collector.\<close>

lemma collect_report:
  "pfJsonOutput (collect hz cpus prog is) = None"
  "is_module_initialized (collect hz cpus prog is)"
  "is \<noteq> [] \<Longrightarrow> HASH_COUNT (g_process_table (collect hz cpus prog is)) \<noteq> 0"
proof -
  have "pfJsonOutput (stats_feed js st) = pfJsonOutput st" for js st
    by (induction js arbitrary: st) (simp_all add: stats_feed_def process_stats_update_def Let_def
        split: prod.splits option.splits)
  then show "pfJsonOutput (collect hz cpus prog is) = None"
    by (simp add: collect_def process_stats_initialize_def process_stats_initial_def Let_def)
  show "is_module_initialized (collect hz cpus prog is)"
    using feed_invariant [of "process_stats_initialize hz cpus prog process_stats_initial" "is"]
    by (simp add: collect_def initialize_fields stats_ok_def empty_table)
  have ok: "table_ok pid (g_process_table (collect hz cpus prog is))"
    using collect_run(1) by (simp add: stats_ok_def)
  assume "is \<noteq> []"
  then have "history (i_pid (hd is)) is \<noteq> []" by (cases "is") (simp_all add: history_def)
  then obtain ps where "lookup_process (collect hz cpus prog is) (i_pid (hd is)) = Some ps" using collect_Some by blast
  with ok show "HASH_COUNT (g_process_table (collect hz cpus prog is)) \<noteq> 0"
    by (auto simp: lookup_process_def ut.lookup_iter ut.count_iter)
qed

text \<open>Whether the file can be opened depends on the directories and the refusals only.\<close>

definition can_open_metrics :: "config_t \<Rightarrow> file_system \<Rightarrow> bool" where
  "can_open_metrics cfg fs = (let p = components (output_dir cfg @ ''/metrics.json'')
     in \<not> refuses fs (Open_Write p) \<and> \<not> is_dir fs p)"

lemma open_metrics:
  assumes "absolute (output_dir cfg)" and "is_dir fs (butlast (components (output_dir cfg @ ''/metrics.json'')))"
  shows "fst (open_write True fs (output_dir cfg @ ''/metrics.json'')) \<noteq> None \<longleftrightarrow> can_open_metrics cfg fs"
  using assms
  by (auto simp: open_write_def can_open_metrics_def Let_def resolve_def absolute_def is_dir_def parent_ok_def
      split: option.splits node.splits)

lemma print_metrics_outcome:
  assumes "report_ready cfg env r" and "metrics_console_enabled cfg" and "pfJsonOutput (r_stats r) = None"
    and "absolute (output_dir cfg)" and "printable_report env args (r_stats r)"
    and "p = components (output_dir cfg @ ''/metrics.json'')" and "is_dir (r_files r) (butlast p)"
  shows "if path_alloc env \<and> can_open_metrics cfg (r_files r)
    then \<exists>r'. process_stats_print_metrics cfg env args interval r = Inr r'
      \<and> (node_at (r_files r') p = Some Special
         \<or> (\<exists>f. node_at (r_files r') p = Some (File f) \<and> json_text (report_value env args interval (r_stats r)) f))
    else process_stats_print_metrics cfg env args interval r = Inl Null_Stream"
proof (cases "path_alloc env \<and> can_open_metrics cfg (r_files r)")
  case True
  then obtain q fs where op: "open_write True (r_files r) (output_dir cfg @ ''/metrics.json'') = (Some q, fs)"
    using open_metrics [OF assms(4) assms(7) [unfolded assms(6)]]
    by (cases "open_write True (r_files r) (output_dir cfg @ ''/metrics.json'')") auto
  have "q = p" using open_write_trunc(1) [OF op] assms(4,6) by (simp add: resolve_def absolute_def)
  then obtain n where n: "node_at fs p = Some n" "n = File [] \<or> n = Special" using open_write_trunc(2) [OF op] by blast
  from print_metrics_text [OF assms(1,2) _ op [unfolded \<open>q = p\<close>] n(1), of args interval] True
    report_json [OF assms(5), of interval] n(2) show ?thesis by auto
next
  case False
  then show ?thesis
    using print_metrics_null [OF assms(1,3)] open_metrics [OF assms(4) assms(7) [unfolded assms(6)]] by auto
qed

section \<open>Properties\<close>

text \<open>C5: Each section of the report shows the top processes of its own metric. For whatever was collected
  with increasing clocks, no metric of any process is a NaN, which would leave \<^verbatim>\<open>qsort\<close> without an order; the
  call returns; and there is a list of processes for each requested section, in the order of the report, that
  are as many as asked for (or all), distinct processes of the table, in descending order of that section's
  metric, no process left out ranking above one shown, although every section sorts the array as the one
  before has left it. The console gets exactly the tables of these lists under the section's title and
  \<^verbatim>\<open>metrics.json\<close> exactly their blocks.\<close>

theorem report_shows_top:
  assumes "clock_ok is" and "hz \<le> LONG_MAX" and "cpus \<le> LONG_MAX"
    and "g_process_table (r_stats r) = g_process_table (collect hz cpus prog is)"
    and "report_ready cfg env r" and "metrics_console_enabled cfg" and "path_alloc env"
    and "open_write True (r_files r) (output_dir cfg @ ''/metrics.json'') = (Some p, fs)" and "node_at fs p = Some (File [])"
    and "arr = report_array args (r_stats r)" and "ss = requested (section_specs args)"
  shows "(\<forall>m. \<forall>ps \<in> set arr. is_number m ps) \<and>
    (\<exists>r' tops. process_stats_print_metrics cfg env args interval r = Inr r'
      \<and> list_all2 (\<lambda>(m, _, n, _) shown. shows_top m n arr shown) ss tops
      \<and> r_console r' = r_console r @ concat (map2 (section_console (length arr)) ss tops)
      \<and> node_at (r_files r') p
          = Some (File (meta_of env interval (r_stats r) @ blocks_of True (map fst ss) tops @ json_tail)))"
proof -
  let ?tops = "section_tops (wanted (section_specs args)) arr"
  have nums: "\<forall>m. \<forall>ps \<in> set arr. is_number m ps" and dist: "distinct (map pid arr)"
    using collected_array [OF assms(4)] assms(1-3,10) by auto
  then have "list_all2 (\<lambda>(m, _, n, _) shown. shows_top m n arr shown) ss ?tops"
    unfolding assms(11) by (intro section_tops_shown) simp_all
  moreover obtain r' where "process_stats_print_metrics cfg env args interval r = Inr r'"
      "node_at (r_files r') p = Some (File (report_text env args interval (r_stats r)))"
      "r_console r' = r_console r @ sections_console (section_specs args) arr"
    using print_metrics_text [OF assms(5-9), of args interval] assms(10) by auto
  moreover have "report_text env args interval (r_stats r)
      = meta_of env interval (r_stats r) @ blocks_of True (map fst ss) ?tops @ json_tail"
    by (simp add: report_text_def blocks_text_tops requested_wanted assms(10,11))
  ultimately show ?thesis using nums by (auto simp: sections_console_def assms(11))
qed

text \<open>C6: When the report is due and \<^verbatim>\<open>metrics.json\<close> can be opened, the call returns with the
  stream closed and the file holds a JSON object: the run's data and, for each requested metric
  in the order of the report, the array of the processes shown for it. This needs the texts the
  program writes unescaped (names of processes, host and program) to be free of quotes,
  backslashes and control characters, and the printed metrics to be finite.\<close>

theorem metrics_file_is_json:
  assumes "report_ready cfg env r" and "metrics_console_enabled cfg" and "path_alloc env"
    and "open_write True (r_files r) (output_dir cfg @ ''/metrics.json'') = (Some p, fs)"
    and "node_at fs p = Some (File [])" and "printable_report env args (r_stats r)"
  shows "\<exists>r' f. process_stats_print_metrics cfg env args interval r = Inr r'
    \<and> pfJsonOutput (r_stats r') = None \<and> node_at (r_files r') p = Some (File f)
    \<and> json_text (report_value env args interval (r_stats r)) f"
  using print_metrics_text [OF assms(1-5), where args = args and interval = interval] report_json [OF assms(6), of interval]
  by auto

definition demo_env :: report_env where
  "demo_env = \<lparr>arr_alloc = True, path_alloc = True, host_alloc = True, host_name = Some ''box''\<rparr>"

definition demo_report :: "report_state" where
  "demo_report = \<lparr>r_stats = collect 100 4 ''pa'' two_samples,
     r_files = \<lparr>cwd = [], node_at = [[] \<mapsto> Dir, [''tmp''] \<mapsto> Dir, [''tmp'', ''ptime''] \<mapsto> Dir],
       refuses = (\<lambda>_. False)\<rparr>, r_console = []\<rparr>"

definition rss_only :: process_stats_metrics_arguments where
  "rss_only = zero_metrics_arguments\<lparr>rss_average_requested := True, rss_average_pids_to_display := 5\<rparr>"

lemma iter_count:
  "table_ok pid head \<Longrightarrow> HASH_COUNT head = length (HASH_ITER head)"
  by (cases head) (simp_all add: table_ok_def ut_inv_def HASH_COUNT_def HASH_ITER_def)

lemma demo_table: "ps \<in> set (HASH_ITER (g_process_table (collect 100 4 ''pa'' two_samples))) \<Longrightarrow>
    comm ps = ''sh'' \<and> state ps = CHR ''S''"
proof -
  assume a: "ps \<in> set (HASH_ITER (g_process_table (collect 100 4 ''pa'' two_samples)))"
  let ?h = "history (pid ps) two_samples"
  have r: "run_process (ticks_per_second 100) (online_cpus 4) ?h = Some ps"
    using iter_lookup [OF collect_run(1) a] by (simp add: collect_run(2))
  then have "?h \<noteq> []" by auto
  then have "hd ?h \<in> set two_samples" "last ?h \<in> set two_samples"
    using hd_in_set [of ?h] last_in_set [of ?h] by (auto simp: history_def)
  then show ?thesis using run_comm_state [OF r] by (auto simp: two_samples_def sample_def)
qed

lemma demo_ready: "report_ready config_default demo_env demo_report"
  using collect_report(2) collect_report(3) [of two_samples]
  by (simp add: report_ready_def demo_report_def demo_env_def two_samples_def)

lemma demo_printable: "printable_report demo_env rss_only (r_stats demo_report)"
proof -
  have "wanted (section_specs rss_only) = [(avg_rss, 5)]"
    by (simp add: wanted_def section_specs_def rss_only_def zero_metrics_arguments_def)
  moreover have "json_plain ''sh''" "json_plain ''S''" "json_plain ''12:00:00''" "json_plain ''pa''" "json_plain ''box''"
    by (simp_all add: json_plain_def)
  moreover have "comm (finalize_process rss_only ps) = comm ps" "state (finalize_process rss_only ps) = state ps" for ps
    by (simp_all add: finalize_process_def Let_def)
  moreover have "two_samples \<noteq> []" "i_h_r_timestamp (hd two_samples) = ''12:00:00''"
      "i_h_r_timestamp (last two_samples) = ''12:00:00''"
    by (simp_all add: two_samples_def sample_def)
  ultimately show ?thesis
    using demo_table collect_stamps [of two_samples 100 4 "''pa''"]
    by (auto simp: printable_report_def printable_def demo_report_def host_text_def
        get_hostname_alloc_def demo_env_def report_array_def iter_update_items)
qed

lemma demo_open: "\<exists>p fs. open_write True (r_files demo_report) (output_dir config_default @ ''/metrics.json'')
    = (Some p, fs) \<and> node_at fs p = Some (File [])"
  by (simp add: open_write_def demo_report_def config_default_def resolve_def absolute_def components_def
      Let_def parent_ok_def is_dir_def)

definition rss_and_fds :: process_stats_metrics_arguments where
  "rss_and_fds = zero_metrics_arguments\<lparr>rss_average_requested := True, rss_average_pids_to_display := 5,
     opened_fds_requested := True, opened_fds_pids_to_display := 1\<rparr>"

theorem report_shows_top_witness:
  "\<exists>r' t u. process_stats_print_metrics config_default demo_env rss_and_fds 1000 demo_report = Inr r'
    \<and> shows_top avg_rss 5 (report_array rss_and_fds (r_stats demo_report)) t
    \<and> shows_top no_of_fds 1 (report_array rss_and_fds (r_stats demo_report)) u
    \<and> r_console r' = section_console (length (report_array rss_and_fds (r_stats demo_report)))
        (avg_rss, True, 5, ''processes by average RSS (KB):'', ''AVG RSS (KB)'', \<lambda>ps. show_int (rss_average_kb ps)) t
      @ section_console (length (report_array rss_and_fds (r_stats demo_report)))
        (no_of_fds, True, 1, ''processes by currently opened file descriptors:'', ''FDs'', \<lambda>ps. show_nat (unat (current_num_of_fds ps))) u"
proof -
  obtain p fs where op: "open_write True (r_files demo_report) (output_dir config_default @ ''/metrics.json'')
      = (Some p, fs)" "node_at fs p = Some (File [])"
    using demo_open by blast
  have hyps: "100 \<le> LONG_MAX" "4 \<le> LONG_MAX" "metrics_console_enabled config_default" "path_alloc demo_env"
      "g_process_table (r_stats demo_report) = g_process_table (collect 100 4 ''pa'' two_samples)"
    by (simp_all add: config_default_def demo_env_def LONG_MAX_def demo_report_def)
  have ss: "requested (section_specs rss_and_fds) =
      [(avg_rss, True, 5, ''processes by average RSS (KB):'', ''AVG RSS (KB)'', \<lambda>ps. show_int (rss_average_kb ps)),
       (no_of_fds, True, 1, ''processes by currently opened file descriptors:'', ''FDs'', \<lambda>ps. show_nat (unat (current_num_of_fds ps)))]"
    by (simp add: requested_def section_specs_def rss_and_fds_def zero_metrics_arguments_def)
  have con: "r_console demo_report = []" by (simp add: demo_report_def)
  from report_shows_top [OF two_samples_clock hyps(1,2,5) demo_ready hyps(3,4) op refl ss [symmetric], of 1000]
  show ?thesis by (fastforce simp: con list_all2_Cons1)
qed

theorem metrics_file_is_json_witness:
  "\<exists>r' f p. process_stats_print_metrics config_default demo_env rss_only 1000 demo_report = Inr r'
    \<and> node_at (r_files r') p = Some (File f)
    \<and> json_text (report_value demo_env rss_only 1000 (r_stats demo_report)) f"
proof -
  obtain p fs where op: "open_write True (r_files demo_report) (output_dir config_default @ ''/metrics.json'')
      = (Some p, fs)" "node_at fs p = Some (File [])"
    using demo_open by blast
  have "metrics_console_enabled config_default" "path_alloc demo_env"
    by (simp_all add: config_default_def demo_env_def)
  from metrics_file_is_json [OF demo_ready this op demo_printable, of 1000] show ?thesis by blast
qed

text \<open>C36: When \<^verbatim>\<open>metrics.json\<close> cannot be opened, or the memory for its path is not available, the
  report writes to a null stream, whatever was requested: the header is printed without the check
  all other writers make, so the console part of the report is lost as well.\<close>

theorem report_null_stream:
  assumes "report_ready cfg env r" and "pfJsonOutput (r_stats r) = None"
    and "\<not> path_alloc env \<or>
      fst (open_write True (r_files r) (output_dir cfg @ ''/metrics.json'')) = None"
  shows "process_stats_print_metrics cfg env args interval r = Inl Null_Stream"
  using assms by (rule print_metrics_null)

theorem report_null_stream_witness:
  "process_stats_print_metrics config_default demo_env rss_only 1000
     (demo_report\<lparr>r_files := (r_files demo_report)\<lparr>refuses := (\<lambda>_. True)\<rparr>\<rparr>) = Inl Null_Stream"
proof (rule report_null_stream)
  show "report_ready config_default demo_env
      (demo_report\<lparr>r_files := (r_files demo_report)\<lparr>refuses := (\<lambda>_. True)\<rparr>\<rparr>)"
    using demo_ready by (simp add: report_ready_def)
  show "pfJsonOutput (r_stats (demo_report\<lparr>r_files := (r_files demo_report)\<lparr>refuses := (\<lambda>_. True)\<rparr>\<rparr>)) = None"
    by (simp add: demo_report_def collect_report(1))
qed (simp add: open_write_def Let_def)

end
