(* ===== verification/Args_Parser.thy ===== *)
theory Args_Parser
  imports Metrics_Report
begin

text \<open>
  \<^verbatim>\<open>args_parser.c\<close> over the C library's \<^verbatim>\<open>getopt_long\<close>: the numeric and duration
  arguments, the comma-separated whitelists with their growing arrays, and the option switch of
  \<^verbatim>\<open>ap_parse_args\<close>, in which each error path has its own message and its own release of the
  arguments. What \<^verbatim>\<open>getopt_long\<close> itself and a failed allocation in a whitelist print is not modelled.
\<close>

section \<open>State\<close>

text \<open>
  The two dynamic arrays: the entries in use are the list, whose length is the count; the
  capacity is 0 while no buffer is allocated.
\<close>

record ap_pid_whitelist =
  filter_pids :: "int list"
  filter_pids_capacity :: nat
  filter_comms :: "string list"
  filter_comms_capacity :: nat

record ap_arguments =
  interval_ms :: u64
  count :: int
  delete_old_files :: bool
  end_metrics_args :: process_stats_metrics_arguments
  pid_whitelist :: ap_pid_whitelist

definition empty_whitelist :: ap_pid_whitelist where
  "empty_whitelist = \<lparr>filter_pids = [], filter_pids_capacity = 0, filter_comms = [],
     filter_comms_capacity = 0\<rparr>"

definition zero_arguments :: ap_arguments where
  "zero_arguments = \<lparr>interval_ms = 0, count = 0, delete_old_files = False,
     end_metrics_args = zero_metrics_arguments, pid_whitelist = empty_whitelist\<rparr>"

datatype parse_args_status = parse_args_error | parse_args_ok

datatype filter_parse_type = filter_parse_pid | filter_parse_comm

section \<open>Single arguments\<close>

definition MAX_NUMBER_OF_SNAPSHOTS :: int where
  "MAX_NUMBER_OF_SNAPSHOTS = 2147483647"

definition parse_integer_arg :: "string \<Rightarrow> int option" where
  "parse_integer_arg arg =
     (let (v, endptr, erange) = c_strtol arg
      in if erange \<or> endptr = arg \<or> endptr \<noteq> [] \<or> v \<le> 0 \<or> INT_MAX < v then None else Some v)"

definition parse_number_of_snapshots :: "string \<Rightarrow> int option" where
  "parse_number_of_snapshots arg =
     (if arg = ''infinity'' then Some MAX_NUMBER_OF_SNAPSHOTS else parse_integer_arg arg)"

definition parse_duration_ms :: "string \<Rightarrow> u64 option" where
  "parse_duration_ms arg =
     (if length arg < 2 then None
      else let (v, endptr, erange) = c_strtol arg
           in if erange \<or> endptr = arg \<or> v \<le> 0 then None
              else if endptr = ''ms'' then Some (word_of_int v)
              else if endptr = ''s'' then Some (word_of_int v * 1000)
              else if endptr = ''m'' then Some (word_of_int v * 60 * 1000)
              else None)"

section \<open>Whitelists\<close>

definition ap_free_arguments :: "ap_arguments \<Rightarrow> ap_arguments" where
  "ap_free_arguments cfg = cfg\<lparr>pid_whitelist := empty_whitelist\<rparr>"

definition AP_INITIAL_FILTER_CAPACITY :: nat where "AP_INITIAL_FILTER_CAPACITY = 8"

text \<open>
  The outcome of an allocation: of each of the two buffers by its new capacity, of the copy of a name by
  its position. A buffer only grows, so within one run every request has its own outcome.
\<close>

record ap_memory =
  realloc_pids_ok :: "nat \<Rightarrow> bool"
  realloc_comms_ok :: "nat \<Rightarrow> bool"
  malloc_ok :: "nat \<Rightarrow> bool"

definition grown_capacity :: "nat \<Rightarrow> nat" where
  "grown_capacity n = (if n = 0 then AP_INITIAL_FILTER_CAPACITY else n * 2)"

definition append_filter_pid ::
    "ap_memory \<Rightarrow> ap_pid_whitelist \<Rightarrow> int \<Rightarrow> parse_args_status \<times> ap_pid_whitelist" where
  "append_filter_pid mem w p =
     (if p \<in> set (filter_pids w) then (parse_args_ok, w)
      else if length (filter_pids w) = filter_pids_capacity w
      then let n = grown_capacity (filter_pids_capacity w)
           in if \<not> realloc_pids_ok mem n then (parse_args_error, w)
              else (parse_args_ok, w\<lparr>filter_pids_capacity := n, filter_pids := filter_pids w @ [p]\<rparr>)
      else (parse_args_ok, w\<lparr>filter_pids := filter_pids w @ [p]\<rparr>))"

definition append_filter_comm ::
    "ap_memory \<Rightarrow> ap_pid_whitelist \<Rightarrow> string \<Rightarrow> parse_args_status \<times> ap_pid_whitelist" where
  "append_filter_comm mem w c =
     (if c \<in> set (filter_comms w) then (parse_args_ok, w)
      else let full = (length (filter_comms w) = filter_comms_capacity w);
               n = grown_capacity (filter_comms_capacity w)
           in if full \<and> \<not> realloc_comms_ok mem n then (parse_args_error, w)
              else let w = (if full then w\<lparr>filter_comms_capacity := n\<rparr> else w)
                   in if \<not> malloc_ok mem (length (filter_comms w)) then (parse_args_error, w)
                      else (parse_args_ok, w\<lparr>filter_comms := filter_comms w @ [c]\<rparr>))"

text \<open>The loop over the digits of a token, with the value so far.\<close>

fun pid_digits :: "string \<Rightarrow> int \<Rightarrow> int option" where
  "pid_digits [] v = Some v"
| "pid_digits (c # cs) v =
     (if \<not> c_isdigit c then None
      else let v = v * 10 + int (digit_val c) in if INT_MAX < v then None else pid_digits cs v)"

definition parse_pid_token :: "string \<Rightarrow> int option" where
  "parse_pid_token tok =
     (if tok = [] then None
      else case pid_digits tok 0 of None \<Rightarrow> None | Some v \<Rightarrow> if v = 0 then None else Some v)"

definition strip_token :: "string \<Rightarrow> string" where
  "strip_token seg = rev (dropWhile c_isspace (rev (dropWhile c_isspace seg)))"

definition append_token ::
    "ap_memory \<Rightarrow> filter_parse_type \<Rightarrow> ap_pid_whitelist \<Rightarrow> string \<Rightarrow> parse_args_status \<times> ap_pid_whitelist" where
  "append_token mem ty w tok = (case ty of
     filter_parse_pid \<Rightarrow>
       (case parse_pid_token tok of None \<Rightarrow> (parse_args_error, w) | Some p \<Rightarrow> append_filter_pid mem w p)
   | filter_parse_comm \<Rightarrow> append_filter_comm mem w tok)"

lemma rest_shorter:
  "dropWhile P s \<noteq> [] \<Longrightarrow> length (dropWhile Q (tl (dropWhile P s))) < length s"
  using length_dropWhile_le [of Q "tl (dropWhile P s)"] length_dropWhile_le [of P s]
  by (cases "dropWhile P s") auto

text \<open>One pass of the endless loop per token; \<open>cursor\<close> is the text still to be read.\<close>

function parse_filter_tokens ::
    "ap_memory \<Rightarrow> filter_parse_type \<Rightarrow> string \<Rightarrow> ap_pid_whitelist \<Rightarrow> parse_args_status \<times> ap_pid_whitelist" where
  "parse_filter_tokens mem ty cursor w =
     (let seg = takeWhile (\<lambda>c. c \<noteq> CHR '','') cursor;
          rest = dropWhile (\<lambda>c. c \<noteq> CHR '','') cursor;
          tok = strip_token seg
      in if tok = [] then (parse_args_error, w)
         else case append_token mem ty w tok of
             (parse_args_error, w') \<Rightarrow> (parse_args_error, w')
           | (parse_args_ok, w') \<Rightarrow>
               if rest = [] then (parse_args_ok, w')
               else let next = dropWhile c_isspace (tl rest)
                    in if next = [] then (parse_args_error, w')
                       else parse_filter_tokens mem ty next w')"
  by pat_completeness auto
termination
  by (relation "measure (\<lambda>(mem, ty, cursor, w). length cursor)") (auto simp: rest_shorter)

declare parse_filter_tokens.simps [simp del]

definition parse_filter_pid_list ::
    "ap_memory \<Rightarrow> string \<Rightarrow> filter_parse_type \<Rightarrow> ap_pid_whitelist \<Rightarrow> parse_args_status \<times> ap_pid_whitelist" where
  "parse_filter_pid_list mem arg ty w =
     (let cursor = dropWhile c_isspace arg
      in if cursor = [] then (parse_args_error, w) else parse_filter_tokens mem ty cursor w)"

section \<open>getopt\_long\<close>

text \<open>
  The options in the order of the table, with the letter returned and whether an argument is
  required, and what the scan of the command line yields: an option with its argument or the
  question mark of an unknown, ambiguous or incomplete option.
\<close>

definition long_opts :: "(string \<times> bool \<times> char) list" where
  "long_opts =
     [(''interval'', True, CHR ''i''), (''count'', True, CHR ''n''), (''cpu_usage'', True, CHR ''c''),
      (''rss_usage'', True, CHR ''r''), (''rss_increase'', True, CHR ''s''), (''rss_delta'', True, CHR ''d''),
      (''bytes_read'', True, CHR ''e''), (''bytes_write'', True, CHR ''f''), (''read_rate'', True, CHR ''g''),
      (''write_rate'', True, CHR ''a''), (''opened_fds'', True, CHR ''p''), (''fds_increase'', True, CHR ''m''),
      (''fds_delta'', True, CHR ''o''), (''filter_by_pid'', True, CHR ''k''), (''filter_by_name'', True, CHR ''l''),
      (''delete_old_files'', False, CHR ''j''), (''version'', False, CHR ''v''), (''help'', False, CHR ''h'')]"

text \<open>The short option string \<^verbatim>\<open>i:n:c:r:s:d:e:f:g:a:m:p:o:k:l:jvh\<close>.\<close>

definition short_opt :: "char \<Rightarrow> bool option" where
  "short_opt c = (if c \<in> set ''incrsdefgampokl'' then Some True
     else if c \<in> set ''jvh'' then Some False else None)"

datatype opt_event = Opt char string | Bad_Option

text \<open>The letters of one word: the events and a last option still waiting for its argument.\<close>

fun short_cluster :: "string \<Rightarrow> opt_event list \<times> char option" where
  "short_cluster [] = ([], None)"
| "short_cluster (c # cs) = (case short_opt c of
     Some True \<Rightarrow> if cs = [] then ([], Some c) else ([Opt c cs], None)
   | Some False \<Rightarrow> (Opt c [] # fst (short_cluster cs), snd (short_cluster cs))
   | None \<Rightarrow> (Bad_Option # fst (short_cluster cs), snd (short_cluster cs)))"

text \<open>An exact name, or the only option that begins with the given text.\<close>

definition find_long :: "string \<Rightarrow> (string \<times> bool \<times> char) option" where
  "find_long name = (case find (\<lambda>(n, _). n = name) long_opts of
     Some x \<Rightarrow> Some x
   | None \<Rightarrow> (case filter (\<lambda>(n, _). prefix name n) long_opts of [x] \<Rightarrow> Some x | _ \<Rightarrow> None))"

text \<open>A word that is no option is passed over, as the permuting scan does.\<close>

fun getopt_long :: "string list \<Rightarrow> opt_event list" where
  "getopt_long [] = []"
| "getopt_long (a # as) =
     (if a = ''--'' then []
      else if take 2 a = ''--'' then
        (let (name, val) = (case split_first (CHR ''='') (drop 2 a) of
               None \<Rightarrow> (drop 2 a, None) | Some (n, v) \<Rightarrow> (n, Some v))
         in case find_long name of
              None \<Rightarrow> Bad_Option # getopt_long as
            | Some (_, False, c) \<Rightarrow> (if val = None then Opt c [] else Bad_Option) # getopt_long as
            | Some (_, True, c) \<Rightarrow> (case val of
                Some v \<Rightarrow> Opt c v # getopt_long as
              | None \<Rightarrow> (case as of [] \<Rightarrow> [Bad_Option] | v # as' \<Rightarrow> Opt c v # getopt_long as')))
      else if 1 < length a \<and> hd a = CHR ''-'' then
        (case short_cluster (tl a) of
           (evs, None) \<Rightarrow> evs @ getopt_long as
         | (evs, Some c) \<Rightarrow> evs @ (case as of [] \<Rightarrow> [Bad_Option] | v # as' \<Rightarrow> Opt c v # getopt_long as'))
      else getopt_long as)"

section \<open>The option switch\<close>

record parse_state =
  p_args :: ap_arguments
  boIntervalProvided :: bool
  boCountProvided :: bool

definition set_metrics ::
    "(process_stats_metrics_arguments \<Rightarrow> process_stats_metrics_arguments) \<Rightarrow> ap_arguments \<Rightarrow> ap_arguments" where
  "set_metrics f a = a\<lparr>end_metrics_args := f (end_metrics_args a)\<rparr>"

definition print_usage :: "string \<Rightarrow> string" where
  "print_usage prog =
     ''Usage: '' @ prog @ '' [options]'' @ nl
     @ ''Options:'' @ nl
     @ ''  -i, --interval <dur>        Interval (e.g. 500ms, 1s, 2m)'' @ nl
     @ ''  -n, --count <N>             Number of snapshots. Use '' @ [CHR 0x22] @ ''infinity'' @ [CHR 0x22] @ '' to collect snapshots until the program is interrupted or terminated'' @ nl
     @ ''  -c, --cpu_usage <N>         Display N processes with the highest average CPU usage at the end of execution'' @ nl
     @ ''  -r, --rss_usage <N>         Display N processes with the highest average RSS usage at the end of execution'' @ nl
     @ ''  -s, --rss_increase <N>      Display N processes with the highest RSS increase at the end of execution'' @ nl
     @ ''  -d, --rss_delta <N>         Display N processes with the highest RSS delta at the end of execution'' @ nl
     @ ''  -e  --bytes_read <N>        Display N processes with the highest amount of KB read from the disk'' @ nl
     @ ''  -f  --bytes_write <N>       Display N processes with the highest amount of KB written to disk'' @ nl
     @ ''  -g  --read_rate <N>         Display N processes with the highest disk read rate (KB/s)'' @ nl
     @ ''  -a  --write_rate <N>        Display N processes with the highest disk write rate (KB/s)'' @ nl
     @ ''  -p  --opened_fds <N>        Display N processes with the highest number of opened file descriptors'' @ nl
     @ ''  -m  --fds_increase <N>      Display N processes with the highest increase in opened file descriptors'' @ nl
     @ ''  -o  --fds_delta <N>         Display N processes with the highest absolute delta in opened file descriptors'' @ nl
     @ ''  -k  --filter_by_pid <pid>   Comma-separated list of PIDs. If not provided all running processes are included'' @ nl
     @ ''  -l  --filter_by_name <name> Comma-separated list of process names.If not provided all running processes are included'' @ nl
     @ ''  -j  --delete_old_files      Delete the files stored during previous executions'' @ nl
     @ ''  -v  --version               Display the version of the tool and returns'' @ nl
     @ ''  -h, --help                  Show this help'' @ nl"

text \<open>
  What a case of the switch does: it goes on with a new state, or it returns the error, with the arguments
  as they are then and the texts on the console and on the error stream.
\<close>

datatype option_result = Go_On parse_state | Refused ap_arguments string string

text \<open>The list is appended entry by entry: where it is invalid, the entries before the error are in.\<close>

definition set_filter ::
    "ap_memory \<Rightarrow> string \<Rightarrow> filter_parse_type \<Rightarrow> parse_state \<Rightarrow> parse_args_status \<times> parse_state" where
  "set_filter mem optarg ty st =
     (case parse_filter_pid_list mem optarg ty (pid_whitelist (p_args st)) of
        (r, w) \<Rightarrow> (r, st\<lparr>p_args := (p_args st)\<lparr>pid_whitelist := w\<rparr>\<rparr>))"

text \<open>The eleven cases that request a metric, and the default case, which is also that of the help.\<close>

definition handle_metric_option :: "string \<Rightarrow> char \<Rightarrow> string \<Rightarrow> parse_state \<Rightarrow> option_result" where
  "handle_metric_option prog opt optarg st =
     (if opt = CHR ''c'' then (case parse_integer_arg optarg of
          None \<Rightarrow> Refused (ap_free_arguments (p_args st)) [] (''Invalid cpu_usage: '' @ optarg @ nl)
        | Some n \<Rightarrow> Go_On (st\<lparr>p_args := set_metrics
            (\<lambda>m. m\<lparr>cpu_average_pids_to_display := n, cpu_average_requested := True\<rparr>) (p_args st)\<rparr>))
      else if opt = CHR ''r'' then (case parse_integer_arg optarg of
          None \<Rightarrow> Refused (ap_free_arguments (p_args st)) [] (''Invalid rss_usage: '' @ optarg @ nl)
        | Some n \<Rightarrow> Go_On (st\<lparr>p_args := set_metrics
            (\<lambda>m. m\<lparr>rss_average_pids_to_display := n, rss_average_requested := True\<rparr>) (p_args st)\<rparr>))
      else if opt = CHR ''s'' then (case parse_integer_arg optarg of
          None \<Rightarrow> Refused (ap_free_arguments (p_args st)) [] (''Invalid rss_increase: '' @ optarg @ nl)
        | Some n \<Rightarrow> Go_On (st\<lparr>p_args := set_metrics
            (\<lambda>m. m\<lparr>rss_increase_pids_to_display := n, rss_increase_requested := True\<rparr>) (p_args st)\<rparr>))
      else if opt = CHR ''d'' then (case parse_integer_arg optarg of
          None \<Rightarrow> Refused (ap_free_arguments (p_args st)) [] (''Invalid rss_delta: '' @ optarg @ nl)
        | Some n \<Rightarrow> Go_On (st\<lparr>p_args := set_metrics
            (\<lambda>m. m\<lparr>rss_delta_pids_to_display := n, rss_delta_requested := True\<rparr>) (p_args st)\<rparr>))
      else if opt = CHR ''e'' then (case parse_integer_arg optarg of
          None \<Rightarrow> Refused (ap_free_arguments (p_args st)) [] (''Invalid bytes_read: '' @ optarg @ nl)
        | Some n \<Rightarrow> Go_On (st\<lparr>p_args := set_metrics
            (\<lambda>m. m\<lparr>bytes_read_pids_to_display := n, bytes_read_requested := True\<rparr>) (p_args st)\<rparr>))
      else if opt = CHR ''f'' then (case parse_integer_arg optarg of
          None \<Rightarrow> Refused (ap_free_arguments (p_args st)) [] (''Invalid bytes_write: '' @ optarg @ nl)
        | Some n \<Rightarrow> Go_On (st\<lparr>p_args := set_metrics
            (\<lambda>m. m\<lparr>bytes_write_pids_to_display := n, bytes_write_requested := True\<rparr>) (p_args st)\<rparr>))
      else if opt = CHR ''g'' then (case parse_integer_arg optarg of
          None \<Rightarrow> Refused (ap_free_arguments (p_args st)) [] (''Invalid read_rate: '' @ optarg @ nl)
        | Some n \<Rightarrow> Go_On (st\<lparr>p_args := set_metrics
            (\<lambda>m. m\<lparr>read_rate_pids_to_display := n, read_rate_requested := True\<rparr>) (p_args st)\<rparr>))
      else if opt = CHR ''a'' then (case parse_integer_arg optarg of
          None \<Rightarrow> Refused (ap_free_arguments (p_args st)) [] (''Invalid write_rate: '' @ optarg @ nl)
        | Some n \<Rightarrow> Go_On (st\<lparr>p_args := set_metrics
            (\<lambda>m. m\<lparr>write_rate_pids_to_display := n, write_rate_requested := True\<rparr>) (p_args st)\<rparr>))
      else if opt = CHR ''m'' then (case parse_integer_arg optarg of
          None \<Rightarrow> Refused (ap_free_arguments (p_args st)) [] (''Invalid FD increase: '' @ optarg @ nl)
        | Some n \<Rightarrow> Go_On (st\<lparr>p_args := set_metrics
            (\<lambda>m. m\<lparr>fds_increase_pids_to_display := n, fds_increase_requested := True\<rparr>) (p_args st)\<rparr>))
      else if opt = CHR ''p'' then (case parse_integer_arg optarg of
          None \<Rightarrow> Refused (ap_free_arguments (p_args st)) [] (''Invalid opened FDs: '' @ optarg @ nl)
        | Some n \<Rightarrow> Go_On (st\<lparr>p_args := set_metrics
            (\<lambda>m. m\<lparr>opened_fds_pids_to_display := n, opened_fds_requested := True\<rparr>) (p_args st)\<rparr>))
      else if opt = CHR ''o'' then (case parse_integer_arg optarg of
          None \<Rightarrow> Refused (ap_free_arguments (p_args st)) [] (''Invalid delta FDs: '' @ optarg @ nl)
        | Some n \<Rightarrow> Go_On (st\<lparr>p_args := set_metrics
            (\<lambda>m. m\<lparr>fds_delta_pids_to_display := n, fds_delta_requested := True\<rparr>) (p_args st)\<rparr>))
      else Refused (ap_free_arguments (p_args st)) (print_usage prog) [])"

text \<open>The other cases.\<close>

definition handle_option :: "ap_memory \<Rightarrow> string \<Rightarrow> char \<Rightarrow> string \<Rightarrow> parse_state \<Rightarrow> option_result" where
  "handle_option mem prog opt optarg st =
     (if opt = CHR ''i'' then (case parse_duration_ms optarg of
          None \<Rightarrow> Refused (ap_free_arguments (p_args st)) [] (''Invalid interval: '' @ optarg @ nl)
        | Some v \<Rightarrow> Go_On (st\<lparr>p_args := (p_args st)\<lparr>interval_ms := v\<rparr>, boIntervalProvided := True\<rparr>))
      else if opt = CHR ''n'' then (case parse_number_of_snapshots optarg of
          None \<Rightarrow> Refused (ap_free_arguments (p_args st)) [] (''Invalid count: '' @ optarg @ nl)
        | Some v \<Rightarrow> Go_On (st\<lparr>p_args := (p_args st)\<lparr>count := v\<rparr>, boCountProvided := True\<rparr>))
      else if opt = CHR ''k'' then (case set_filter mem optarg filter_parse_pid st of
          (parse_args_error, st1) \<Rightarrow>
            Refused (ap_free_arguments (p_args st1)) [] (''Invalid filter_by_pid list: '' @ optarg @ nl)
        | (parse_args_ok, st1) \<Rightarrow> Go_On st1)
      else if opt = CHR ''l'' then (case set_filter mem optarg filter_parse_comm st of
          (parse_args_error, st1) \<Rightarrow>
            Refused (ap_free_arguments (p_args st1)) [] (''Invalid filter_by_name list: '' @ optarg @ nl)
        | (parse_args_ok, st1) \<Rightarrow> Go_On st1)
      else if opt = CHR ''j'' then Go_On (st\<lparr>p_args := (p_args st)\<lparr>delete_old_files := True\<rparr>\<rparr>)
      else if opt = CHR ''v'' then Refused (ap_free_arguments (p_args st)) (PROCESS_ANALYZER_VERSION @ nl) []
      else handle_metric_option prog opt optarg st)"

text \<open>The loop over the options; the question mark of \<^verbatim>\<open>getopt_long\<close> is the default case of the switch.\<close>

fun option_loop :: "ap_memory \<Rightarrow> string \<Rightarrow> opt_event list \<Rightarrow> parse_state \<Rightarrow> option_result" where
  "option_loop mem prog [] st = Go_On st"
| "option_loop mem prog (Bad_Option # evs) st = Refused (ap_free_arguments (p_args st)) (print_usage prog) []"
| "option_loop mem prog (Opt c optarg # evs) st =
     (case handle_option mem prog c optarg st of
        Refused a out err \<Rightarrow> Refused a out err
      | Go_On st1 \<Rightarrow> option_loop mem prog evs st1)"

definition any_metric_requested :: "process_stats_metrics_arguments \<Rightarrow> bool" where
  "any_metric_requested m = (cpu_average_requested m \<or> rss_average_requested m
     \<or> rss_increase_requested m \<or> rss_delta_requested m \<or> bytes_read_requested m
     \<or> bytes_write_requested m \<or> read_rate_requested m \<or> write_rate_requested m
     \<or> fds_increase_requested m \<or> opened_fds_requested m \<or> fds_delta_requested m)"

text \<open>
  \<open>hz\<close> and \<open>cpus\<close> are what \<^verbatim>\<open>sysconf\<close> answers when the statistics module is initialised; the
  result is the status, the arguments, the module's state and the texts on the console and on the error
  stream.
\<close>

type_synonym messages = "string \<times> string"

definition accept_arguments ::
    "config_t \<Rightarrow> int \<Rightarrow> int \<Rightarrow> string \<Rightarrow> parse_state \<Rightarrow> process_stats
     \<Rightarrow> parse_args_status \<times> ap_arguments \<times> process_stats \<times> messages" where
  "accept_arguments conf hz cpus prog st stats =
     (if \<not> boCountProvided st \<or> \<not> boIntervalProvided st
      then (parse_args_error, ap_free_arguments (p_args st), stats, (print_usage prog,
            ''Missing mandatory parameter. Interval provided '' @ show_nat (of_bool (boIntervalProvided st))
            @ '', count provided '' @ show_nat (of_bool (boCountProvided st)) @ ''. Use -i and -n arguments '' @ nl))
      else (parse_args_ok, p_args st,
            if any_metric_requested (end_metrics_args (p_args st))
               \<and> (config_get_metrics_console_enabled conf \<or> config_get_metrics_json_enabled conf)
            then process_stats_initialize hz cpus prog stats else stats, ([], [])))"

definition ap_parse_args ::
    "config_t \<Rightarrow> int \<Rightarrow> int \<Rightarrow> ap_memory \<Rightarrow> string \<Rightarrow> string list \<Rightarrow> ap_arguments \<Rightarrow> process_stats
     \<Rightarrow> parse_args_status \<times> ap_arguments \<times> process_stats \<times> messages" where
  "ap_parse_args conf hz cpus mem prog args cfg stats =
     (let st0 = \<lparr>p_args = ap_free_arguments cfg, boIntervalProvided = False, boCountProvided = False\<rparr>
      in case option_loop mem prog (getopt_long args) st0 of
          Refused a out err \<Rightarrow> (parse_args_error, a, stats, (out, err))
        | Go_On st \<Rightarrow> accept_arguments conf hz cpus prog st stats)"

section \<open>Numbers and durations\<close>

lemma parse_integer_range: "parse_integer_arg arg = Some v \<Longrightarrow> 1 \<le> v \<and> v \<le> INT_MAX"
  by (auto simp: parse_integer_arg_def split: prod.splits if_splits)

lemma parse_integer_show:
  assumes "1 \<le> n" and "int n \<le> INT_MAX"
  shows "parse_integer_arg (show_nat n) = Some (int n)"
proof -
  have "show_nat n \<noteq> []" by simp
  then have "[] \<noteq> show_nat n" by metis
  then show ?thesis
    using assms strtol_show_nat [of "[]" n] by (simp add: parse_integer_arg_def limits_defs)
qed

lemma snapshots_range: "parse_number_of_snapshots arg = Some v \<Longrightarrow> 1 \<le> v \<and> v \<le> INT_MAX"
  using parse_integer_range
  by (auto simp: parse_number_of_snapshots_def MAX_NUMBER_OF_SNAPSHOTS_def INT_MAX_def split: if_splits)

definition unit_ms :: "string \<Rightarrow> nat option" where
  "unit_ms u = (if u = ''ms'' then Some 1 else if u = ''s'' then Some 1000
     else if u = ''m'' then Some 60000 else None)"

lemma parse_duration_show:
  assumes "1 \<le> n" and "int n \<le> LONG_MAX" and "unit_ms u = Some k"
  shows "parse_duration_ms (show_nat n @ u) = Some (of_nat (n * k))"
proof -
  have u: "u = ''ms'' \<and> k = 1 \<or> u = ''s'' \<and> k = 1000 \<or> u = ''m'' \<and> k = 60000"
    using assms(3) by (auto simp: unit_ms_def split: if_splits)
  then have "u = [] \<or> \<not> c_isdigit (hd u)" by (auto simp: c_isdigit_def)
  note st = strtol_show_nat [OF this assms(2)]
  have "0 < length (show_nat n)" by simp
  moreover have "1 \<le> length u" using u by auto
  ultimately have "2 \<le> length (show_nat n @ u)" unfolding length_append by linarith
  moreover have "u \<noteq> show_nat n @ u" by simp
  ultimately show ?thesis using u assms(1) st
    by (auto simp: parse_duration_ms_def ac_simps)
qed

section \<open>Whitelists\<close>

definition wl_ok :: "ap_pid_whitelist \<Rightarrow> bool" where
  "wl_ok w = (distinct (filter_pids w) \<and> length (filter_pids w) \<le> filter_pids_capacity w
     \<and> distinct (filter_comms w) \<and> length (filter_comms w) \<le> filter_comms_capacity w
     \<and> list_all (\<lambda>p. 1 \<le> p \<and> p \<le> INT_MAX) (filter_pids w))"

lemma pid_digits_range: "pid_digits s v = Some r \<Longrightarrow> 0 \<le> v \<Longrightarrow> v \<le> INT_MAX \<Longrightarrow> 0 \<le> r \<and> r \<le> INT_MAX"
  by (induction s v rule: pid_digits.induct) (auto simp: Let_def split: if_splits)

lemma parse_pid_range: "parse_pid_token t = Some p \<Longrightarrow> 1 \<le> p \<and> p \<le> INT_MAX"
  using pid_digits_range [of t 0]
  by (fastforce simp: parse_pid_token_def INT_MAX_def split: if_splits option.splits)

lemma append_pid_ok: "wl_ok w \<Longrightarrow> 1 \<le> p \<Longrightarrow> p \<le> INT_MAX \<Longrightarrow> wl_ok (snd (append_filter_pid mem w p))"
  by (auto simp: append_filter_pid_def wl_ok_def grown_capacity_def AP_INITIAL_FILTER_CAPACITY_def Let_def)

lemma append_comm_ok: "wl_ok w \<Longrightarrow> wl_ok (snd (append_filter_comm mem w c))"
  by (auto simp: append_filter_comm_def wl_ok_def grown_capacity_def AP_INITIAL_FILTER_CAPACITY_def Let_def)

lemma append_token_ok: "wl_ok w \<Longrightarrow> wl_ok (snd (append_token mem ty w tok))"
  using parse_pid_range
  by (auto simp: append_token_def append_comm_ok append_pid_ok
      split: filter_parse_type.splits option.splits)

lemma parse_tokens_ok: "wl_ok w \<Longrightarrow> wl_ok (snd (parse_filter_tokens mem ty cursor w))"
proof (induction mem ty cursor w rule: parse_filter_tokens.induct)
  case (1 mem ty cursor w)
  let ?tok = "strip_token (takeWhile (\<lambda>c. c \<noteq> CHR '','') cursor)"
  obtain st w' where a: "append_token mem ty w ?tok = (st, w')" by fastforce
  have "wl_ok w'" using append_token_ok [OF "1.prems", of mem ty ?tok] a by simp
  then show ?case
    using 1 a by (subst parse_filter_tokens.simps)
      (auto simp: Let_def split: parse_args_status.splits)
qed

lemma filter_list_ok: "wl_ok w \<Longrightarrow> wl_ok (snd (parse_filter_pid_list mem arg ty w))"
  by (simp add: parse_filter_pid_list_def parse_tokens_ok Let_def)

subsection \<open>A list written out\<close>

fun commas :: "string list \<Rightarrow> string" where
  "commas [] = []"
| "commas [t] = t"
| "commas (t # ts) = t @ '','' @ commas ts"

definition token :: "string \<Rightarrow> bool" where
  "token t = (t \<noteq> [] \<and> CHR '','' \<notin> set t \<and> \<not> c_isspace (hd t) \<and> \<not> c_isspace (last t))"

lemma strip_token_id: "token t \<Longrightarrow> strip_token t = t"
  by (simp add: token_def strip_token_def dropWhile_stop hd_rev)

fun append_tokens ::
    "ap_memory \<Rightarrow> filter_parse_type \<Rightarrow> string list \<Rightarrow> ap_pid_whitelist \<Rightarrow> parse_args_status \<times> ap_pid_whitelist" where
  "append_tokens mem ty [] w = (parse_args_ok, w)"
| "append_tokens mem ty (t # ts) w = (case append_token mem ty w t of
     (parse_args_error, w') \<Rightarrow> (parse_args_error, w')
   | (parse_args_ok, w') \<Rightarrow> append_tokens mem ty ts w')"

lemma commas_Cons: "ts \<noteq> [] \<Longrightarrow> commas (t # ts) = t @ CHR '','' # commas ts"
  by (cases ts) auto

lemma commas_start: "ts \<noteq> [] \<Longrightarrow> list_all token ts \<Longrightarrow> commas ts \<noteq> [] \<and> \<not> c_isspace (hd (commas ts))"
  by (induction ts rule: commas.induct) (auto simp: token_def)

lemma comma_split:
  assumes "CHR '','' \<notin> set t"
  shows "takeWhile (\<lambda>c. c \<noteq> CHR '','') (t @ CHR '','' # r) = t"
    and "dropWhile (\<lambda>c. c \<noteq> CHR '','') (t @ CHR '','' # r) = CHR '','' # r"
    and "takeWhile (\<lambda>c. c \<noteq> CHR '','') t = t" and "dropWhile (\<lambda>c. c \<noteq> CHR '','') t = []"
  using assms by (induction t) auto

lemma parse_tokens_commas:
  assumes "ts \<noteq> []" and "list_all token ts"
  shows "parse_filter_tokens mem ty (commas ts) w = append_tokens mem ty ts w"
  using assms
proof (induction ts arbitrary: w)
  case (Cons t ts)
  have t: "token t" "CHR '','' \<notin> set t" "t \<noteq> []" using Cons.prems by (simp_all add: token_def)
  show ?case
  proof (cases "ts = []")
    case True
    then show ?thesis using t
      by (simp add: parse_filter_tokens.simps [of _ _ t] comma_split strip_token_id
          split: prod.splits parse_args_status.splits)
  next
    case False
    have nx: "dropWhile c_isspace (commas ts) = commas ts" "commas ts \<noteq> []"
      using commas_start [OF False] Cons.prems by (simp_all add: dropWhile_stop)
    show ?thesis using t False nx Cons
      by (simp add: commas_Cons parse_filter_tokens.simps [of _ _ "t @ CHR '','' # commas ts"] comma_split
          strip_token_id split: prod.splits parse_args_status.splits)
  qed
qed simp

lemma filter_list_commas:
  assumes "ts \<noteq> []" and "list_all token ts"
  shows "parse_filter_pid_list mem (commas ts) ty w = append_tokens mem ty ts w"
  using parse_tokens_commas [OF assms] commas_start [OF assms]
  by (simp add: parse_filter_pid_list_def dropWhile_stop)

lemma pid_digits_show:
  assumes "list_all c_isdigit ds" and "0 \<le> v" and "v * 10 ^ length ds + int (dec_val ds) \<le> INT_MAX"
  shows "pid_digits ds v = Some (v * 10 ^ length ds + int (dec_val ds))"
  using assms
proof (induction ds arbitrary: v)
  case (Cons c ds)
  have d: "dec_val (c # ds) = digit_val c * 10 ^ length ds + dec_val ds"
  proof (induction ds rule: rev_induct)
    case (snoc x xs)
    then show ?case
      by (simp only: append_Cons [symmetric] dec_val_snoc) (simp add: algebra_simps)
  qed (simp add: dec_val_def)
  let ?v = "v * 10 + int (digit_val c)"
  have e: "?v * 10 ^ length ds + int (dec_val ds) = v * 10 ^ length (c # ds) + int (dec_val (c # ds))"
    by (simp add: d algebra_simps)
  have "?v * 1 \<le> ?v * 10 ^ length ds" using Cons.prems(2) by (intro mult_left_mono) simp_all
  then have "?v \<le> INT_MAX" using Cons.prems(3) unfolding e [symmetric] by simp
  then show ?case using Cons.IH [of ?v] Cons.prems e by simp
qed simp

lemma parse_pid_show: "1 \<le> n \<Longrightarrow> int n \<le> INT_MAX \<Longrightarrow> parse_pid_token (show_nat n) = Some (int n)"
  using pid_digits_show [of "show_nat n" 0] show_nat_digits [of n] by (simp add: parse_pid_token_def)

lemma token_show_nat: "token (show_nat n)"
proof -
  have "c_isdigit (hd (show_nat n))" "c_isdigit (last (show_nat n))"
    using show_nat_digits [of n] by (auto simp: list_all_iff)
  then show ?thesis using show_nat_notin [of "CHR '',''" n]
    by (simp add: token_def isdigit_not_space) (simp add: c_isdigit_def)
qed

definition memory_plenty :: "ap_memory \<Rightarrow> bool" where
  "memory_plenty mem = ((\<forall>n. realloc_pids_ok mem n) \<and> (\<forall>n. realloc_comms_ok mem n) \<and> (\<forall>n. malloc_ok mem n))"

lemma append_pid_plenty:
  "memory_plenty mem \<Longrightarrow> fst (append_filter_pid mem w p) = parse_args_ok
     \<and> set (filter_pids (snd (append_filter_pid mem w p))) = set (filter_pids w) \<union> {p}
     \<and> filter_comms (snd (append_filter_pid mem w p)) = filter_comms w"
  by (auto simp: append_filter_pid_def memory_plenty_def Let_def)

lemma append_comm_plenty:
  "memory_plenty mem \<Longrightarrow> fst (append_filter_comm mem w c) = parse_args_ok
     \<and> set (filter_comms (snd (append_filter_comm mem w c))) = set (filter_comms w) \<union> {c}
     \<and> filter_pids (snd (append_filter_comm mem w c)) = filter_pids w"
  by (auto simp: append_filter_comm_def memory_plenty_def Let_def)

lemma append_pids:
  assumes "memory_plenty mem" and "list_all (\<lambda>n. 1 \<le> n \<and> int n \<le> INT_MAX) ns"
  shows "\<exists>w'. append_tokens mem filter_parse_pid (map show_nat ns) w = (parse_args_ok, w')
    \<and> set (filter_pids w') = set (filter_pids w) \<union> int ` set ns
    \<and> filter_comms w' = filter_comms w"
  using assms(2)
proof (induction ns arbitrary: w)
  case (Cons n ns)
  have "append_token mem filter_parse_pid w (show_nat n) = append_filter_pid mem w (int n)"
    using Cons.prems by (simp add: append_token_def parse_pid_show)
  moreover obtain w1 where "append_filter_pid mem w (int n) = (parse_args_ok, w1)"
      "set (filter_pids w1) = set (filter_pids w) \<union> {int n}" "filter_comms w1 = filter_comms w"
    using append_pid_plenty [OF assms(1), of w "int n"] by (metis prod.collapse)
  ultimately show ?case using Cons.IH [of w1] Cons.prems by auto
qed simp

lemma append_comms:
  assumes "memory_plenty mem"
  shows "\<exists>w'. append_tokens mem filter_parse_comm ts w = (parse_args_ok, w')
    \<and> set (filter_comms w') = set (filter_comms w) \<union> set ts \<and> filter_pids w' = filter_pids w"
proof (induction ts arbitrary: w)
  case (Cons t ts)
  obtain w1 where "append_token mem filter_parse_comm w t = (parse_args_ok, w1)"
      "set (filter_comms w1) = set (filter_comms w) \<union> {t}" "filter_pids w1 = filter_pids w"
    using append_comm_plenty [OF assms, of w t] by (metis append_token_def filter_parse_type.case(2) prod.collapse)
  then show ?case using Cons.IH [of w1] by auto
qed simp

section \<open>The switch keeps the arguments well formed\<close>

definition shown_ok :: "bool \<Rightarrow> int \<Rightarrow> bool" where
  "shown_ok requested n = (requested \<longrightarrow> 1 \<le> n \<and> n \<le> INT_MAX)"

definition metrics_args_ok :: "process_stats_metrics_arguments \<Rightarrow> bool" where
  "metrics_args_ok m =
     (shown_ok (cpu_average_requested m) (cpu_average_pids_to_display m)
      \<and> shown_ok (rss_average_requested m) (rss_average_pids_to_display m)
      \<and> shown_ok (rss_increase_requested m) (rss_increase_pids_to_display m)
      \<and> shown_ok (rss_delta_requested m) (rss_delta_pids_to_display m)
      \<and> shown_ok (bytes_read_requested m) (bytes_read_pids_to_display m)
      \<and> shown_ok (bytes_write_requested m) (bytes_write_pids_to_display m)
      \<and> shown_ok (read_rate_requested m) (read_rate_pids_to_display m)
      \<and> shown_ok (write_rate_requested m) (write_rate_pids_to_display m)
      \<and> shown_ok (fds_increase_requested m) (fds_increase_pids_to_display m)
      \<and> shown_ok (opened_fds_requested m) (opened_fds_pids_to_display m)
      \<and> shown_ok (fds_delta_requested m) (fds_delta_pids_to_display m))"

definition parse_state_ok :: "parse_state \<Rightarrow> bool" where
  "parse_state_ok st = (metrics_args_ok (end_metrics_args (p_args st)) \<and> wl_ok (pid_whitelist (p_args st))
     \<and> (boCountProvided st \<longrightarrow> 1 \<le> count (p_args st) \<and> count (p_args st) \<le> INT_MAX))"

lemma option_step_ok:
  assumes "parse_state_ok st"
  shows "parse_state_ok (st\<lparr>p_args := (p_args st)\<lparr>interval_ms := v\<rparr>, boIntervalProvided := True\<rparr>)"
    and "1 \<le> n \<and> n \<le> INT_MAX \<Longrightarrow>
      parse_state_ok (st\<lparr>p_args := (p_args st)\<lparr>count := n\<rparr>, boCountProvided := True\<rparr>)"
    and "parse_state_ok (st\<lparr>p_args := (p_args st)\<lparr>delete_old_files := True\<rparr>\<rparr>)"
  using assms by (simp_all add: parse_state_ok_def)

lemma set_filter_ok: "set_filter mem a ty st = (r, st') \<Longrightarrow> parse_state_ok st \<Longrightarrow> parse_state_ok st'"
  using filter_list_ok [of "pid_whitelist (p_args st)" mem a ty]
  by (auto simp: set_filter_def parse_state_ok_def split: prod.splits)

lemma freed [simp]: "pid_whitelist (ap_free_arguments a) = empty_whitelist"
  by (simp add: ap_free_arguments_def)

text \<open>What every step of the parser has to give.\<close>

fun result_ok :: "option_result \<Rightarrow> bool" where
  "result_ok (Go_On st) = parse_state_ok st"
| "result_ok (Refused a out err) = (pid_whitelist a = empty_whitelist)"

lemma handle_metric_option_ok:
  assumes "parse_state_ok st"
  shows "result_ok (handle_metric_option prog c a st)"
proof (cases "parse_integer_arg a")
  case None
  then show ?thesis by (simp add: handle_metric_option_def)
next
  case (Some z)
  then show ?thesis
    using assms parse_integer_range [OF Some]
    by (simp add: handle_metric_option_def parse_state_ok_def set_metrics_def metrics_args_ok_def shown_ok_def)
qed

lemma handle_option_ok:
  assumes "parse_state_ok st"
  shows "result_ok (handle_option mem prog c a st)"
  using assms unfolding handle_option_def
  by (auto simp: option_step_ok snapshots_range handle_metric_option_ok dest: set_filter_ok
      split: option.split prod.split parse_args_status.split)

lemma option_loop_ok: "parse_state_ok st \<Longrightarrow> result_ok (option_loop mem prog evs st)"
proof (induction mem prog evs st rule: option_loop.induct)
  case (3 mem prog c a evs st)
  from handle_option_ok [OF "3.prems", of mem prog c a] "3.IH" show ?case
    by (cases "handle_option mem prog c a st") simp_all
qed simp_all

lemma start_ok:
  "metrics_args_ok (end_metrics_args cfg) \<Longrightarrow>
     parse_state_ok \<lparr>p_args = ap_free_arguments cfg, boIntervalProvided = False, boCountProvided = False\<rparr>"
  by (simp add: parse_state_ok_def ap_free_arguments_def wl_ok_def empty_whitelist_def)

section \<open>Properties\<close>

text \<open>C24: When the command line is accepted, the snapshot count and every number of processes to
  show for a requested metric lie between 1 and INT_MAX, and the whitelists hold distinct entries
  within their capacities, the process ids being positive \<^verbatim>\<open>int\<close> values. When it is refused, on
  whichever of the paths (each of the cases of the switch with its own release, after the entries of a
  list that precede the error were added, or at the end for a missing option), both whitelists are
  released and the statistics module is left untouched.\<close>

theorem ap_parse_args_result:
  assumes "ap_parse_args conf hz cpus mem prog args cfg stats = (status, a, stats', msg)"
    and "metrics_args_ok (end_metrics_args cfg)"
  shows "if status = parse_args_ok
    then 1 \<le> count a \<and> count a \<le> INT_MAX \<and> metrics_args_ok (end_metrics_args a) \<and> wl_ok (pid_whitelist a)
    else pid_whitelist a = empty_whitelist \<and> stats' = stats"
proof -
  let ?st = "\<lparr>p_args = ap_free_arguments cfg, boIntervalProvided = False, boCountProvided = False\<rparr>"
  have "result_ok (option_loop mem prog (getopt_long args) ?st)" using start_ok [OF assms(2)] by (rule option_loop_ok)
  then show ?thesis using assms(1)
    by (cases "option_loop mem prog (getopt_long args) ?st")
      (auto simp: ap_parse_args_def accept_arguments_def Let_def parse_state_ok_def split: if_splits)
qed

definition plenty :: ap_memory where
  "plenty = \<lparr>realloc_pids_ok = (\<lambda>_. True), realloc_comms_ok = (\<lambda>_. True), malloc_ok = (\<lambda>_. True)\<rparr>"

lemma plenty [simp]: "memory_plenty plenty"
  by (simp add: memory_plenty_def plenty_def)

lemma demo_command_line:
  "ap_parse_args config_default 100 4 plenty ''pa'' [''-i'', show_nat 500 @ ''ms'', ''--count='' @ show_nat 3]
     zero_arguments process_stats_initial
   = (parse_args_ok, zero_arguments\<lparr>interval_ms := 500, count := 3\<rparr>, process_stats_initial, ([], []))"
proof -
  have "split_first (CHR ''='') (''count'' @ CHR ''='' # show_nat 3) = Some (''count'', show_nat 3)"
    by (rule split_first_append) simp
  then have "getopt_long [''-i'', show_nat 500 @ ''ms'', ''--count='' @ show_nat 3]
      = [Opt (CHR ''i'') (show_nat 500 @ ''ms''), Opt (CHR ''n'') (show_nat 3)]"
    by (simp add: short_opt_def find_long_def long_opts_def)
  moreover have "parse_duration_ms (show_nat 500 @ ''ms'') = Some 500"
    using parse_duration_show [of 500 "''ms''" 1] by (simp add: unit_ms_def LONG_MAX_def)
  moreover have "parse_integer_arg (show_nat 3) = Some 3"
    using parse_integer_show [of 3] by (simp add: INT_MAX_def)
  moreover have "show_nat 3 \<noteq> ''infinity''" by (simp add: show_nat.simps)
  ultimately show ?thesis
    by (simp add: ap_parse_args_def accept_arguments_def handle_option_def handle_metric_option_def parse_number_of_snapshots_def Let_def
        ap_free_arguments_def any_metric_requested_def zero_arguments_def zero_metrics_arguments_def)
qed

lemma demo_bad_list:
  "parse_filter_pid_list plenty ''7,x'' filter_parse_pid empty_whitelist
     = (parse_args_error, empty_whitelist\<lparr>filter_pids := [7], filter_pids_capacity := 8\<rparr>)"
  "fst (ap_parse_args config_default 100 4 plenty ''pa'' [''-k'', ''7,x''] zero_arguments process_stats_initial) = parse_args_error"
  by code_simp+

text \<open>An accepted command line, and one that is refused after the first entry of its list was added.\<close>

theorem ap_parse_args_result_witness:
  "(\<exists>a. ap_parse_args config_default 100 4 plenty ''pa'' [''-i'', show_nat 500 @ ''ms'', ''--count='' @ show_nat 3]
       zero_arguments process_stats_initial = (parse_args_ok, a, process_stats_initial, ([], []))
     \<and> 1 \<le> count a \<and> wl_ok (pid_whitelist a))
   \<and> (\<exists>a msg. ap_parse_args config_default 100 4 plenty ''pa'' [''-k'', ''7,x''] zero_arguments process_stats_initial
         = (parse_args_error, a, process_stats_initial, msg)
     \<and> pid_whitelist a = empty_whitelist)"
proof -
  have cfg: "metrics_args_ok (end_metrics_args zero_arguments)"
    by (simp add: zero_arguments_def zero_metrics_arguments_def metrics_args_ok_def shown_ok_def)
  obtain a st msg where r: "ap_parse_args config_default 100 4 plenty ''pa'' [''-k'', ''7,x''] zero_arguments process_stats_initial
      = (parse_args_error, a, st, msg)"
    using demo_bad_list(2) by (metis prod.collapse)
  then have "pid_whitelist a = empty_whitelist" "st = process_stats_initial"
    using ap_parse_args_result [OF r cfg] by simp_all
  with r ap_parse_args_result [OF demo_command_line cfg] demo_command_line show ?thesis by auto
qed

text \<open>A whitelist written as process ids separated by commas is read back: every id given is
  in the filter and nothing else, each once however often it was given.\<close>

theorem filter_pids_roundtrip:
  assumes "ns \<noteq> []" and "list_all (\<lambda>n. 1 \<le> n \<and> int n \<le> INT_MAX) ns" and "memory_plenty mem"
  shows "\<exists>w. parse_filter_pid_list mem (commas (map show_nat ns)) filter_parse_pid empty_whitelist
      = (parse_args_ok, w) \<and> set (filter_pids w) = int ` set ns \<and> distinct (filter_pids w)"
proof -
  let ?r = "parse_filter_pid_list mem (commas (map show_nat ns)) filter_parse_pid empty_whitelist"
  have "?r = append_tokens mem filter_parse_pid (map show_nat ns) empty_whitelist"
    using assms(1) by (intro filter_list_commas) (simp_all add: list_all_iff token_show_nat)
  then obtain w where w: "?r = (parse_args_ok, w)" "set (filter_pids w) = int ` set ns"
    using append_pids [OF assms(3,2), of empty_whitelist] by (auto simp: empty_whitelist_def)
  have "wl_ok empty_whitelist" by (simp add: wl_ok_def empty_whitelist_def)
  then have "wl_ok w" using filter_list_ok [of empty_whitelist mem _ filter_parse_pid] w(1) by (metis snd_conv)
  with w show ?thesis by (simp add: wl_ok_def)
qed

theorem filter_pids_roundtrip_witness:
  "\<exists>w. parse_filter_pid_list plenty (commas (map show_nat [12, 7, 12])) filter_parse_pid empty_whitelist
      = (parse_args_ok, w) \<and> set (filter_pids w) = {7, 12} \<and> distinct (filter_pids w)"
  using filter_pids_roundtrip [of "[12, 7, 12]" plenty] by (simp add: INT_MAX_def insert_commute)

text \<open>A whitelist of process names separated by commas is read back: exactly the names given,
  each once, for names without commas that neither start nor end with white space.\<close>

theorem filter_comms_roundtrip:
  assumes "ts \<noteq> []" and "list_all token ts" and "memory_plenty mem"
  shows "\<exists>w. parse_filter_pid_list mem (commas ts) filter_parse_comm empty_whitelist
      = (parse_args_ok, w) \<and> set (filter_comms w) = set ts \<and> distinct (filter_comms w)"
proof -
  let ?r = "parse_filter_pid_list mem (commas ts) filter_parse_comm empty_whitelist"
  have "?r = append_tokens mem filter_parse_comm ts empty_whitelist"
    using assms(1,2) by (rule filter_list_commas)
  then obtain w where w: "?r = (parse_args_ok, w)" "set (filter_comms w) = set ts"
    using append_comms [OF assms(3), of ts empty_whitelist] by (auto simp: empty_whitelist_def)
  have "wl_ok empty_whitelist" by (simp add: wl_ok_def empty_whitelist_def)
  then have "wl_ok w" using filter_list_ok [of empty_whitelist mem _ filter_parse_comm] w(1) by (metis snd_conv)
  with w show ?thesis by (simp add: wl_ok_def)
qed

theorem filter_comms_roundtrip_witness:
  "\<exists>w. parse_filter_pid_list plenty (commas [''sh'', ''web worker'']) filter_parse_comm empty_whitelist
      = (parse_args_ok, w) \<and> set (filter_comms w) = {''sh'', ''web worker''} \<and> distinct (filter_comms w)"
  using filter_comms_roundtrip [of "[''sh'', ''web worker'']" plenty]
  by (simp add: token_def c_isspace_def)

text \<open>A duration is read as its number times the milliseconds of its unit, exactly as long as
  the product fits 64 bits.\<close>

theorem duration_roundtrip:
  assumes "1 \<le> n" and "int n \<le> LONG_MAX" and "unit_ms u = Some k" and "n * k < 2 ^ 64"
  shows "map_option unat (parse_duration_ms (show_nat n @ u)) = Some (n * k)"
  using parse_duration_show [OF assms(1-3)] assms(4)
  by (simp only: option.map unat_of_nat option.inject) simp

theorem duration_roundtrip_witness:
  "map_option unat (parse_duration_ms (show_nat 2 @ ''m'')) = Some 120000"
  using duration_roundtrip [of 2 "''m''" 60000] by (simp add: unit_ms_def LONG_MAX_def)

text \<open>The conversion to milliseconds wraps: there is an interval in minutes that passes the
  check for positive numbers and is read as 0 milliseconds.\<close>

theorem duration_wraps: "parse_duration_ms (show_nat (2 ^ 59) @ ''m'') = Some 0"
  using parse_duration_show [of "2 ^ 59" "''m''" 60000] by (simp add: unit_ms_def LONG_MAX_def)

lemma option_table:
  "list_all (\<lambda>(n, a, c). find_long n = Some (n, a, c) \<and> short_opt c = Some a
     \<and> CHR ''='' \<notin> set n \<and> n \<noteq> [] \<and> c \<noteq> CHR ''-'') long_opts"
  by code_simp

text \<open>The three spellings of an option with an argument are the same to the program: the long
  name with an equals sign, the long name with the next word and the letter with the next word.\<close>

theorem option_spellings:
  assumes "(name, True, c) \<in> set long_opts"
  shows "getopt_long ((''--'' @ name @ ''='' @ v) # as) = Opt c v # getopt_long as
    \<and> getopt_long ((''--'' @ name) # v # as) = Opt c v # getopt_long as
    \<and> getopt_long ([CHR ''-'', c] # v # as) = Opt c v # getopt_long as"
proof -
  have f: "find_long name = Some (name, True, c)" and s: "short_opt c = Some True"
      and n: "CHR ''='' \<notin> set name" "name \<noteq> []" "c \<noteq> CHR ''-''"
    using option_table assms by (fastforce simp: list_all_iff)+
  have "split_first (CHR ''='') (name @ CHR ''='' # v) = Some (name, v)"
    using n(1) by (rule split_first_append)
  moreover have "split_first (CHR ''='') name = None" using n(1) by (simp add: split_first_None)
  ultimately show ?thesis using f s n by simp
qed

theorem option_spellings_witness:
  "getopt_long [''--interval=1s''] = [Opt (CHR ''i'') ''1s'']"
  using option_spellings [of "''interval''" "CHR ''i''" "''1s''" "[]"] by (simp add: long_opts_def)

text \<open>With the console switch off the statistics module is never initialised, even with the
  JSON switch on and metrics requested: the getter of the JSON switch reads the console switch.\<close>

theorem json_switch_ignored:
  assumes "\<not> metrics_console_enabled conf"
    and "ap_parse_args conf hz cpus mem prog args cfg stats = (status, a, stats', msg)"
  shows "stats' = stats"
  using assms by (auto simp: ap_parse_args_def accept_arguments_def Let_def config_get_metrics_console_enabled_def
      config_get_metrics_json_enabled_def split: option_result.splits if_splits)

theorem json_switch_ignored_witness:
  "fst (snd (snd (ap_parse_args (config_default\<lparr>metrics_console_enabled := False, metrics_json_enabled := True\<rparr>)
     100 4 plenty ''pa'' [''-c'', ''5'', ''-i'', ''1s'', ''-n'', ''3''] zero_arguments process_stats_initial)))
   = process_stats_initial"
proof -
  let ?r = "ap_parse_args (config_default\<lparr>metrics_console_enabled := False, metrics_json_enabled := True\<rparr>)
     100 4 plenty ''pa'' [''-c'', ''5'', ''-i'', ''1s'', ''-n'', ''3''] zero_arguments process_stats_initial"
  obtain st a s m where r: "?r = (st, a, s, m)" by (metis prod_cases4)
  then show ?thesis using json_switch_ignored [OF _ r] by simp
qed

end
