(* ===== verification/Job_Queue.thy ===== *)
theory Job_Queue
  imports Config
begin

text \<open>
  The queue of \<^verbatim>\<open>src/code/compression/compression_worker.c\<close>: a singly linked list of heap cells
  between the pointers \<^verbatim>\<open>job_head\<close> and \<^verbatim>\<open>job_tail\<close>. The heap is a map from addresses to jobs;
  \<^verbatim>\<open>malloc\<close> is an argument (the address it returned, or none), \<^verbatim>\<open>free\<close> removes a cell. The locale
  \<open>fifo\<close> is what the worker relies on; it is interpreted on the linked list.
\<close>

section \<open>The state and the operations\<close>

record compress_job_t =
  job_path :: string
  next_job :: "nat option"

type_synonym job_heap = "nat \<Rightarrow> compress_job_t option"

record compression_worker =
  jobs :: job_heap
  job_head :: "nat option"
  job_tail :: "nat option"
  worker_running :: bool

definition compression_worker_initial :: compression_worker where
  "compression_worker_initial =
     \<lparr>jobs = (\<lambda>_. None), job_head = None, job_tail = None, worker_running = False\<rparr>"

text \<open>\<^verbatim>\<open>strncpy\<close> into \<^verbatim>\<open>char path[PATH_MAX]\<close> keeps the first \<open>PATH_MAX - 1\<close> characters.\<close>

definition new_job :: "string \<Rightarrow> compress_job_t" where
  "new_job p = \<lparr>job_path = take (PATH_MAX - 1) p, next_job = None\<rparr>"

definition alloc_job :: "nat \<Rightarrow> string \<Rightarrow> compression_worker \<Rightarrow> compression_worker" where
  "alloc_job a p w = w\<lparr>jobs := (jobs w)(a \<mapsto> new_job p)\<rparr>"

definition free_job :: "nat \<Rightarrow> compression_worker \<Rightarrow> compression_worker" where
  "free_job a w = w\<lparr>jobs := (jobs w)(a := None)\<rparr>"

definition set_next :: "nat \<Rightarrow> nat option \<Rightarrow> compression_worker \<Rightarrow> compression_worker" where
  "set_next t n w = w\<lparr>jobs := (jobs w)(t := map_option (\<lambda>j. j\<lparr>next_job := n\<rparr>) (jobs w t))\<rparr>"

definition link_job :: "nat \<Rightarrow> compression_worker \<Rightarrow> compression_worker" where
  "link_job a w =
     (case job_tail w of Some t \<Rightarrow> set_next t (Some a) w | None \<Rightarrow> w\<lparr>job_head := Some a\<rparr>)
       \<lparr>job_tail := Some a\<rparr>"

definition enqueue_no_memory :: string where
  "enqueue_no_memory =
     ''compression_enqueue_file: could not allocate memory for the job'' @ nl"

text \<open>The call of \<^verbatim>\<open>compression_enqueue_file\<close>; \<open>cell\<close> is what \<^verbatim>\<open>malloc\<close> returns in it.\<close>

definition compression_enqueue_file ::
  "config_t \<Rightarrow> nat option \<Rightarrow> string option \<Rightarrow> compression_worker \<Rightarrow> compression_worker \<times> string" where
  "compression_enqueue_file c cell p w =
     (if config_get_compression_enabled c
      then case p of None \<Rightarrow> (w, [])
        | Some s \<Rightarrow> (case cell of None \<Rightarrow> (w, enqueue_no_memory)
            | Some a \<Rightarrow> (link_job a (alloc_job a s w), []))
      else (w, []))"

definition next_of :: "compression_worker \<Rightarrow> nat \<Rightarrow> nat option" where
  "next_of w a = (case jobs w a of Some j \<Rightarrow> next_job j | None \<Rightarrow> None)"

definition take_job :: "compression_worker \<Rightarrow> nat option \<times> compression_worker" where
  "take_job w =
     (let job = job_head w;
          w1 = (case job_head w of Some a \<Rightarrow> w\<lparr>job_head := next_of w a\<rparr> | None \<Rightarrow> w);
          w2 = (if job_head w1 = None then w1\<lparr>job_tail := None\<rparr> else w1)
      in (job, w2))"

text \<open>The clean-up loop at the end of \<^verbatim>\<open>compression_worker_shutdown\<close>; on a cyclic list it never ends.\<close>

partial_function (option) discard_jobs :: "compression_worker \<Rightarrow> compression_worker option" where
  [code]: "discard_jobs w =
     (case job_head w of None \<Rightarrow> Some (w\<lparr>job_tail := None\<rparr>)
      | Some a \<Rightarrow> discard_jobs (free_job a (w\<lparr>job_head := next_of w a\<rparr>)))"

section \<open>The list a heap holds\<close>

fun linked :: "job_heap \<Rightarrow> nat option \<Rightarrow> nat list \<Rightarrow> bool" where
  "linked h p [] = (p = None)"
| "linked h p (a # as) =
     (p = Some a \<and> (case h a of None \<Rightarrow> False | Some j \<Rightarrow> linked h (next_job j) as))"

definition queue_cells :: "compression_worker \<Rightarrow> nat list \<Rightarrow> bool" where
  "queue_cells w as = (linked (jobs w) (job_head w) as \<and> distinct as
     \<and> job_tail w = (if as = [] then None else Some (last as)))"

definition path_of :: "compression_worker \<Rightarrow> nat \<Rightarrow> string" where
  "path_of w a = (case jobs w a of Some j \<Rightarrow> job_path j | None \<Rightarrow> [])"

text \<open>A cell that is ready to be linked: allocated, and with no successor.\<close>

definition ready_job :: "compression_worker \<Rightarrow> nat \<Rightarrow> bool" where
  "ready_job w a = (case jobs w a of None \<Rightarrow> False | Some j \<Rightarrow> next_job j = None)"

lemma linked_cong: "(\<And>a. a \<in> set as \<Longrightarrow> h' a = h a) \<Longrightarrow> linked h' p as = linked h p as"
  by (induction as arbitrary: p) (auto split: option.splits)

lemma linked_upd [simp]: "a \<notin> set as \<Longrightarrow> linked (h(a := x)) p as = linked h p as"
  by (rule linked_cong) auto

lemma linked_alloc: "linked h p as \<Longrightarrow> a \<in> set as \<Longrightarrow> \<exists>j. h a = Some j"
  by (induction as arbitrary: p) (auto split: option.splits)

lemma linked_snoc:
  "linked h p (as @ [t]) \<Longrightarrow> distinct (as @ [t]) \<Longrightarrow> a \<notin> set (as @ [t]) \<Longrightarrow> h a = Some j \<Longrightarrow> next_job j = None
   \<Longrightarrow> linked (h(t := map_option (\<lambda>j. j\<lparr>next_job := Some a\<rparr>) (h t))) p (as @ [t, a])"
  by (induction as arbitrary: p) (auto split: option.splits)

lemma queue_cells_cong:
  assumes "\<And>a. a \<in> set as \<Longrightarrow> jobs w' a = jobs w a"
    and "job_head w' = job_head w" and "job_tail w' = job_tail w"
  shows "queue_cells w' as = queue_cells w as"
  using assms linked_cong [of as "jobs w'" "jobs w"] by (simp add: queue_cells_def)

lemma link_job_cells:
  assumes "queue_cells w as" and "ready_job w a" and "a \<notin> set as"
  shows "queue_cells (link_job a w) (as @ [a])"
proof (cases as rule: rev_cases)
  case Nil
  with assms show ?thesis
    by (auto simp: queue_cells_def link_job_def ready_job_def split: option.splits)
next
  case (snoc bs t)
  obtain j where "jobs w a = Some j" and "next_job j = None"
    using assms(2) by (auto simp: ready_job_def split: option.splits)
  with assms snoc show ?thesis
    using linked_snoc [of "jobs w" "job_head w" bs t a j]
    by (simp add: queue_cells_def link_job_def set_next_def)
qed

lemma link_job_ready:
  "queue_cells w as \<Longrightarrow> ready_job w a \<Longrightarrow> ready_job w b \<Longrightarrow> a \<noteq> b \<Longrightarrow> b \<notin> set as \<Longrightarrow> ready_job (link_job a w) b"
  by (auto simp: link_job_def ready_job_def set_next_def queue_cells_def split: option.splits if_splits)

lemma take_job_Nil: "queue_cells w [] \<Longrightarrow> take_job w = (None, w)"
  by (cases w) (simp add: queue_cells_def take_job_def Let_def)

lemma take_job_Cons:
  assumes "queue_cells w (a # as)"
  shows "fst (take_job w) = Some a \<and> queue_cells (snd (take_job w)) as"
proof -
  obtain j where "jobs w a = Some j" and "job_head w = Some a" and "linked (jobs w) (next_job j) as"
    using assms by (auto simp: queue_cells_def split: option.splits)
  with assms show ?thesis
    by (cases as) (auto simp: take_job_def queue_cells_def next_of_def Let_def)
qed

lemma take_job_jobs [simp]: "jobs (snd (take_job w)) = jobs w"
  by (simp add: take_job_def Let_def split: option.splits)

section \<open>The interface of a queue\<close>

text \<open>Taking until the given number of elements is out.\<close>

fun take_many :: "('s \<Rightarrow> 'x option \<times> 's) \<Rightarrow> nat \<Rightarrow> 's \<Rightarrow> 'x list \<times> 's" where
  "take_many get 0 s = ([], s)"
| "take_many get (Suc n) s = (case get s of (None, s') \<Rightarrow> ([], s')
     | (Some x, s') \<Rightarrow> (case take_many get n s' of (xs, s'') \<Rightarrow> (x # xs, s'')))"

locale fifo =
  fixes holds :: "'s \<Rightarrow> 'x list \<Rightarrow> bool" and ready :: "'s \<Rightarrow> 'x \<Rightarrow> bool"
    and put :: "'x \<Rightarrow> 's \<Rightarrow> 's" and get :: "'s \<Rightarrow> 'x option \<times> 's"
  assumes put_holds: "holds s q \<Longrightarrow> ready s x \<Longrightarrow> x \<notin> set q \<Longrightarrow> holds (put x s) (q @ [x])"
    and put_ready: "holds s q \<Longrightarrow> ready s x \<Longrightarrow> ready s y \<Longrightarrow> x \<noteq> y \<Longrightarrow> y \<notin> set q \<Longrightarrow> ready (put x s) y"
    and get_Nil: "holds s [] \<Longrightarrow> get s = (None, s)"
    and get_Cons: "holds s (x # q) \<Longrightarrow> fst (get s) = Some x \<and> holds (snd (get s)) q"
begin

lemma fold_put:
  "holds s q \<Longrightarrow> distinct (q @ xs) \<Longrightarrow> (\<forall>x \<in> set xs. ready s x) \<Longrightarrow> holds (fold put xs s) (q @ xs)"
proof (induction xs arbitrary: s q)
  case (Cons x xs)
  have "holds (put x s) (q @ [x])" using Cons.prems by (intro put_holds) auto
  moreover have "\<forall>y \<in> set xs. ready (put x s) y"
    using Cons.prems by (auto intro!: put_ready)
  ultimately show ?case using Cons.IH [of "put x s" "q @ [x]"] Cons.prems(2) by simp
qed simp

lemma take_many_all:
  "holds s q \<Longrightarrow> fst (take_many get (length q) s) = q \<and> holds (snd (take_many get (length q) s)) []"
proof (induction q arbitrary: s)
  case (Cons x q)
  note g = get_Cons [OF Cons.prems]
  show ?case using g Cons.IH [of "snd (get s)"] by (cases "get s") (auto split: prod.splits)
qed simp

lemma first_in_first_out:
  assumes "holds s q" and "distinct (q @ xs)" and "\<forall>x \<in> set xs. ready s x"
  shows "fst (take_many get (length q + length xs) (fold put xs s)) = q @ xs"
  using take_many_all [OF fold_put [OF assms]] by simp

end

interpretation jq: fifo queue_cells ready_job link_job take_job
  by unfold_locales (auto intro: link_job_cells link_job_ready simp: take_job_Nil take_job_Cons)

section \<open>Discarding what is left\<close>

lemma discard_jobs_cells:
  assumes "queue_cells w as"
  shows "discard_jobs w =
     Some (w\<lparr>jobs := (\<lambda>a. if a \<in> set as then None else jobs w a), job_head := None, job_tail := None\<rparr>)"
proof -
  have "discard_jobs w =
     Some (w\<lparr>jobs := (\<lambda>a. if a \<in> set as then None else jobs w a), job_head := None, job_tail := None\<rparr>)"
    if "linked (jobs w) (job_head w) as" and "distinct as" for w as
    using that
  proof (induction as arbitrary: w)
    case Nil
    then show ?case by (cases w) (simp add: discard_jobs.simps)
  next
    case (Cons a as)
    then obtain j where j: "jobs w a = Some j" "job_head w = Some a" "linked (jobs w) (next_job j) as"
      by (auto split: option.splits)
    let ?w = "free_job a (w\<lparr>job_head := next_of w a\<rparr>)"
    have "linked (jobs ?w) (job_head ?w) as"
      using j Cons.prems(2) by (simp add: free_job_def next_of_def)
    with Cons have "discard_jobs ?w = Some (?w\<lparr>jobs := (\<lambda>b. if b \<in> set as then None else jobs ?w b),
        job_head := None, job_tail := None\<rparr>)" by simp
    then have "discard_jobs w = Some (?w\<lparr>jobs := (\<lambda>b. if b \<in> set as then None else jobs ?w b),
        job_head := None, job_tail := None\<rparr>)" using j by (subst discard_jobs.simps) simp
    moreover have "(\<lambda>b. if b \<in> set as then None else jobs ?w b) =
        (\<lambda>b. if b \<in> set (a # as) then None else jobs w b)"
      by (auto simp: free_job_def)
    ultimately show ?case by (simp add: free_job_def)
  qed
  then show ?thesis using assms by (simp add: queue_cells_def)
qed

section \<open>Enqueueing through the public function\<close>

definition enqueue_all :: "config_t \<Rightarrow> (nat \<times> string) list \<Rightarrow> compression_worker \<Rightarrow> compression_worker" where
  "enqueue_all c aps w =
     fold (\<lambda>(a, p) w. fst (compression_enqueue_file c (Some a) (Some p) w)) aps w"

lemma path_of_link [simp]: "path_of (link_job a w) b = path_of w b"
  by (auto simp: path_of_def link_job_def set_next_def split: option.splits)

lemma path_of_alloc: "path_of (alloc_job a p w) b = (if b = a then take (PATH_MAX - 1) p else path_of w b)"
  by (simp add: path_of_def alloc_job_def new_job_def)

lemma alloc_job_cells: "a \<notin> set as \<Longrightarrow> queue_cells (alloc_job a p w) as = queue_cells w as"
  by (rule queue_cells_cong) (auto simp: alloc_job_def)

lemma alloc_job_ready [simp]: "ready_job (alloc_job a p w) a"
  by (simp add: ready_job_def alloc_job_def new_job_def)

lemma alloc_link_cells:
  "queue_cells w as \<Longrightarrow> a \<notin> set as \<Longrightarrow> queue_cells (link_job a (alloc_job a p w)) (as @ [a])"
  by (intro jq.put_holds) (simp_all add: alloc_job_cells)

lemma enqueue_all_cells:
  assumes "config_get_compression_enabled c" and "queue_cells w as" and "distinct (as @ map fst aps)"
  shows "queue_cells (enqueue_all c aps w) (as @ map fst aps)
    \<and> map (path_of (enqueue_all c aps w)) (as @ map fst aps)
       = map (path_of w) as @ map (take (PATH_MAX - 1) \<circ> snd) aps"
  using assms(2,3)
proof (induction aps arbitrary: w as)
  case (Cons ap aps)
  obtain a p where ap: "ap = (a, p)" by fastforce
  let ?w = "link_job a (alloc_job a p w)"
  have step: "enqueue_all c (ap # aps) w = enqueue_all c aps ?w"
    using assms(1) by (simp add: enqueue_all_def ap compression_enqueue_file_def)
  have "queue_cells ?w (as @ [a])" using Cons.prems ap by (intro alloc_link_cells) auto
  note IH = Cons.IH [OF this]
  have "map (path_of ?w) (as @ [a]) = map (path_of w) as @ [take (PATH_MAX - 1) p]"
    using Cons.prems(2) ap by (auto simp: path_of_alloc)
  with IH Cons.prems(2) ap step show ?case by simp
qed (simp add: enqueue_all_def)

lemma initial_cells [simp]: "queue_cells compression_worker_initial []"
  by (simp add: queue_cells_def compression_worker_initial_def)

text \<open>Refinement of the linked list by a sequence. When compression is enabled and \<^verbatim>\<open>malloc\<close>
  hands out distinct cells, \<^verbatim>\<open>compression_enqueue_file\<close> followed by the worker's dequeue code gives
  the paths back in the order they were submitted, each cut to \<open>PATH_MAX - 1\<close> characters, and
  then the queue is empty, with both of its pointers NULL.\<close>

theorem compression_queue_fifo:
  assumes "config_get_compression_enabled c" and "distinct (map fst aps)"
  defines "w \<equiv> enqueue_all c aps compression_worker_initial"
  shows "map (path_of w) (fst (take_many take_job (length aps) w)) = map (take (PATH_MAX - 1) \<circ> snd) aps
    \<and> queue_cells (snd (take_many take_job (length aps) w)) []"
proof -
  have cells: "queue_cells w (map fst aps)"
    and paths: "map (path_of w) (map fst aps) = map (take (PATH_MAX - 1) \<circ> snd) aps"
    using enqueue_all_cells [OF assms(1) initial_cells, of aps] assms(2) by (simp_all add: w_def)
  from jq.take_many_all [OF cells] show ?thesis using paths by simp
qed

definition demo_jobs :: "(nat \<times> string) list" where
  "demo_jobs = [(7, ''/o/p.log.1.9.0''), (3, ''/o/p.jsonl.1.9.1''), (5, ''/o/p.log.1.9.2'')]"

definition compressing :: config_t where
  "compressing = config_default\<lparr>compression_enabled := True\<rparr>"

lemma compressing_enabled [simp]: "config_get_compression_enabled compressing"
  by (simp add: compressing_def config_get_compression_enabled_def)

theorem compression_queue_fifo_witness:
  "map (path_of (enqueue_all compressing demo_jobs compression_worker_initial))
     (fst (take_many take_job (length demo_jobs)
        (enqueue_all compressing demo_jobs compression_worker_initial)))
   = [''/o/p.log.1.9.0'', ''/o/p.jsonl.1.9.1'', ''/o/p.log.1.9.2'']"
proof -
  have "map (take (PATH_MAX - 1) \<circ> snd) demo_jobs
      = [''/o/p.log.1.9.0'', ''/o/p.jsonl.1.9.1'', ''/o/p.log.1.9.2'']"
    by (simp add: demo_jobs_def PATH_MAX_def)
  moreover have "distinct (map fst demo_jobs)" by (simp add: demo_jobs_def)
  ultimately show ?thesis using compression_queue_fifo [of compressing demo_jobs] by simp
qed

end
