(* ===== verification/Compression.thy ===== *)
theory Compression
  imports Job_Queue
begin

text \<open>
  What the worker thread of \<^verbatim>\<open>src/code/compression/compression_worker.c\<close> does with one job: find
  the log's base name, compress the rotated file beside it, move the archive to
  \<open><base>.1.gz\<close> and remove the rotated file. Every call may fail, the reading of the rotated file at
  any of its bytes included. zlib is not part of the program: the record \<open>zlib\<close>
  is a parameter, and the law its gzip format promises is the hypothesis \<open>gzip_lossless\<close>.
\<close>

section \<open>Base names\<close>

definition GZ_SUFFIX :: string where "GZ_SUFFIX = ''.gz''"

fun strip_extensions :: "nat \<Rightarrow> string \<Rightarrow> string option" where
  "strip_extensions 0 s = Some s"
| "strip_extensions (Suc n) s =
     (case split_last CHR ''.'' s of None \<Rightarrow> None | Some (before, _) \<Rightarrow> strip_extensions n before)"

text \<open>\<open>None\<close> is the return value \<open>-1\<close>; the argument \<open>sz\<close> is the size of the output buffer.\<close>

definition extract_base_path :: "string option \<Rightarrow> nat \<Rightarrow> string option" where
  "extract_base_path rotated sz =
     (case rotated of None \<Rightarrow> None
      | Some s \<Rightarrow> if sz = 0 then None
          else if length s = 0 \<or> sz \<le> length s then None
          else strip_extensions 3 s)"

section \<open>gzip compression\<close>

text \<open>
  One output stream of zlib, by the buffers written to it so far: what \<^verbatim>\<open>gzwrite\<close> returns for the
  next buffer, the message of \<^verbatim>\<open>gzerror\<close>, and the status of \<^verbatim>\<open>gzclose\<close> with the bytes the file
  holds then.
\<close>

record zlib =
  gzwrite :: "string list \<Rightarrow> string \<Rightarrow> nat"
  gzerror :: "string list \<Rightarrow> string"
  gzclose :: "string list \<Rightarrow> int \<times> string"

text \<open>
  The loop of \<^verbatim>\<open>fread\<close> and \<^verbatim>\<open>gzwrite\<close>: the buffers written, and whether it got to the end of what
  can be read. A read error looks to the loop like the end of the file.
\<close>

function gz_copy :: "zlib \<Rightarrow> string list \<Rightarrow> string \<Rightarrow> string list \<times> bool" where
  "gz_copy z ws rest =
     (if rest = [] then (ws, True)
      else let buffer = take 8192 rest
           in if gzwrite z ws buffer = 0 then (ws, False)
              else gz_copy z (ws @ [buffer]) (drop 8192 rest))"
  by pat_completeness auto
termination by (relation "measure (\<lambda>(z, ws, rest). length rest)") auto

declare gz_copy.simps [simp del]

definition compress_file_gzip ::
  "zlib \<Rightarrow> file_system \<Rightarrow> string \<Rightarrow> string \<Rightarrow> int \<times> file_system \<times> string" where
  "compress_file_gzip z fs src dst =
     (case open_read fs src of
        None \<Rightarrow> (-1, fs, [])
      | Some d \<Rightarrow>
          (case open_write True fs dst of
             (None, fs1) \<Rightarrow> (-2, fs1, [])
           | (Some out, fs1) \<Rightarrow>
               (let (ws, complete) = gz_copy z [] (bytes_read fs (resolve fs src) d);
                    fs2 = append_file out (snd (gzclose z ws)) fs1
                in if complete then (0, fs2, [])
                   else (-3, fs2, ''gzwrite error: '' @ gzerror z ws @ nl))))"

section \<open>One job\<close>

definition process_job :: "zlib \<Rightarrow> file_system \<Rightarrow> string \<Rightarrow> file_system \<times> string" where
  "process_job z fs p =
     (case extract_base_path (Some p) PATH_MAX of
        None \<Rightarrow> (fs, ''failed to extract base path from '' @ p @ nl)
      | Some base \<Rightarrow>
          (let gz_path = p @ GZ_SUFFIX; final_gz_path = base @ ''.1'' @ GZ_SUFFIX
           in if PATH_MAX \<le> length gz_path
              then (fs, ''compression_thread_func: path too long for '' @ p @ nl)
              else if PATH_MAX \<le> length final_gz_path
              then (fs, ''compression_thread_func: final path too long for '' @ p @ nl)
              else case compress_file_gzip z fs p gz_path of
                (rc, fs1, err) \<Rightarrow>
                  if rc = 0
                  then (case sys_rename fs1 gz_path final_gz_path of
                      (Some _, fs2) \<Rightarrow> (fs2, err @ ''compression_thread_func: rename failed ''
                          @ gz_path @ '' -> '' @ final_gz_path @ nl)
                    | (None, fs2) \<Rightarrow> (snd (sys_unlink fs2 p), err))
                  else (fs1, err @ ''compression_thread_func: compression failed for '' @ p @ nl)))"

section \<open>The copy loop\<close>

lemma gz_copy_Nil [simp]: "gz_copy z ws [] = (ws, True)"
  by (simp add: gz_copy.simps)

lemma gz_copy_concat: "gz_copy z ws rest = (vs, True) \<Longrightarrow> concat vs = concat ws @ rest"
proof (induction z ws rest arbitrary: vs rule: gz_copy.induct)
  case (1 z ws rest)
  show ?case
  proof (cases "rest = []")
    case True
    then show ?thesis using "1.prems" by (simp add: gz_copy.simps [of z ws rest])
  next
    case False
    have ok: "gzwrite z ws (take 8192 rest) \<noteq> 0"
      using "1.prems" False by (auto simp: gz_copy.simps [of z ws rest] Let_def split: if_splits)
    with "1.prems" False have "gz_copy z (ws @ [take 8192 rest]) (drop 8192 rest) = (vs, True)"
      by (simp add: gz_copy.simps [of z ws rest] Let_def)
    with "1.IH" [OF False refl ok] have "concat vs = concat (ws @ [take 8192 rest]) @ drop 8192 rest" by simp
    then show ?thesis by simp
  qed
qed

lemma gz_copy_True: "gz_copy z [] d = (ws, True) \<Longrightarrow> concat ws = d"
  using gz_copy_concat [of z "[]" d ws] by simp

lemma gz_copy_complete:
  assumes "\<forall>ws b. gzwrite z ws b \<noteq> 0"
  shows "snd (gz_copy z ws rest)"
  using assms
proof (induction z ws rest rule: gz_copy.induct)
  case (1 z ws rest)
  then show ?case by (cases "rest = []") (auto simp: gz_copy.simps [of z ws rest] Let_def)
qed

text \<open>What zlib's documentation says of a stream that was closed without an error.\<close>

definition gzip_lossless :: "zlib \<Rightarrow> (string \<Rightarrow> string) \<Rightarrow> bool" where
  "gzip_lossless z gunzip =
     (\<forall>ws. fst (gzclose z ws) = 0 \<longrightarrow> gunzip (snd (gzclose z ws)) = concat ws)"

section \<open>The names of rotated files\<close>

definition pending_path :: "string \<Rightarrow> int \<Rightarrow> nat \<Rightarrow> string" where
  "pending_path base t k = base @ ''.1.'' @ show_int t @ ''.'' @ show_nat k"

lemma show_int_notin: "\<not> c_isdigit c \<Longrightarrow> c \<noteq> CHR ''-'' \<Longrightarrow> c \<notin> set (show_int i)"
  by (auto simp: show_int_def dest: show_nat_notin)

lemma separators_no_digits [simp]: "\<not> c_isdigit CHR ''.''" "\<not> c_isdigit CHR ''/''"
  by (simp_all add: c_isdigit_def)

lemma strip_pending: "strip_extensions 3 (pending_path base t k) = Some base"
proof -
  have k: "split_last CHR ''.'' (pending_path base t k) = Some (base @ ''.1.'' @ show_int t, show_nat k)"
    using split_last_append [of "CHR ''.''" "show_nat k" "base @ ''.1.'' @ show_int t"]
    by (simp add: pending_path_def show_nat_notin)
  have t: "split_last CHR ''.'' (base @ ''.1.'' @ show_int t) = Some (base @ ''.1'', show_int t)"
    using split_last_append [of "CHR ''.''" "show_int t" "base @ ''.1''"]
    by (simp add: show_int_notin)
  have one: "split_last CHR ''.'' (base @ ''.1'') = Some (base, ''1'')"
    using split_last_append [of "CHR ''.''" "''1''" base] by simp
  from k t one show ?thesis by (simp add: numeral_3_eq_3)
qed

lemma extract_pending:
  "length (pending_path base t k) < PATH_MAX \<Longrightarrow> extract_base_path (Some (pending_path base t k)) PATH_MAX = Some base"
  by (simp add: extract_base_path_def strip_pending) (simp add: pending_path_def PATH_MAX_def)

lemma length_pending: "length (base @ ''.1.gz'') \<le> length (pending_path base t k @ ''.gz'')"
  by (simp add: pending_path_def)

lemma strip_extensions_None:
  "strip_extensions m s = None \<longleftrightarrow> length (filter (\<lambda>c. c = CHR ''.'') s) < m"
proof (induction m arbitrary: s)
  case (Suc m)
  show ?case
  proof (cases "CHR ''.'' \<in> set s")
    case True
    then obtain a b where s: "s = a @ CHR ''.'' # b" and b: "CHR ''.'' \<notin> set b"
      using split_list_last by fast
    have "filter (\<lambda>c. c = CHR ''.'') b = []" using b by (auto simp: filter_empty_conv)
    with Suc [of a] b show ?thesis by (simp add: s)
  next
    case False
    then have "filter (\<lambda>c. c = CHR ''.'') s = []" by (auto simp: filter_empty_conv)
    moreover have "split_last CHR ''.'' s = None" using False by (simp add: split_last_None)
    ultimately show ?thesis by simp
  qed
qed simp

text \<open>\<^verbatim>\<open>extract_base_path\<close> takes three extensions off: it gives the log's base path back from
  the name a rotation makes, \<open><base>.1.<time>.<counter>\<close>, and it fails exactly for the empty path,
  for a path that does not fit its buffer and for a path with fewer than three dots. So it fails for
  \<open>/dir/ptime.jsonl.1\<close>, for which the comment above it says \<open>/dir/ptime.jsonl\<close>.\<close>

theorem extract_base_path_spec:
  "(extract_base_path (Some s) sz = None
      \<longleftrightarrow> s = [] \<or> sz \<le> length s \<or> length (filter (\<lambda>c. c = CHR ''.'') s) < 3)
   \<and> (if length (pending_path base t k) < sz
      then extract_base_path (Some (pending_path base t k)) sz = Some base
      else extract_base_path (Some (pending_path base t k)) sz = None)
   \<and> extract_base_path (Some ''/dir/ptime.jsonl.1'') PATH_MAX = None"
proof -
  have "extract_base_path (Some s) sz = None
      \<longleftrightarrow> s = [] \<or> sz \<le> length s \<or> length (filter (\<lambda>c. c = CHR ''.'') s) < 3"
    by (auto simp: extract_base_path_def strip_extensions_None)
  moreover have "pending_path base t k \<noteq> []" by (simp add: pending_path_def)
  moreover have "extract_base_path (Some ''/dir/ptime.jsonl.1'') PATH_MAX = None"
    by (simp add: extract_base_path_def strip_extensions_None)
  ultimately show ?thesis by (auto simp: extract_base_path_def strip_pending)
qed

section \<open>One job on the file system\<close>

text \<open>A log in a directory: the names beside it are told apart by their suffixes.\<close>

definition log_name :: "string \<Rightarrow> string \<Rightarrow> bool" where
  "log_name dir n = (dir \<noteq> [] \<and> n \<noteq> [] \<and> CHR ''/'' \<notin> set n)"

definition log_at :: "file_system \<Rightarrow> string \<Rightarrow> string \<Rightarrow> fpath" where
  "log_at fs dir n = resolve fs dir @ [n]"

lemma resolve_log:
  "log_name dir n \<Longrightarrow> CHR ''/'' \<notin> set x \<Longrightarrow> n @ x \<noteq> ''.'' \<Longrightarrow>
   resolve fs (dir @ ''/'' @ n @ x) = log_at fs dir (n @ x)"
  using resolve_join [of dir "n @ x" fs] by (auto simp: log_name_def log_at_def)

lemma log_at_eq [simp]: "log_at fs dir x = log_at fs dir y \<longleftrightarrow> x = y"
  by (simp add: log_at_def)

lemma log_at_update [simp]: "log_at (fs\<lparr>node_at := m\<rparr>) dir x = log_at fs dir x"
  by (simp add: log_at_def)

lemma parent_log [simp]: "parent_ok fs (log_at fs dir x) = is_dir fs (resolve fs dir)"
  by (simp add: parent_ok_def log_at_def)

definition pending :: "file_system \<Rightarrow> string \<Rightarrow> string \<Rightarrow> int \<Rightarrow> nat \<Rightarrow> fpath" where
  "pending fs dir n t k = log_at fs dir (n @ ''.1.'' @ show_int t @ ''.'' @ show_nat k)"

definition archive :: "file_system \<Rightarrow> string \<Rightarrow> string \<Rightarrow> nat \<Rightarrow> fpath" where
  "archive fs dir n i = log_at fs dir (n @ ''.'' @ show_nat i @ ''.gz'')"

definition partial_archive :: "file_system \<Rightarrow> string \<Rightarrow> string \<Rightarrow> int \<Rightarrow> nat \<Rightarrow> fpath" where
  "partial_archive fs dir n t k =
     log_at fs dir (n @ ''.1.'' @ show_int t @ ''.'' @ show_nat k @ ''.gz'')"

lemma beside_update [simp]:
  "pending (fs\<lparr>node_at := m\<rparr>) dir n t k = pending fs dir n t k"
  "archive (fs\<lparr>node_at := m\<rparr>) dir n i = archive fs dir n i"
  "partial_archive (fs\<lparr>node_at := m\<rparr>) dir n t k = partial_archive fs dir n t k"
  by (simp_all add: pending_def archive_def partial_archive_def)

lemma show_nat_1 [simp]: "show_nat (Suc 0) = ''1''"
  by code_simp

lemma pending_names:
  assumes "log_name dir n"
  shows "resolve fs (pending_path (dir @ ''/'' @ n) t k) = pending fs dir n t k"
    and "resolve fs (pending_path (dir @ ''/'' @ n) t k @ GZ_SUFFIX) = partial_archive fs dir n t k"
    and "resolve fs ((dir @ ''/'' @ n) @ ''.1'' @ GZ_SUFFIX) = archive fs dir n 1"
  using assms resolve_log [OF assms, of "''.1.'' @ show_int t @ ''.'' @ show_nat k" fs]
    resolve_log [OF assms, of "''.1.'' @ show_int t @ ''.'' @ show_nat k @ ''.gz''" fs]
    resolve_log [OF assms, of "''.1.gz''" fs]
  by (auto simp: pending_path_def pending_def partial_archive_def archive_def GZ_SUFFIX_def
      log_name_def show_int_notin show_nat_notin)

lemma show_int_digit: "\<exists>c cs. show_int i = c # cs \<and> c \<noteq> CHR ''g''"
  using show_nat_Cons [of "nat i"] by (auto simp: show_int_def c_isdigit_def)

lemma pending_distinct:
  "pending fs dir n t k \<noteq> partial_archive fs dir n t k"
  "pending fs dir n t k \<noteq> archive fs dir n 1"
  "partial_archive fs dir n t k \<noteq> archive fs dir n 1"
  using show_int_digit [of t]
  by (auto simp: pending_def partial_archive_def archive_def)

text \<open>Everything that compressing one file into another can do, the output being no device.\<close>

lemma compress_effect:
  assumes "compress_file_gzip z fs src dst = (rc, fs1, err)"
    and "node_at fs (resolve fs src) = Some (File d)" and "node_at fs (resolve fs dst) \<noteq> Some Special"
  shows "fs1 = fs \<and> rc \<noteq> 0 \<or>
    (\<exists>ws. fs1 = fs\<lparr>node_at := (node_at fs)(resolve fs dst \<mapsto> File (snd (gzclose z ws)))\<rparr>
       \<and> (rc = 0 \<longrightarrow> concat ws = bytes_read fs (resolve fs src) d))"
proof -
  let ?d = "bytes_read fs (resolve fs src) d"
  obtain ws complete where c: "gz_copy z [] ?d = (ws, complete)" by fastforce
  have "complete \<Longrightarrow> concat ws = ?d" using c by (cases complete) (auto dest: gz_copy_True)
  with assms c show ?thesis
    by (auto simp: compress_file_gzip_def open_read_def open_write_def append_file_def Let_def
        split: option.splits prod.splits if_splits node.splits)
qed

text \<open>The three outcomes of a job whose path is a pending path.\<close>

lemma process_job_cases:
  assumes "p = pending_path (dir @ ''/'' @ n) t k"
  shows "fst (process_job z fs p) = fs
    \<or> (\<exists>rc fs1 err. compress_file_gzip z fs p (p @ GZ_SUFFIX) = (rc, fs1, err)
        \<and> (fst (process_job z fs p) = fs1
           \<or> rc = 0 \<and> (\<exists>fs2. sys_rename fs1 (p @ GZ_SUFFIX) ((dir @ ''/'' @ n) @ ''.1'' @ GZ_SUFFIX) = (None, fs2)
                \<and> fst (process_job z fs p) = snd (sys_unlink fs2 p))))"
proof (cases "extract_base_path (Some p) PATH_MAX")
  case None
  then show ?thesis by (simp add: process_job_def)
next
  case (Some b)
  then have b: "b = dir @ ''/'' @ n"
    by (auto simp: assms extract_base_path_def strip_pending split: if_splits)
  show ?thesis
    by (cases "compress_file_gzip z fs p (p @ GZ_SUFFIX)";
        cases "sys_rename (fst (snd (compress_file_gzip z fs p (p @ GZ_SUFFIX)))) (p @ GZ_SUFFIX)
          ((dir @ ''/'' @ n) @ ''.1'' @ GZ_SUFFIX)")
      (auto simp: process_job_def Some b Let_def sys_rename_def split: if_splits option.splits node.splits)
qed

lemma rename_same: "sys_rename fs a b = (Some e, fs') \<Longrightarrow> fs' = fs"
  by (auto simp: sys_rename_def Let_def split: if_splits option.splits node.splits)

lemma rename_moves:
  "sys_rename fs a b = (None, fs') \<Longrightarrow> node_at fs (resolve fs a) = Some (File x) \<Longrightarrow>
   fs' = fs\<lparr>node_at := (node_at fs)(resolve fs a := None, resolve fs b \<mapsto> File x)\<rparr>"
  by (auto simp: sys_rename_def Let_def split: if_splits option.splits node.splits)

lemma unlink_effect:
  "snd (sys_unlink fs s) = fs \<or> snd (sys_unlink fs s) = fs\<lparr>node_at := (node_at fs)(resolve fs s := None)\<rparr>"
  by (auto simp: sys_unlink_def Let_def split: option.splits node.splits)

text \<open>C9: What a failing job can cost. Whatever system calls fail and whatever zlib does, after a job for a
  rotated file either the file is still there with its contents, or it was removed and the archive
  \<open><base>.1.gz\<close> holds what zlib made of its first \<open>m\<close> bytes, where \<open>m\<close> is the whole length unless reading
  the byte at \<open>m\<close> fails; every other file is as before (the temporary archive apart). So a log is lost,
  in part, only by a read error: the worker takes it for the end of the file and still removes the log.\<close>

theorem process_job_safe:
  assumes "log_name dir n" and "node_at fs (pending fs dir n t k) = Some (File d)"
    and "node_at fs (partial_archive fs dir n t k) \<noteq> Some Special"
    and "fs' = fst (process_job z fs (pending_path (dir @ ''/'' @ n) t k))"
  shows "(node_at fs' (pending fs dir n t k) = Some (File d)
      \<or> node_at fs' (pending fs dir n t k) = None
        \<and> (\<exists>ws m. node_at fs' (archive fs dir n 1) = Some (File (snd (gzclose z ws))) \<and> concat ws = take m d
             \<and> (m = length d \<or> m < length d \<and> refuses fs (Read (pending fs dir n t k) m))
             \<and> (\<forall>i < m. \<not> refuses fs (Read (pending fs dir n t k) i))))
    \<and> (\<forall>q. q \<notin> {pending fs dir n t k, partial_archive fs dir n t k, archive fs dir n 1}
          \<longrightarrow> node_at fs' q = node_at fs q)"
proof -
  let ?p = "pending_path (dir @ ''/'' @ n) t k"
  note names = pending_names [OF assms(1)] pending_distinct [of fs dir n t k]
  note distinct = pending_distinct [of fs dir n t k] pending_distinct [of fs dir n t k, symmetric]
  consider "fs' = fs"
    | rc fs1 err where "compress_file_gzip z fs ?p (?p @ GZ_SUFFIX) = (rc, fs1, err)" "fs' = fs1"
    | fs1 err fs2 where "compress_file_gzip z fs ?p (?p @ GZ_SUFFIX) = (0, fs1, err)"
        "sys_rename fs1 (?p @ GZ_SUFFIX) ((dir @ ''/'' @ n) @ ''.1'' @ GZ_SUFFIX) = (None, fs2)"
        "fs' = snd (sys_unlink fs2 ?p)"
    using process_job_cases [of ?p dir n t k z fs] assms(4) by blast
  then show ?thesis
  proof cases
    case 1
    with assms(2) show ?thesis by simp
  next
    case 2
    from compress_effect [OF 2(1)] names assms(2,3) 2(2) distinct show ?thesis by auto
  next
    case 3
    obtain m where m: "m \<le> length d" "bytes_read fs (pending fs dir n t k) d = take m d"
        "\<forall>i < m. \<not> refuses fs (Read (pending fs dir n t k) i)"
        "m < length d \<longrightarrow> refuses fs (Read (pending fs dir n t k) m)"
      by (rule bytes_read_prefix)
    from compress_effect [OF 3(1)] names assms(2,3) obtain ws where ws: "concat ws = bytes_read fs (pending fs dir n t k) d"
      and fs1: "fs1 = fs\<lparr>node_at := (node_at fs)(partial_archive fs dir n t k \<mapsto> File (snd (gzclose z ws)))\<rparr>"
      by auto
    have "fs2 = fs1\<lparr>node_at := (node_at fs1)(partial_archive fs dir n t k := None,
        archive fs dir n 1 \<mapsto> File (snd (gzclose z ws)))\<rparr>"
      using rename_moves [OF 3(2)] fs1 names by simp
    moreover have "m = length d \<or> m < length d \<and> refuses fs (Read (pending fs dir n t k) m)" using m(1,4) by linarith
    ultimately show ?thesis
      using unlink_effect [of fs2 ?p] 3(3) fs1 names ws m(2,3) assms(2) distinct by auto
  qed
qed

lemma pending_path_ends: "pending_path b t k \<noteq> []" "last (pending_path b t k) \<noteq> CHR ''/''"
proof -
  show "pending_path b t k \<noteq> []" by (simp add: pending_path_def)
  have "last (show_nat k) \<noteq> CHR ''/''"
    using last_in_set [of "show_nat k"] show_nat_notin [of "CHR ''/''" k] by fastforce
  then show "last (pending_path b t k) \<noteq> CHR ''/''" by (simp add: pending_path_def)
qed

lemma compress_success:
  assumes "log_name dir n" and "fs_ok fs" and "node_at fs (pending fs dir n t k) = Some (File d)"
    and "node_at fs (partial_archive fs dir n t k) = None" and "\<forall>call. \<not> refuses fs call"
    and "gz_copy z [] d = (ws, True)" and "p = pending_path (dir @ ''/'' @ n) t k"
  shows "compress_file_gzip z fs p (p @ GZ_SUFFIX) =
    (0, fs\<lparr>node_at := (node_at fs)(partial_archive fs dir n t k \<mapsto> File (snd (gzclose z ws)))\<rparr>, [])"
proof -
  have "is_dir fs (resolve fs dir)"
    using fs_ok_parent [OF assms(2,3)] by (simp add: pending_def)
  then have "parent_ok fs (partial_archive fs dir n t k)" by (simp add: partial_archive_def)
  then show ?thesis
    using assms(3-6) pending_names [OF assms(1)] pending_path_ends [of "dir @ ''/'' @ n" t k]
    by (simp add: assms(7) compress_file_gzip_def open_read_def open_write_def append_file_def Let_def
        GZ_SUFFIX_def)
qed

lemma process_job_result:
  assumes "log_name dir n" and "fs_ok fs" and "node_at fs (pending fs dir n t k) = Some (File d)"
    and "node_at fs (partial_archive fs dir n t k) = None" and "\<not> is_dir fs (archive fs dir n 1)"
    and "length (pending_path (dir @ ''/'' @ n) t k) + 3 < PATH_MAX"
    and "\<forall>call. \<not> refuses fs call" and "gz_copy z [] d = (ws, True)"
  shows "process_job z fs (pending_path (dir @ ''/'' @ n) t k) =
    (fs\<lparr>node_at := (node_at fs)(partial_archive fs dir n t k := None,
       archive fs dir n 1 \<mapsto> File (snd (gzclose z ws)), pending fs dir n t k := None)\<rparr>, [])"
proof -
  let ?b = "dir @ ''/'' @ n"
  let ?p = "pending_path ?b t k"
  note names = pending_names [OF assms(1)] and distinct = pending_distinct [of fs dir n t k]
  define fs1 where "fs1 = fs\<lparr>node_at := (node_at fs)(partial_archive fs dir n t k \<mapsto> File (snd (gzclose z ws)))\<rparr>"
  define fs2 where "fs2 = fs\<lparr>node_at := (node_at fs)(partial_archive fs dir n t k := None,
       archive fs dir n 1 \<mapsto> File (snd (gzclose z ws)))\<rparr>"
  have "is_dir fs (resolve fs dir)"
    using fs_ok_parent [OF assms(2,3)] by (simp add: pending_def)
  then have dir: "is_dir fs1 (resolve fs dir)" using assms(4) by (auto simp: fs1_def is_dir_def)
  then have dir': "is_dir fs1 (butlast (archive fs dir n 1))" by (simp add: archive_def log_at_def)
  have rename: "sys_rename fs1 (?p @ GZ_SUFFIX) (?b @ ''.1'' @ GZ_SUFFIX) = (None, fs2)"
    using assms(5,7) names distinct dir' pending_path_ends [of ?b t k]
    by (simp add: sys_rename_def Let_def fs1_def fs2_def is_dir_def parent_ok_def fun_upd_twist)
  have unlink: "snd (sys_unlink fs2 ?p) = fs2\<lparr>node_at := (node_at fs2)(pending fs dir n t k := None)\<rparr>"
    using assms(3,7) names distinct pending_path_ends [of ?b t k]
    by (simp add: sys_unlink_def Let_def fs2_def)
  have base: "extract_base_path (Some ?p) PATH_MAX = Some ?b" using assms(6) by (intro extract_pending) simp
  have len: "length (?p @ GZ_SUFFIX) < PATH_MAX" using assms(6) by (simp add: GZ_SUFFIX_def)
  then have len': "length (?b @ ''.1'' @ GZ_SUFFIX) < PATH_MAX"
    using length_pending [of ?b t k] by (simp add: GZ_SUFFIX_def)
  note compress = compress_success [OF assms(1-4,7,8) refl, folded fs1_def]
  show ?thesis using base len len' compress rename unlink
    by (simp add: process_job_def Let_def fs2_def not_le)
qed

text \<open>C28: A job archives its file. When nothing is refused and zlib reports no error, the rotated
  file is gone, \<open><base>.1.gz\<close> decompresses to its contents, no temporary file is left, and nothing
  else on the disk has changed.\<close>

theorem process_job_archives:
  assumes "log_name dir n" and "fs_ok fs" and "node_at fs (pending fs dir n t k) = Some (File d)"
    and "node_at fs (partial_archive fs dir n t k) = None" and "\<not> is_dir fs (archive fs dir n 1)"
    and "length (pending_path (dir @ ''/'' @ n) t k) + 3 < PATH_MAX"
    and "\<forall>call. \<not> refuses fs call"
    and "gzip_lossless z gunzip" and "\<forall>ws b. gzwrite z ws b \<noteq> 0" and "\<forall>ws. fst (gzclose z ws) = 0"
  shows "\<exists>g. gunzip g = d \<and> process_job z fs (pending_path (dir @ ''/'' @ n) t k) =
    (fs\<lparr>node_at := (node_at fs)(partial_archive fs dir n t k := None, archive fs dir n 1 \<mapsto> File g,
       pending fs dir n t k := None)\<rparr>, [])"
proof -
  obtain ws where ws: "gz_copy z [] d = (ws, True)"
    using gz_copy_complete [OF assms(9), of "[]" d] by (cases "gz_copy z [] d") auto
  have "gunzip (snd (gzclose z ws)) = d"
    using assms(8,10) gz_copy_True [OF ws] by (simp add: gzip_lossless_def)
  with process_job_result [OF assms(1-7) ws] show ?thesis by blast
qed

text \<open>The worker does not look at what \<^verbatim>\<open>gzclose\<close> returns. If closing the archive fails, so
  that its last bytes were never written, the job goes on exactly as if it had succeeded, the
  removal of the rotated file included.\<close>

theorem gzclose_status_ignored:
  "process_job (z\<lparr>gzclose := \<lambda>ws. (status ws, snd (gzclose z ws))\<rparr>) fs p = process_job z fs p"
proof -
  let ?z = "z\<lparr>gzclose := \<lambda>ws. (status ws, snd (gzclose z ws))\<rparr>"
  have "gz_copy ?z ws d = gz_copy z ws d" for ws d
  proof (induction z ws d rule: gz_copy.induct)
    case (1 z ws rest)
    then show ?case
      by (subst (1 2) gz_copy.simps) (simp add: Let_def)
  qed
  then have "compress_file_gzip ?z = compress_file_gzip z"
    by (intro ext) (simp add: compress_file_gzip_def Let_def split: option.split prod.split)
  then show ?thesis unfolding process_job_def by (rule arg_cong)
qed

section \<open>A concrete job\<close>

text \<open>A codec that stores its input: one function that satisfies the law of gzip.\<close>

definition stored :: zlib where
  "stored = \<lparr>gzwrite = (\<lambda>ws b. Suc (length b)), gzerror = (\<lambda>ws. []), gzclose = (\<lambda>ws. (0, concat ws))\<rparr>"

definition rotated_fs :: file_system where
  "rotated_fs = \<lparr>cwd = [], node_at = [[] \<mapsto> Dir, [''o''] \<mapsto> Dir, [''o'', ''p.log.1.9.0''] \<mapsto> File ''abc''],
     refuses = (\<lambda>_. False)\<rparr>"

lemma rotated_fs_ok: "fs_ok rotated_fs"
  by (auto simp: fs_ok_def rotated_fs_def is_dir_def parent_ok_def split: if_splits)

lemma show_digit_values [simp]: "show_int 9 = ''9''" "show_nat 0 = ''0''"
  by code_simp+

lemma rotated_fs_names [simp]:
  "log_name ''/o'' ''p.log''"
  "pending rotated_fs ''/o'' ''p.log'' 9 0 = [''o'', ''p.log.1.9.0'']"
  "partial_archive rotated_fs ''/o'' ''p.log'' 9 0 = [''o'', ''p.log.1.9.0.gz'']"
  "archive rotated_fs ''/o'' ''p.log'' (Suc 0) = [''o'', ''p.log.1.gz'']"
  "pending_path ''/o/p.log'' 9 0 = ''/o/p.log.1.9.0''"
  by (simp_all add: log_name_def pending_def partial_archive_def archive_def log_at_def resolve_def
      absolute_def components_def pending_path_def)

lemma rotated_fs_nodes [simp]:
  "node_at rotated_fs [''o'', ''p.log.1.9.0''] = Some (File ''abc'')"
  "node_at rotated_fs [''o'', ''p.log.1.9.0.gz''] = None"
  "node_at rotated_fs [''o'', ''p.log.1.gz''] = None"
  "\<not> refuses rotated_fs call"
  by (simp_all add: rotated_fs_def)

lemma stored_lossless: "gzip_lossless stored id"
  by (simp add: gzip_lossless_def stored_def)

theorem process_job_archives_witness:
  "\<exists>g. id g = ''abc'' \<and> process_job stored rotated_fs ''/o/p.log.1.9.0'' =
    (rotated_fs\<lparr>node_at := (node_at rotated_fs)([''o'', ''p.log.1.9.0.gz''] := None,
       [''o'', ''p.log.1.gz''] \<mapsto> File g, [''o'', ''p.log.1.9.0''] := None)\<rparr>, [])"
  using process_job_archives [of "''/o''" "''p.log''" rotated_fs 9 0 "''abc''" stored id]
  by (simp add: rotated_fs_ok is_dir_def PATH_MAX_def stored_lossless) (simp add: stored_def)

text \<open>The same disk with a bad block: the second byte of the rotated file cannot be read.\<close>

definition damaged_fs :: file_system where
  "damaged_fs = rotated_fs\<lparr>refuses := (\<lambda>call. call = Read [''o'', ''p.log.1.9.0''] 1)\<rparr>"

lemma damaged_fs_names [simp]:
  "pending damaged_fs ''/o'' ''p.log'' 9 0 = [''o'', ''p.log.1.9.0'']"
  "partial_archive damaged_fs ''/o'' ''p.log'' 9 0 = [''o'', ''p.log.1.9.0.gz'']"
  "archive damaged_fs ''/o'' ''p.log'' (Suc 0) = [''o'', ''p.log.1.gz'']"
  "node_at damaged_fs = node_at rotated_fs" "refuses damaged_fs (Read [''o'', ''p.log.1.9.0''] i) = (i = 1)"
  by (simp_all add: pending_def partial_archive_def archive_def log_at_def resolve_def absolute_def components_def damaged_fs_def)

lemma fault_free_job:
  "node_at (fst (process_job stored rotated_fs ''/o/p.log.1.9.0'')) [''o'', ''p.log.1.9.0''] = None"
  by code_simp

lemma damaged_fs_job:
  "node_at (fst (process_job stored damaged_fs ''/o/p.log.1.9.0'')) [''o'', ''p.log.1.9.0''] = None"
  by code_simp

theorem process_job_safe_witness:
  "(\<exists>fs'. fs' = fst (process_job stored rotated_fs ''/o/p.log.1.9.0'')
    \<and> node_at fs' [''o'', ''p.log.1.9.0''] = None \<and> node_at fs' [''o'', ''p.log.1.gz''] = Some (File ''abc''))
   \<and> (\<exists>fs'. fs' = fst (process_job stored damaged_fs ''/o/p.log.1.9.0'')
    \<and> node_at fs' [''o'', ''p.log.1.9.0''] = None \<and> node_at fs' [''o'', ''p.log.1.gz''] = Some (File ''a''))"
proof -
  let ?r = "fst (process_job stored rotated_fs ''/o/p.log.1.9.0'')" and ?b = "fst (process_job stored damaged_fs ''/o/p.log.1.9.0'')"
  have "\<exists>ws m. node_at ?r [''o'', ''p.log.1.gz''] = Some (File (snd (gzclose stored ws))) \<and> concat ws = take m ''abc'' \<and> m = 3"
    using process_job_safe [of "''/o''" "''p.log''" rotated_fs 9 0 "''abc''" _ stored, OF _ _ _ refl] fault_free_job by simp
  then have r: "node_at ?r [''o'', ''p.log.1.gz''] = Some (File ''abc'')" by (auto simp: stored_def)
  have "\<exists>ws m. node_at ?b [''o'', ''p.log.1.gz''] = Some (File (snd (gzclose stored ws))) \<and> concat ws = take m ''abc''
      \<and> (m = 3 \<or> m < 3 \<and> m = 1) \<and> (\<forall>i < m. i \<noteq> 1)"
    using process_job_safe [of "''/o''" "''p.log''" damaged_fs 9 0 "''abc''" _ stored, OF _ _ _ refl] damaged_fs_job
    by (simp add: numeral_3_eq_3)
  then obtain ws m where b: "node_at ?b [''o'', ''p.log.1.gz''] = Some (File (snd (gzclose stored ws)))" "concat ws = take m ''abc''"
      and "m = 3 \<or> m = 1" and "\<forall>i < m. i \<noteq> 1" by blast
  then have "m = 1" by (auto dest: spec [of _ 1])
  with b have "node_at ?b [''o'', ''p.log.1.gz''] = Some (File ''a'')" by (simp add: stored_def)
  with r fault_free_job damaged_fs_job show ?thesis by blast
qed

end
