(* ===== verification/Compression_Worker.thy ===== *)
theory Compression_Worker
  imports Compression
begin

text \<open>
  The two threads of \<^verbatim>\<open>src/code/compression/compression_worker.c\<close>: the worker of
  \<^verbatim>\<open>compression_thread_func\<close> and the thread that calls the public functions. A state says where
  each of them is, who owns \<^verbatim>\<open>job_mutex\<close>, and what the queue, the disk and standard error hold. An
  action is one step of one thread; code between \<^verbatim>\<open>pthread_mutex_lock\<close> and the next unlock or
  wait is one step, taken by the owner of the mutex. The lists \<open>submitted\<close> and \<open>finished\<close> record
  the paths that were linked into the queue and the paths whose job is over.
\<close>

section \<open>States\<close>

datatype thread = Caller | Worker

datatype worker_pc = W_Unborn | W_Lock | W_Test | W_Wait | W_Relock | W_Job nat | W_Exit

datatype caller_pc = C_Out | C_Enqueue nat | C_Link nat | C_Shutdown | C_Stop | C_Join | C_Done

record compression_system =
  worker :: compression_worker
  job_mutex :: "thread option"
  wpc :: worker_pc
  cpc :: caller_pc
  disk :: file_system
  err_log :: string
  submitted :: "string list"
  finished :: "string list"

definition system_initial :: "file_system \<Rightarrow> compression_system" where
  "system_initial fs = \<lparr>worker = compression_worker_initial, job_mutex = None, wpc = W_Unborn,
     cpc = C_Out, disk = fs, err_log = [], submitted = [], finished = []\<rparr>"

section \<open>Steps\<close>

text \<open>\<^verbatim>\<open>pthread_cond_signal\<close>: the worker is the only thread that waits on \<^verbatim>\<open>job_cond\<close>.\<close>

definition cond_signal :: "compression_system \<Rightarrow> compression_system" where
  "cond_signal s = (if wpc s = W_Wait then s\<lparr>wpc := W_Relock\<rparr> else s)"

text \<open>
  The steps of the calling thread. \<open>Call_Enqueue cell p\<close> is the part of
  \<^verbatim>\<open>compression_enqueue_file\<close> before the lock, \<open>Link\<close> its critical section; \<open>Call_Shutdown\<close>,
  \<open>Stop\<close> and \<open>Join\<close> are the parts of \<^verbatim>\<open>compression_worker_shutdown\<close>; \<open>Caller_Disk\<close> is whatever
  the caller does to the disk between its calls.
\<close>

datatype caller_action = Call_Init | Call_Enqueue "nat option" string | Caller_Lock | Link
  | Call_Shutdown | Stop | Join | Caller_Disk file_system

fun caller_act :: "config_t \<Rightarrow> caller_action \<Rightarrow> compression_system \<Rightarrow> compression_system option" where
  "caller_act c Call_Init s =
     (if cpc s = C_Out \<and> wpc s = W_Unborn \<and> config_get_compression_enabled c
      then Some (s\<lparr>worker := (worker s)\<lparr>worker_running := True\<rparr>, wpc := W_Lock\<rparr>) else None)"
| "caller_act c (Call_Enqueue cell p) s =
     (if cpc s = C_Out \<and> config_get_compression_enabled c
      then case cell of
          None \<Rightarrow> Some (s\<lparr>err_log := err_log s @ enqueue_no_memory\<rparr>)
        | Some a \<Rightarrow> if jobs (worker s) a = None
            then Some (s\<lparr>worker := alloc_job a p (worker s), cpc := C_Enqueue a\<rparr>) else None
      else None)"
| "caller_act c Caller_Lock s =
     (if job_mutex s = None
      then case cpc s of C_Enqueue a \<Rightarrow> Some (s\<lparr>job_mutex := Some Caller, cpc := C_Link a\<rparr>)
        | C_Shutdown \<Rightarrow> Some (s\<lparr>job_mutex := Some Caller, cpc := C_Stop\<rparr>)
        | _ \<Rightarrow> None
      else None)"
| "caller_act c Link s =
     (case cpc s of C_Link a \<Rightarrow>
         Some ((cond_signal (s\<lparr>worker := link_job a (worker s)\<rparr>))
           \<lparr>job_mutex := None, cpc := C_Out, submitted := submitted s @ [path_of (worker s) a]\<rparr>)
      | _ \<Rightarrow> None)"
| "caller_act c Call_Shutdown s =
     (if cpc s = C_Out \<and> wpc s \<noteq> W_Unborn \<and> config_get_compression_enabled c
      then Some (s\<lparr>cpc := C_Shutdown\<rparr>) else None)"
| "caller_act c Stop s =
     (if cpc s = C_Stop
      then Some ((cond_signal (s\<lparr>worker := (worker s)\<lparr>worker_running := False\<rparr>\<rparr>))
        \<lparr>job_mutex := None, cpc := C_Join\<rparr>) else None)"
| "caller_act c Join s =
     (if cpc s = C_Join \<and> wpc s = W_Exit
      then map_option (\<lambda>w. s\<lparr>worker := w, cpc := C_Done\<rparr>) (discard_jobs (worker s)) else None)"
| "caller_act c (Caller_Disk fs) s = (if cpc s = C_Out then Some (s\<lparr>disk := fs\<rparr>) else None)"

text \<open>
  The steps of the worker. \<open>Worker_Lock\<close> gets the mutex, at the top of the loop or coming back
  from \<^verbatim>\<open>pthread_cond_wait\<close>; \<open>Test\<close> is the rest of the critical section (wait, leave, or take a
  job); \<open>Spurious\<close> is a wake-up nobody asked for; \<open>Process\<close> is the work outside the mutex.
\<close>

datatype worker_action = Worker_Lock | Test | Spurious | Process

fun worker_act :: "zlib \<Rightarrow> worker_action \<Rightarrow> compression_system \<Rightarrow> compression_system option" where
  "worker_act z Worker_Lock s =
     (if job_mutex s = None \<and> (wpc s = W_Lock \<or> wpc s = W_Relock)
      then Some (s\<lparr>job_mutex := Some Worker, wpc := W_Test\<rparr>) else None)"
| "worker_act z Test s =
     (if wpc s = W_Test
      then if worker_running (worker s) \<and> job_head (worker s) = None
        then Some (s\<lparr>job_mutex := None, wpc := W_Wait\<rparr>)
        else if \<not> worker_running (worker s) \<and> job_head (worker s) = None
        then Some (s\<lparr>job_mutex := None, wpc := W_Exit\<rparr>)
        else case take_job (worker s) of
            (None, w) \<Rightarrow> Some (s\<lparr>worker := w, job_mutex := None, wpc := W_Lock\<rparr>)
          | (Some a, w) \<Rightarrow> Some (s\<lparr>worker := w, job_mutex := None, wpc := W_Job a\<rparr>)
      else None)"
| "worker_act z Spurious s = (if wpc s = W_Wait then Some (s\<lparr>wpc := W_Relock\<rparr>) else None)"
| "worker_act z Process s =
     (case wpc s of W_Job a \<Rightarrow>
         (let p = path_of (worker s) a; result = process_job z (disk s) p
          in Some (s\<lparr>worker := free_job a (worker s), disk := fst result,
               err_log := err_log s @ snd result, wpc := W_Lock, finished := finished s @ [p]\<rparr>))
      | _ \<Rightarrow> None)"

datatype action = By_Caller caller_action | By_Worker worker_action

definition act :: "config_t \<Rightarrow> zlib \<Rightarrow> action \<Rightarrow> compression_system \<Rightarrow> compression_system option" where
  "act c z a s = (case a of By_Caller x \<Rightarrow> caller_act c x s | By_Worker x \<Rightarrow> worker_act z x s)"

fun run_actions :: "config_t \<Rightarrow> zlib \<Rightarrow> action list \<Rightarrow> compression_system \<Rightarrow> compression_system option" where
  "run_actions c z [] s = Some s"
| "run_actions c z (a # as) s =
     (case act c z a s of None \<Rightarrow> None | Some s' \<Rightarrow> run_actions c z as s')"

inductive reachable :: "config_t \<Rightarrow> zlib \<Rightarrow> file_system \<Rightarrow> compression_system \<Rightarrow> bool"
  for c :: config_t and z :: zlib and fs :: file_system where
  initial: "reachable c z fs (system_initial fs)"
| step: "reachable c z fs s \<Longrightarrow> act c z a s = Some s' \<Longrightarrow> reachable c z fs s'"

section \<open>The invariant\<close>

definition caller_cells :: "caller_pc \<Rightarrow> nat list" where
  "caller_cells p = (case p of C_Enqueue a \<Rightarrow> [a] | C_Link a \<Rightarrow> [a] | _ \<Rightarrow> [])"

definition worker_cells :: "worker_pc \<Rightarrow> nat list" where
  "worker_cells p = (case p of W_Job a \<Rightarrow> [a] | _ \<Rightarrow> [])"

text \<open>Every allocated cell has one owner: the caller, the worker, or the queue.\<close>

definition cells_inv :: "compression_system \<Rightarrow> nat list \<Rightarrow> bool" where
  "cells_inv s q = (queue_cells (worker s) q
     \<and> distinct (caller_cells (cpc s) @ worker_cells (wpc s) @ q)
     \<and> (\<forall>a. jobs (worker s) a \<noteq> None \<longleftrightarrow> a \<in> set (caller_cells (cpc s) @ worker_cells (wpc s) @ q))
     \<and> list_all (ready_job (worker s)) (caller_cells (cpc s)))"

definition ledger_inv :: "compression_system \<Rightarrow> nat list \<Rightarrow> bool" where
  "ledger_inv s q =
     (submitted s = finished s @ map (path_of (worker s)) (worker_cells (wpc s) @ q))"

definition mutex_inv :: "compression_system \<Rightarrow> bool" where
  "mutex_inv s = ((job_mutex s = Some Caller \<longleftrightarrow> (\<exists>a. cpc s = C_Link a) \<or> cpc s = C_Stop)
     \<and> (job_mutex s = Some Worker \<longleftrightarrow> wpc s = W_Test))"

text \<open>The worker sleeps only while it runs with an empty queue, and leaves only at the end.\<close>

definition sleep_ok :: "worker_pc \<Rightarrow> caller_pc \<Rightarrow> bool \<Rightarrow> nat option \<Rightarrow> bool" where
  "sleep_ok wp cp running head = ((wp = W_Wait \<longrightarrow> running \<and> head = None)
     \<and> (wp = W_Exit \<longrightarrow> \<not> running \<and> head = None)
     \<and> (wp = W_Unborn \<longrightarrow> cp \<notin> {C_Shutdown, C_Stop, C_Join, C_Done})
     \<and> (wp \<noteq> W_Unborn \<longrightarrow> (running \<longleftrightarrow> cp \<noteq> C_Join \<and> cp \<noteq> C_Done))
     \<and> (cp = C_Done \<longrightarrow> wp = W_Exit))"

definition sleep_inv :: "compression_system \<Rightarrow> bool" where
  "sleep_inv s = sleep_ok (wpc s) (cpc s) (worker_running (worker s)) (job_head (worker s))"

definition system_inv :: "compression_system \<Rightarrow> bool" where
  "system_inv s = ((\<exists>q. cells_inv s q \<and> ledger_inv s q) \<and> mutex_inv s \<and> sleep_inv s)"

lemma queue_cells_head: "queue_cells w q \<Longrightarrow> job_head w = None \<longleftrightarrow> q = []"
  by (cases q) (auto simp: queue_cells_def)

lemma jobs_link_None [simp]: "jobs (link_job a w) b = None \<longleftrightarrow> jobs w b = None"
  by (simp add: link_job_def set_next_def split: option.split)

lemma link_job_running [simp]: "worker_running (link_job a w) = worker_running w"
  by (simp add: link_job_def set_next_def split: option.split)

lemma alloc_job_simps [simp]:
  "job_head (alloc_job a p w) = job_head w" "worker_running (alloc_job a p w) = worker_running w"
  "jobs (alloc_job a p w) b = (if b = a then Some (new_job p) else jobs w b)"
  by (simp_all add: alloc_job_def)

lemma free_job_simps [simp]:
  "job_head (free_job a w) = job_head w" "worker_running (free_job a w) = worker_running w"
  "jobs (free_job a w) b = (if b = a then None else jobs w b)"
  by (simp_all add: free_job_def)

lemma take_job_running [simp]: "worker_running (snd (take_job w)) = worker_running w"
  by (simp add: take_job_def Let_def split: option.split)

lemma path_of_take [simp]: "path_of (snd (take_job w)) a = path_of w a"
  by (simp add: path_of_def)

lemma path_of_free: "path_of (free_job a w) b = (if b = a then [] else path_of w b)"
  by (simp add: path_of_def)

lemma running_update [simp]:
  "queue_cells (w\<lparr>worker_running := b\<rparr>) q = queue_cells w q"
  "path_of (w\<lparr>worker_running := b\<rparr>) a = path_of w a"
  "ready_job (w\<lparr>worker_running := b\<rparr>) a = ready_job w a"
  by (simp_all add: queue_cells_def path_of_def ready_job_def)

lemma free_job_cells: "a \<notin> set q \<Longrightarrow> queue_cells (free_job a w) q = queue_cells w q"
  by (rule queue_cells_cong) (auto simp: free_job_def)

lemma free_job_ready: "ready_job (free_job a w) b = (b \<noteq> a \<and> ready_job w b)"
  by (simp add: ready_job_def)

lemma take_job_ready [simp]: "ready_job (snd (take_job w)) b = ready_job w b"
  by (simp add: ready_job_def)

lemma cells_of_pcs [simp]:
  "caller_cells C_Out = []" "caller_cells (C_Enqueue a) = [a]" "caller_cells (C_Link a) = [a]"
  "caller_cells C_Shutdown = []" "caller_cells C_Stop = []" "caller_cells C_Join = []"
  "caller_cells C_Done = []" "worker_cells W_Unborn = []" "worker_cells W_Lock = []"
  "worker_cells W_Test = []" "worker_cells W_Wait = []" "worker_cells W_Relock = []"
  "worker_cells (W_Job a) = [a]" "worker_cells W_Exit = []"
  by (simp_all add: caller_cells_def worker_cells_def)

text \<open>Only the worker's job and the calls that move a cell change who owns what.\<close>

lemma signal_fields [simp]:
  "worker (cond_signal s) = worker s" "worker_cells (wpc (cond_signal s)) = worker_cells (wpc s)"
  "cpc (cond_signal s) = cpc s" "finished (cond_signal s) = finished s"
  "submitted (cond_signal s) = submitted s" "job_mutex (cond_signal s) = job_mutex s"
  "wpc (cond_signal s) \<noteq> W_Wait" "wpc (cond_signal s) = W_Unborn \<longleftrightarrow> wpc s = W_Unborn"
  "wpc (cond_signal s) = W_Exit \<longleftrightarrow> wpc s = W_Exit" "wpc (cond_signal s) = W_Test \<longleftrightarrow> wpc s = W_Test"
  by (simp_all add: cond_signal_def)

lemma cells_same:
  assumes "cells_inv s q" and "ledger_inv s q" and "worker_cells (wpc s') = worker_cells (wpc s)"
    and "caller_cells (cpc s') = caller_cells (cpc s)"
    and "submitted s' = submitted s" and "finished s' = finished s"
    and "\<exists>b. worker s' = (worker s)\<lparr>worker_running := b\<rparr>"
  shows "cells_inv s' q \<and> ledger_inv s' q"
  using assms by (auto simp: cells_inv_def ledger_inv_def list_all_iff)

lemma same_running: "\<exists>b. w = w\<lparr>worker_running := b\<rparr>"
  by (rule exI [of _ "worker_running w"]) simp

lemma caller_cells_step:
  assumes "caller_act c a s = Some s'" and "cells_inv s q" and "ledger_inv s q"
    and "wpc s = W_Exit \<longrightarrow> job_head (worker s) = None"
  shows "\<exists>q'. cells_inv s' q' \<and> ledger_inv s' q'"
proof (cases a)
  case (Call_Enqueue cell p)
  show ?thesis
  proof (cases cell)
    case None
    with assms(1) Call_Enqueue show ?thesis
      by (intro exI [of _ q], intro cells_same [OF assms(2,3)])
        (auto split: if_splits intro: same_running)
  next
    case (Some b)
    with assms Call_Enqueue have s': "s' = s\<lparr>worker := alloc_job b p (worker s), cpc := C_Enqueue b\<rparr>"
      and b: "cpc s = C_Out" "jobs (worker s) b = None" by (auto split: if_splits)
    then have "b \<notin> set (caller_cells (cpc s) @ worker_cells (wpc s) @ q)"
      using assms(2) unfolding cells_inv_def by blast
    then show ?thesis using assms(2,3) s' b
      by (intro exI [of _ q]) (auto simp: cells_inv_def ledger_inv_def alloc_job_cells path_of_alloc)
  qed
next
  case Link
  with assms(1) obtain b where pc: "cpc s = C_Link b" by (auto split: caller_pc.splits)
  with assms(1) Link have s': "s' = (cond_signal (s\<lparr>worker := link_job b (worker s)\<rparr>))
      \<lparr>job_mutex := None, cpc := C_Out, submitted := submitted s @ [path_of (worker s) b]\<rparr>" by simp
  have "queue_cells (link_job b (worker s)) (q @ [b])"
    using assms(2) pc by (intro jq.put_holds) (auto simp: cells_inv_def)
  then show ?thesis using assms(2,3) s' pc
    by (intro exI [of _ "q @ [b]"]) (auto simp: cells_inv_def ledger_inv_def)
next
  case Join
  with assms have pc: "cpc s = C_Join" "wpc s = W_Exit" by (auto split: if_splits)
  then have q: "q = []" using assms(2,4) queue_cells_head by (auto simp: cells_inv_def)
  with assms(2) discard_jobs_cells [of "worker s" "[]"] queue_cells_head [of "worker s" "[]"]
  have "discard_jobs (worker s) = Some ((worker s)\<lparr>job_head := None, job_tail := None\<rparr>)"
    by (simp add: cells_inv_def)
  with assms(1) Join pc have "s' = s\<lparr>worker := (worker s)\<lparr>job_head := None, job_tail := None\<rparr>, cpc := C_Done\<rparr>"
    by simp
  then show ?thesis using assms(2,3) pc q
    by (intro exI [of _ "[]"]) (auto simp: cells_inv_def ledger_inv_def queue_cells_def path_of_def)
next
  case Caller_Lock
  with assms(1) show ?thesis
    by (intro exI [of _ q], intro cells_same [OF assms(2,3)])
      (auto split: if_splits caller_pc.splits intro: same_running)
qed (use assms(1) in \<open>(intro exI [of _ q], intro cells_same [OF assms(2,3)];
       auto split: if_splits intro: same_running)\<close>)+

lemma worker_cells_step:
  assumes "worker_act z a s = Some s'" and "cells_inv s q" and "ledger_inv s q"
  shows "\<exists>q'. cells_inv s' q' \<and> ledger_inv s' q'"
proof (cases a)
  case Test
  show ?thesis
  proof (cases "job_head (worker s) = None")
    case True
    with assms(1) Test show ?thesis
      by (intro exI [of _ q], intro cells_same [OF assms(2,3)])
        (auto split: if_splits intro: same_running)
  next
    case False
    have queue: "queue_cells (worker s) q" using assms(2) by (simp add: cells_inv_def)
    with False obtain b q' where q: "q = b # q'" using queue_cells_head by (cases q) auto
    note taken = jq.get_Cons [OF queue [unfolded q]]
    with assms(1) Test False have s': "s' = s\<lparr>worker := snd (take_job (worker s)), job_mutex := None, wpc := W_Job b\<rparr>"
      and pc: "wpc s = W_Test" by (auto split: if_splits prod.splits)
    show ?thesis using taken assms(2,3) s' pc q
      by (intro exI [of _ q']) (auto simp: cells_inv_def ledger_inv_def list_all_iff)
  qed
next
  case Process
  with assms(1) obtain b where pc: "wpc s = W_Job b" by (auto split: worker_pc.splits)
  with assms(1) Process have s': "worker s' = free_job b (worker s)" "wpc s' = W_Lock" "cpc s' = cpc s"
      "submitted s' = submitted s" "finished s' = finished s @ [path_of (worker s) b]"
    by (auto simp: Let_def split: prod.splits)
  have "b \<notin> set (caller_cells (cpc s) @ q)" using assms(2) pc by (auto simp: cells_inv_def)
  then show ?thesis using assms(2,3) s' pc
    by (intro exI [of _ q])
      (auto simp: cells_inv_def ledger_inv_def free_job_cells path_of_free free_job_ready list_all_iff)
qed (use assms(1) in \<open>(intro exI [of _ q], intro cells_same [OF assms(2,3)];
       auto split: if_splits intro: same_running)\<close>)+

lemma caller_locks_step:
  "caller_act c a s = Some s' \<Longrightarrow> mutex_inv s \<Longrightarrow> sleep_inv s \<Longrightarrow> mutex_inv s'"
  by (cases a) (auto simp: mutex_inv_def split: if_splits option.splits caller_pc.splits)

lemma worker_locks_step:
  "worker_act z a s = Some s' \<Longrightarrow> mutex_inv s \<Longrightarrow> mutex_inv s'"
  by (cases a) (auto simp: mutex_inv_def Let_def split: if_splits option.splits worker_pc.splits prod.splits)

lemma sleep_ok_caller:
  "sleep_ok wp C_Out run h \<Longrightarrow> sleep_ok wp (C_Enqueue a) run h"
  "sleep_ok wp (C_Enqueue a) run h \<Longrightarrow> sleep_ok wp (C_Link a) run h"
  "sleep_ok W_Wait (C_Link a) run h \<Longrightarrow> sleep_ok W_Relock C_Out run h'"
  "sleep_ok wp (C_Link a) run h \<Longrightarrow> wp \<noteq> W_Wait \<Longrightarrow> sleep_ok wp C_Out run h'"
  "sleep_ok wp C_Out run h \<Longrightarrow> wp \<noteq> W_Unborn \<Longrightarrow> sleep_ok wp C_Shutdown run h"
  "sleep_ok wp C_Shutdown run h \<Longrightarrow> sleep_ok wp C_Stop run h"
  "sleep_ok W_Wait C_Stop run h \<Longrightarrow> sleep_ok W_Relock C_Join False h"
  "sleep_ok wp C_Stop run h \<Longrightarrow> wp \<noteq> W_Wait \<Longrightarrow> sleep_ok wp C_Join False h"
  "sleep_ok W_Exit C_Join run h \<Longrightarrow> sleep_ok W_Exit C_Done run None"
  "sleep_ok W_Unborn C_Out run h \<Longrightarrow> sleep_ok W_Lock C_Out True h"
  by (auto simp: sleep_ok_def)

lemma signal_wpc: "wpc (cond_signal s) = (if wpc s = W_Wait then W_Relock else wpc s)"
  by (simp add: cond_signal_def)

lemma caller_sleep_step:
  assumes "caller_act c a s = Some s'" and "sleep_inv s" and "cells_inv s q"
  shows "sleep_inv s'"
proof -
  have "queue_cells (worker s) q" using assms(3) by (simp add: cells_inv_def)
  note discard = discard_jobs_cells [OF this]
  show ?thesis
  proof (cases a)
    case Link
    then obtain b where pc: "cpc s = C_Link b" using assms(1) by (auto split: caller_pc.splits)
    then have "sleep_ok (wpc s) (C_Link b) (worker_running (worker s)) (job_head (worker s))"
      using assms(2) by (simp add: sleep_inv_def)
    then have "sleep_ok (if wpc s = W_Wait then W_Relock else wpc s) C_Out (worker_running (worker s))
        (job_head (link_job b (worker s)))"
      using sleep_ok_caller(3,4) by auto
    then show ?thesis using assms(1) Link pc by (auto simp: sleep_inv_def signal_wpc)
  next
    case Stop
    then have pc: "cpc s = C_Stop" using assms(1) by (simp split: if_splits)
    then have "sleep_ok (wpc s) C_Stop (worker_running (worker s)) (job_head (worker s))"
      using assms(2) by (simp add: sleep_inv_def)
    then have "sleep_ok (if wpc s = W_Wait then W_Relock else wpc s) C_Join False (job_head (worker s))"
      using sleep_ok_caller(7,8) by auto
    then show ?thesis using assms(1) Stop pc by (auto simp: sleep_inv_def signal_wpc)
  next
    case Join
    then show ?thesis using assms(1,2) discard
      by (auto simp: sleep_inv_def split: if_splits intro: sleep_ok_caller(9))
  qed (use assms(1,2) in \<open>auto simp: sleep_inv_def split: if_splits option.splits caller_pc.splits
        intro: sleep_ok_caller(1,2,5,6,10)\<close>)
qed

lemma sleep_ok_worker:
  "sleep_ok W_Lock cp run h \<Longrightarrow> sleep_ok W_Test cp run h"
  "sleep_ok W_Relock cp run h \<Longrightarrow> sleep_ok W_Test cp run h"
  "sleep_ok W_Wait cp run h \<Longrightarrow> sleep_ok W_Relock cp run h"
  "sleep_ok W_Test cp True None \<Longrightarrow> sleep_ok W_Wait cp True None"
  "sleep_ok W_Test cp False None \<Longrightarrow> sleep_ok W_Exit cp False None"
  "sleep_ok W_Test cp run h \<Longrightarrow> sleep_ok (W_Job b) cp run h'"
  "sleep_ok W_Test cp run h \<Longrightarrow> sleep_ok W_Lock cp run h'"
  "sleep_ok (W_Job b) cp run h \<Longrightarrow> sleep_ok W_Lock cp run h"
  by (auto simp: sleep_ok_def)

lemma worker_sleep_step:
  assumes "worker_act z a s = Some s'" and "sleep_inv s"
  shows "sleep_inv s'"
proof (cases a)
  case Test
  define w where "w = snd (take_job (worker s))"
  have w: "worker_running w = worker_running (worker s)" by (simp add: w_def)
  have "s' = s\<lparr>job_mutex := None, wpc := W_Wait\<rparr> \<and> worker_running (worker s) \<and> job_head (worker s) = None
    \<or> s' = s\<lparr>job_mutex := None, wpc := W_Exit\<rparr> \<and> \<not> worker_running (worker s) \<and> job_head (worker s) = None
    \<or> s' = s\<lparr>worker := w, job_mutex := None, wpc := W_Lock\<rparr>
    \<or> (\<exists>b. s' = s\<lparr>worker := w, job_mutex := None, wpc := W_Job b\<rparr>)"
    using assms(1) Test by (auto simp: w_def split: if_splits prod.splits option.splits)
  moreover have "wpc s = W_Test" using assms(1) Test by (simp split: if_splits)
  ultimately show ?thesis using assms(2) w
    by (elim disjE exE) (auto simp: sleep_inv_def intro: sleep_ok_worker)
next
  case Process
  then obtain b where "wpc s = W_Job b" using assms(1) by (auto split: worker_pc.splits)
  with assms Process show ?thesis
    by (auto simp: sleep_inv_def Let_def split: prod.splits intro: sleep_ok_worker)
qed (use assms in \<open>auto simp: sleep_inv_def split: if_splits intro: sleep_ok_worker\<close>)

lemma system_inv_step: "act c z a s = Some s' \<Longrightarrow> system_inv s \<Longrightarrow> system_inv s'"
proof (cases a)
  case (By_Caller x)
  assume "act c z a s = Some s'" and inv: "system_inv s"
  then have x: "caller_act c x s = Some s'" by (simp add: act_def By_Caller)
  from inv obtain q where q: "cells_inv s q" "ledger_inv s q" "mutex_inv s" "sleep_inv s"
    by (auto simp: system_inv_def)
  moreover have "wpc s = W_Exit \<longrightarrow> job_head (worker s) = None"
    using q(4) by (simp add: sleep_inv_def sleep_ok_def)
  ultimately show ?thesis
    using caller_cells_step [OF x] caller_locks_step [OF x] caller_sleep_step [OF x]
    by (simp add: system_inv_def)
next
  case (By_Worker x)
  assume "act c z a s = Some s'" and inv: "system_inv s"
  then have x: "worker_act z x s = Some s'" by (simp add: act_def By_Worker)
  from inv show ?thesis
    using worker_cells_step [OF x] worker_locks_step [OF x] worker_sleep_step [OF x]
    by (auto simp: system_inv_def)
qed

lemma system_inv_initial: "system_inv (system_initial fs)"
  by (auto simp: system_inv_def cells_inv_def ledger_inv_def mutex_inv_def sleep_inv_def sleep_ok_def
      system_initial_def compression_worker_initial_def queue_cells_def)

lemma reachable_inv: "reachable c z fs s \<Longrightarrow> system_inv s"
  by (induction rule: reachable.induct) (auto intro: system_inv_initial system_inv_step)

lemma run_reachable: "run_actions c z as s = Some s' \<Longrightarrow> reachable c z fs s \<Longrightarrow> reachable c z fs s'"
  by (induction as arbitrary: s) (auto split: option.splits intro: reachable.step)

section \<open>Progress\<close>

lemma worker_progress:
  assumes "system_inv s" and "wpc s \<noteq> W_Unborn" and "wpc s \<noteq> W_Exit"
    and "job_head (worker s) \<noteq> None \<or> \<not> worker_running (worker s)"
  shows "\<exists>a \<in> set [By_Worker Worker_Lock, By_Worker Test, By_Worker Process, By_Caller Link, By_Caller Stop].
     act c z a s \<noteq> None"
proof -
  have wait: "wpc s \<noteq> W_Wait" using assms by (auto simp: system_inv_def sleep_inv_def sleep_ok_def)
  have mutex: "mutex_inv s" using assms(1) by (simp add: system_inv_def)
  consider "wpc s = W_Test" | a where "wpc s = W_Job a" | "wpc s = W_Lock \<or> wpc s = W_Relock"
    using assms(2,3) wait by (cases "wpc s") auto
  then show ?thesis
  proof cases
    case 1
    then have "act c z (By_Worker Test) s \<noteq> None" by (auto simp: act_def split: prod.split option.split)
    then show ?thesis by simp
  next
    case 2
    then have "act c z (By_Worker Process) s \<noteq> None" by (simp add: act_def Let_def)
    then show ?thesis by simp
  next
    case 3
    show ?thesis
    proof (cases "job_mutex s")
      case None
      with 3 have "act c z (By_Worker Worker_Lock) s \<noteq> None" by (auto simp: act_def)
      then show ?thesis by simp
    next
      case (Some t)
      with 3 mutex have "t = Caller" by (cases t) (auto simp: mutex_inv_def)
      with Some mutex have "(\<exists>a. cpc s = C_Link a) \<or> cpc s = C_Stop" by (simp add: mutex_inv_def)
      then have "act c z (By_Caller Link) s \<noteq> None \<or> act c z (By_Caller Stop) s \<noteq> None"
        by (auto simp: act_def)
      then show ?thesis by auto
    qed
  qed
qed

definition pc_rank :: "worker_pc \<Rightarrow> nat" where
  "pc_rank p = (case p of W_Wait \<Rightarrow> 3 | W_Lock \<Rightarrow> 2 | W_Relock \<Rightarrow> 2 | W_Test \<Rightarrow> 1 | _ \<Rightarrow> 0)"

text \<open>How many steps are left once the worker has been told to stop.\<close>

definition steps_left :: "compression_system \<Rightarrow> nat" where
  "steps_left s = 3 * (length (submitted s) - length (finished s)) + pc_rank (wpc s)
     + (if cpc s = C_Done then 0 else 1)"

definition stopping :: "compression_system \<Rightarrow> bool" where
  "stopping s = (cpc s = C_Join \<or> cpc s = C_Done)"

lemma stopping_worker_step:
  assumes "worker_act z a s = Some s'" and "system_inv s" and "stopping s"
  shows "steps_left s' < steps_left s \<and> stopping s'"
proof (cases a)
  case Test
  then have pc: "wpc s = W_Test" using assms(1) by (simp split: if_splits)
  then have stop: "\<not> worker_running (worker s)" using assms(2,3)
    by (auto simp: system_inv_def sleep_inv_def sleep_ok_def stopping_def)
  have "fst (take_job (worker s)) = job_head (worker s)" by (simp add: take_job_def Let_def)
  then have "wpc s' = W_Exit \<or> (\<exists>b. wpc s' = W_Job b)" and "cpc s' = cpc s"
      and "submitted s' = submitted s" and "finished s' = finished s"
    using assms(1) Test pc stop by (auto split: if_splits prod.splits option.splits)
  then show ?thesis using pc assms(3) by (auto simp: steps_left_def pc_rank_def stopping_def)
next
  case Process
  then obtain b where pc: "wpc s = W_Job b" using assms(1) by (auto split: worker_pc.splits)
  then have s': "wpc s' = W_Lock" "cpc s' = cpc s" "submitted s' = submitted s"
      "length (finished s') = Suc (length (finished s))"
    using assms(1) Process by (auto simp: Let_def)
  have "length (finished s) < length (submitted s)"
    using assms(2) pc by (auto simp: system_inv_def ledger_inv_def)
  then show ?thesis using s' pc assms(3) by (auto simp: steps_left_def pc_rank_def stopping_def)
qed (use assms(1,3) in \<open>auto simp: steps_left_def pc_rank_def stopping_def split: if_splits\<close>)

lemma stopping_caller_step:
  assumes "caller_act c a s = Some s'" and "stopping s"
  shows "steps_left s' < steps_left s \<and> stopping s'"
  using assms
  by (cases a) (auto simp: stopping_def steps_left_def split: if_splits caller_pc.splits option.splits)

lemma stopping_run:
  "run_actions c z as s = Some s' \<Longrightarrow> system_inv s \<Longrightarrow> stopping s \<Longrightarrow>
     length as + steps_left s' \<le> steps_left s \<and> system_inv s' \<and> stopping s'"
proof (induction as arbitrary: s)
  case (Cons a as)
  then obtain s1 where s1: "act c z a s = Some s1" "run_actions c z as s1 = Some s'"
    by (auto split: option.splits)
  then have "steps_left s1 < steps_left s \<and> stopping s1"
    using Cons.prems stopping_worker_step stopping_caller_step by (cases a) (auto simp: act_def)
  with Cons.IH [OF s1(2) system_inv_step [OF s1(1) Cons.prems(2)]] show ?case by simp
qed simp

lemma stopping_stuck:
  assumes "system_inv s" and "stopping s" and "\<forall>a. act c z a s = None"
  shows "cpc s = C_Done"
proof (rule ccontr)
  assume "cpc s \<noteq> C_Done"
  with assms(2) have join: "cpc s = C_Join" by (simp add: stopping_def)
  have inv: "sleep_inv s" using assms(1) by (simp add: system_inv_def)
  have "wpc s = W_Exit"
  proof (rule ccontr)
    assume "wpc s \<noteq> W_Exit"
    moreover have "wpc s \<noteq> W_Unborn" and "\<not> worker_running (worker s)"
      using inv join by (auto simp: sleep_inv_def sleep_ok_def)
    ultimately show False using worker_progress [OF assms(1), of c z] assms(3) by simp
  qed
  moreover obtain q where "queue_cells (worker s) q"
    using assms(1) by (auto simp: system_inv_def cells_inv_def)
  ultimately have "act c z (By_Caller Join) s \<noteq> None"
    using join by (simp add: act_def discard_jobs_cells)
  with assms(3) show False by simp
qed

section \<open>Properties of the threads\<close>

text \<open>C8: In every reachable state of the two threads the paths that were submitted are, in order,
  those already processed, the one the worker has in hand and those in the linked list; every
  allocated cell belongs to exactly one of the caller, the worker and the list (no leak, no double
  free); and the threads are never both inside the critical section.\<close>

theorem worker_ledger:
  assumes "reachable c z fs s"
  shows "\<exists>q. queue_cells (worker s) q
    \<and> submitted s = finished s @ map (path_of (worker s)) (worker_cells (wpc s) @ q)
    \<and> (\<forall>a. jobs (worker s) a \<noteq> None \<longleftrightarrow> a \<in> set (caller_cells (cpc s) @ worker_cells (wpc s) @ q))
    \<and> distinct (caller_cells (cpc s) @ worker_cells (wpc s) @ q)
    \<and> \<not> (wpc s = W_Test \<and> (cpc s = C_Stop \<or> (\<exists>a. cpc s = C_Link a)))"
proof -
  obtain q where q: "cells_inv s q" "ledger_inv s q" and m: "mutex_inv s"
    using reachable_inv [OF assms] by (auto simp: system_inv_def)
  have "\<not> (wpc s = W_Test \<and> (cpc s = C_Stop \<or> (\<exists>a. cpc s = C_Link a)))"
    using m by (auto simp: mutex_inv_def)
  with q show ?thesis unfolding cells_inv_def ledger_inv_def by blast
qed

text \<open>C37: No wake-up is lost. Whenever there is a job in the queue, or the worker has been told to
  stop, and the worker has not left, one of the two threads can take its next step without a
  spurious wake-up and without a new call: the worker is not asleep, and whoever holds the mutex
  can go on.\<close>

theorem no_lost_wakeup:
  assumes "reachable c z fs s" and "wpc s \<noteq> W_Unborn" and "wpc s \<noteq> W_Exit"
    and "job_head (worker s) \<noteq> None \<or> \<not> worker_running (worker s)"
  shows "wpc s \<noteq> W_Wait
    \<and> (\<exists>a \<in> set [By_Worker Worker_Lock, By_Worker Test, By_Worker Process, By_Caller Link, By_Caller Stop].
         act c z a s \<noteq> None)"
proof -
  have "sleep_inv s" using reachable_inv [OF assms(1)] by (simp add: system_inv_def)
  then have "wpc s \<noteq> W_Wait" using assms(4) by (auto simp: sleep_inv_def sleep_ok_def)
  with worker_progress [OF reachable_inv [OF assms(1)] assms(2-4)] show ?thesis by blast
qed

text \<open>C20: When \<^verbatim>\<open>compression_worker_shutdown\<close> returns, the worker thread has ended, every job that
  was submitted has been processed, in order, and the heap holds no job any more: the clean-up loop
  after the join has nothing to do.\<close>

theorem shutdown_drains:
  assumes "reachable c z fs s" and "cpc s = C_Done"
  shows "wpc s = W_Exit \<and> finished s = submitted s \<and> jobs (worker s) = (\<lambda>_. None)"
proof -
  note inv = reachable_inv [OF assms(1)]
  have exit: "wpc s = W_Exit" "job_head (worker s) = None"
    using inv assms(2) by (auto simp: system_inv_def sleep_inv_def sleep_ok_def)
  obtain q where q: "cells_inv s q" "ledger_inv s q" using inv by (auto simp: system_inv_def)
  then have "q = []" using exit(2) queue_cells_head by (auto simp: cells_inv_def)
  with q exit assms(2) have "\<forall>a. jobs (worker s) a = None" and "finished s = submitted s"
    by (auto simp: cells_inv_def ledger_inv_def)
  with exit(1) show ?thesis by auto
qed

text \<open>C21: \<^verbatim>\<open>compression_worker_shutdown\<close> terminates. From the moment it waits for the worker, no
  schedule of the two threads, spurious wake-ups included, is longer than three steps per job that
  is left and four more, and the only state in which neither thread can go on is the one where the
  call has returned.\<close>

theorem shutdown_terminates:
  assumes "reachable c z fs s" and "cpc s = C_Join" and "run_actions c z as s = Some s'"
  shows "length as \<le> 3 * (length (submitted s) - length (finished s)) + 4
    \<and> ((\<forall>a. act c z a s' = None) \<longrightarrow> cpc s' = C_Done)"
proof -
  have stop: "stopping s" using assms(2) by (simp add: stopping_def)
  note run = stopping_run [OF assms(3) reachable_inv [OF assms(1)] stop]
  have "pc_rank (wpc s) \<le> 3" by (simp add: pc_rank_def split: worker_pc.split)
  then have "steps_left s \<le> 3 * (length (submitted s) - length (finished s)) + 4"
    using assms(2) by (simp add: steps_left_def)
  with run stopping_stuck show ?thesis by auto
qed

section \<open>A concrete schedule\<close>

definition demo_start :: "action list" where
  "demo_start = [By_Caller Call_Init, By_Worker Worker_Lock, By_Worker Test,
     By_Caller (Call_Enqueue (Some 0) ''/o/p.log.1.9.0''), By_Caller Caller_Lock, By_Caller Link]"

definition demo_stop :: "action list" where
  "demo_stop = [By_Caller Call_Shutdown, By_Caller Caller_Lock, By_Caller Stop]"

definition demo_finish :: "action list" where
  "demo_finish = [By_Worker Worker_Lock, By_Worker Test, By_Worker Process, By_Worker Worker_Lock,
     By_Worker Test, By_Caller Join]"

definition demo_system :: "action list \<Rightarrow> compression_system" where
  "demo_system as = the (run_actions compressing stored as (system_initial rotated_fs))"

lemmas demo_defs = demo_start_def demo_stop_def demo_finish_def demo_system_def act_def system_initial_def
  compression_worker_initial_def config_get_compression_enabled_def compressing_def cond_signal_def
  alloc_job_def link_job_def set_next_def take_job_def next_of_def free_job_def new_job_def
  discard_jobs.simps path_of_def Let_def PATH_MAX_def

lemma demo_runs:
  "run_actions compressing stored (demo_start @ demo_stop) (system_initial rotated_fs)
     = Some (demo_system (demo_start @ demo_stop))"
  "run_actions compressing stored demo_finish (demo_system (demo_start @ demo_stop))
     = Some (demo_system (demo_start @ demo_stop @ demo_finish))"
  "run_actions compressing stored (demo_start @ demo_stop @ demo_finish) (system_initial rotated_fs)
     = Some (demo_system (demo_start @ demo_stop @ demo_finish))"
  by (simp_all add: demo_defs)

lemmas demo_reachable =
  run_reachable [OF demo_runs(1) reachable.initial] run_reachable [OF demo_runs(3) reachable.initial]

lemma demo_points:
  "cpc (demo_system (demo_start @ demo_stop)) = C_Join"
  "wpc (demo_system (demo_start @ demo_stop)) = W_Relock"
  "submitted (demo_system (demo_start @ demo_stop)) = [''/o/p.log.1.9.0'']"
  "finished (demo_system (demo_start @ demo_stop)) = []"
  "job_head (worker (demo_system (demo_start @ demo_stop))) = Some 0"
  "cpc (demo_system (demo_start @ demo_stop @ demo_finish)) = C_Done"
  by (simp_all add: demo_defs)

theorem worker_ledger_witness:
  "\<exists>q. queue_cells (worker (demo_system (demo_start @ demo_stop))) q
    \<and> [''/o/p.log.1.9.0''] = map (path_of (worker (demo_system (demo_start @ demo_stop)))) q"
  using worker_ledger [OF demo_reachable(1)] by (auto simp: demo_points)

theorem no_lost_wakeup_witness:
  "\<exists>a \<in> set [By_Worker Worker_Lock, By_Worker Test, By_Worker Process, By_Caller Link, By_Caller Stop].
     act compressing stored a (demo_system (demo_start @ demo_stop)) \<noteq> None"
  using no_lost_wakeup [OF demo_reachable(1)] by (simp add: demo_points)

theorem shutdown_drains_witness:
  "finished (demo_system (demo_start @ demo_stop @ demo_finish))
     = submitted (demo_system (demo_start @ demo_stop @ demo_finish))"
  using shutdown_drains [OF demo_reachable(2)] by (simp add: demo_points)

lemma demo_stuck: "act compressing stored a (demo_system (demo_start @ demo_stop @ demo_finish)) = None"
proof (cases a)
  case (By_Worker b)
  then show ?thesis by (cases b) (simp_all add: demo_defs)
next
  case (By_Caller b)
  then show ?thesis by (cases b) (simp_all add: demo_defs)
qed

theorem shutdown_terminates_witness:
  "\<exists>s s'. reachable compressing stored rotated_fs s \<and> cpc s = C_Join \<and> submitted s = [''/o/p.log.1.9.0''] \<and> finished s = []
    \<and> run_actions compressing stored demo_finish s = Some s' \<and> length demo_finish \<le> 3 * (length (submitted s) - length (finished s)) + 4
    \<and> (\<forall>a. act compressing stored a s' = None) \<and> cpc s' = C_Done"
proof -
  let ?s = "demo_system (demo_start @ demo_stop)" and ?s' = "demo_system (demo_start @ demo_stop @ demo_finish)"
  have "length demo_finish \<le> 3 * (length (submitted ?s) - length (finished ?s)) + 4" "cpc ?s' = C_Done"
    using shutdown_terminates [OF demo_reachable(1) demo_points(1) demo_runs(2)] demo_stuck by blast+
  with demo_reachable(1) demo_points(1,3,4) demo_runs(2) demo_stuck show ?thesis by blast
qed

end
