(* ===== verification/Log_Rotation.thy ===== *)
theory Log_Rotation
  imports Compression_Worker
begin

text \<open>
  Rotation of the raw logs, \<^verbatim>\<open>get_file_size\<close>, \<^verbatim>\<open>rotate_logs\<close> and \<^verbatim>\<open>rotate_and_reopen\<close> of
  \<^verbatim>\<open>src/code/process_snapshot/process_snapshot.c\<close>: the numbered files move up by one, the oldest is
  dropped, the current log becomes number 1 or, with compression, a pending file that is handed
  to the worker. A stream is the path of the file it appends to; the streams are flushed at the end
  of every snapshot, so that a rotation sees everything that was written.
\<close>

section \<open>State and operations\<close>

record rotation_state =
  files :: file_system
  queue :: compression_worker
  rotation_counter :: u32
  err_out :: string

text \<open>What the calls of one rotation return: \<^verbatim>\<open>time(NULL)\<close>, and \<^verbatim>\<open>malloc\<close> for the job.\<close>

record rotation_env =
  now :: int
  job_cell :: "nat option"

definition get_file_size :: "file_system \<Rightarrow> string \<Rightarrow> int" where
  "get_file_size fs p = (case sys_stat fs p of None \<Rightarrow> -1 | Some (File d) \<Rightarrow> int (length d) | Some _ \<Rightarrow> 0)"

definition gz_name :: "string \<Rightarrow> int \<Rightarrow> string" where
  "gz_name f i = c_snprintf PATH_MAX (f @ ''.'' @ show_int i @ ''.gz'')"

definition plain_name :: "string \<Rightarrow> int \<Rightarrow> string" where
  "plain_name f i = c_snprintf PATH_MAX (f @ ''.'' @ show_int i)"

definition remove_file :: "string \<Rightarrow> 'a rotation_state_scheme \<Rightarrow> 'a rotation_state_scheme" where
  "remove_file p s = s\<lparr>files := snd (sys_unlink (files s) p)\<rparr>"

text \<open>A rename whose failure is reported, unless the source does not exist; \<open>msg\<close> is the report.\<close>

definition try_rename ::
  "string \<Rightarrow> string \<Rightarrow> string \<Rightarrow> 'a rotation_state_scheme \<Rightarrow> bool \<times> 'a rotation_state_scheme" where
  "try_rename msg old new s =
     (case sys_rename (files s) old new of
        (None, fs) \<Rightarrow> (True, s\<lparr>files := fs\<rparr>)
      | (Some e, fs) \<Rightarrow> (False, s\<lparr>files := fs,
          err_out := err_out s @ (if e = ENOENT then [] else msg @ old @ '' -> '' @ new @ nl)\<rparr>))"

definition rotate_one ::
  "config_t \<Rightarrow> string \<Rightarrow> int \<Rightarrow> 'a rotation_state_scheme \<Rightarrow> 'a rotation_state_scheme" where
  "rotate_one c f i s =
     (let (moved, s1) =
            (if config_get_compression_enabled c
             then try_rename ''rotate rename failed (gz), trying fallback '' (gz_name f i) (gz_name f (i + 1)) s
             else (False, s))
      in if moved then s1
         else snd (try_rename ''rotate rename failed '' (plain_name f i) (plain_name f (i + 1)) s1))"

text \<open>The loop \<^verbatim>\<open>for (int i = max_rotations - 1; i >= 1; i--)\<close>; the argument is the first \<open>i\<close>.\<close>

fun rotate_down ::
  "config_t \<Rightarrow> string \<Rightarrow> nat \<Rightarrow> 'a rotation_state_scheme \<Rightarrow> 'a rotation_state_scheme" where
  "rotate_down c f 0 s = s"
| "rotate_down c f (Suc i) s = rotate_down c f i (rotate_one c f (int (Suc i)) s)"

definition rotate_logs ::
  "config_t \<Rightarrow> rotation_env \<Rightarrow> string \<Rightarrow> 'a rotation_state_scheme \<Rightarrow> 'a rotation_state_scheme" where
  "rotate_logs c e f s =
     (let max_rotations = config_get_max_number_of_files c;
          s1 = remove_file (gz_name f max_rotations) s;
          s2 = remove_file (plain_name f max_rotations) s1;
          s3 = rotate_down c f (nat (max_rotations - 1)) s2;
          old_path = c_snprintf PATH_MAX f
      in if config_get_compression_enabled c
         then let new_path = c_snprintf PATH_MAX (pending_path f (now e) (unat (rotation_counter s3)));
                  s4 = s3\<lparr>rotation_counter := rotation_counter s3 + 1\<rparr>;
                  s5 = snd (try_rename ''rotate rename failed '' old_path new_path s4);
                  (w, msg) = compression_enqueue_file c (job_cell e) (Some new_path) (queue s5)
              in s5\<lparr>queue := w, err_out := err_out s5 @ msg\<rparr>
         else snd (try_rename ''rotate rename failed '' old_path (c_snprintf PATH_MAX (f @ ''.1'')) s3))"

text \<open>The result is the new stream: the log reopened for appending, or NULL.\<close>

definition rotate_and_reopen ::
  "config_t \<Rightarrow> rotation_env \<Rightarrow> string \<Rightarrow> 'a rotation_state_scheme \<Rightarrow> fpath option \<times> 'a rotation_state_scheme" where
  "rotate_and_reopen c e p s =
     (let s1 = rotate_logs c e p s
      in case open_write False (files s1) p of
           (None, fs) \<Rightarrow> (None, s1\<lparr>files := fs,
             err_out := err_out s1 @ ''fopen failed after rotate on '' @ p\<rparr>)
         | (Some out, fs) \<Rightarrow> (Some out, s1\<lparr>files := fs\<rparr>))"

section \<open>What a rotation leaves alone\<close>

text \<open>
  An observation of the state that does not depend on the disk or the messages is the same after all
  renaming; when it does not depend on the worker's queue and the counter either, the whole rotation
  keeps it.
\<close>

locale renaming_frame =
  fixes obs :: "'a rotation_state_scheme \<Rightarrow> 'x"
  assumes obs_files [simp]: "obs (s\<lparr>files := x\<rparr>) = obs s"
    and obs_err [simp]: "obs (s\<lparr>err_out := m\<rparr>) = obs s"
begin

lemma try_rename_frame [simp]: "obs (snd (try_rename msg old new s)) = obs s"
  by (simp add: try_rename_def split: prod.split option.split)

lemma rotate_one_frame [simp]: "obs (rotate_one c f i s) = obs s"
proof -
  obtain m s1 where r: "try_rename ''rotate rename failed (gz), trying fallback '' (gz_name f i) (gz_name f (i + 1)) s = (m, s1)"
    by fastforce
  then have "obs s1 = obs s" using try_rename_frame by (metis snd_conv)
  then show ?thesis by (simp add: rotate_one_def r)
qed

lemma rotate_down_frame [simp]: "obs (rotate_down c f k s) = obs s"
  by (induction k arbitrary: s) simp_all

end

locale rotation_frame = renaming_frame obs
  for obs :: "'a rotation_state_scheme \<Rightarrow> 'x" +
  assumes obs_queue [simp]: "obs (s\<lparr>queue := w\<rparr>) = obs s"
    and obs_counter [simp]: "obs (s\<lparr>rotation_counter := n\<rparr>) = obs s"
begin

lemma rotate_logs_frame [simp]: "obs (rotate_logs c e f s) = obs s"
  by (simp add: rotate_logs_def Let_def remove_file_def split: prod.split)

lemma rotate_and_reopen_frame: "obs (snd (rotate_and_reopen c e f s)) = obs s"
  by (simp add: rotate_and_reopen_def Let_def split: prod.split option.split)

end

interpretation renaming_queue: renaming_frame queue
  by unfold_locales simp_all

section \<open>The numbered names\<close>

definition rotated :: "file_system \<Rightarrow> string \<Rightarrow> string \<Rightarrow> nat \<Rightarrow> fpath" where
  "rotated fs dir n i = log_at fs dir (n @ ''.'' @ show_nat i)"

lemma show_int_nat [simp]: "show_int (int i) = show_nat i"
  by (simp add: show_int_def)

lemma show_int_Suc [simp]: "show_int (1 + int i) = show_nat (Suc i)"
  using show_int_nat [of "Suc i"] by simp

lemma show_int_1 [simp]: "show_int 1 = ''1''"
  by code_simp

lemma length_show_nat: "i < 1000 \<Longrightarrow> length (show_nat i) \<le> 3"
  by (simp add: show_nat.simps [of i] show_nat.simps [of "i div 10"] show_nat.simps [of "i div 10 div 10"])

definition short_log :: "string \<Rightarrow> string \<Rightarrow> bool" where
  "short_log dir n = (log_name dir n \<and> n \<noteq> ''.'' \<and> length dir + length n + 8 < PATH_MAX)"

lemma plain_resolve:
  assumes "short_log dir n" and "i < 1000"
  shows "resolve fs (plain_name (dir @ ''/'' @ n) (int i)) = rotated fs dir n i"
    and "resolve fs (gz_name (dir @ ''/'' @ n) (int i)) = archive fs dir n i"
proof -
  have d: "log_name dir n" using assms(1) by (simp add: short_log_def)
  note len = length_show_nat [OF assms(2)]
  have "n @ x \<noteq> ''.''" if "x \<noteq> []" for x using d that by (cases n) (auto simp: log_name_def)
  then show "resolve fs (plain_name (dir @ ''/'' @ n) (int i)) = rotated fs dir n i"
    and "resolve fs (gz_name (dir @ ''/'' @ n) (int i)) = archive fs dir n i"
    using resolve_log [OF d, of "''.'' @ show_nat i" fs] resolve_log [OF d, of "''.'' @ show_nat i @ ''.gz''" fs]
      len assms(1)
    by (simp_all add: plain_name_def gz_name_def rotated_def archive_def short_log_def show_nat_notin)
qed

lemma rotated_update [simp]: "rotated (fs\<lparr>node_at := m\<rparr>) dir n i = rotated fs dir n i"
  by (simp add: rotated_def)

lemma rotated_eq [simp]: "rotated fs dir n i = rotated fs dir n j \<longleftrightarrow> i = j"
  by (simp add: rotated_def show_nat_inject)

lemma archive_eq [simp]: "archive fs dir n i = archive fs dir n j \<longleftrightarrow> i = j"
  by (simp add: archive_def show_nat_inject)

lemma rotated_not_log [simp]: "rotated fs dir n i \<noteq> log_at fs dir n" "log_at fs dir n \<noteq> rotated fs dir n i"
  by (simp_all add: rotated_def)

lemma archive_not_log [simp]: "archive fs dir n i \<noteq> log_at fs dir n" "log_at fs dir n \<noteq> archive fs dir n i"
  by (simp_all add: archive_def)

lemma rotated_not_archive [simp]: "rotated fs dir n i \<noteq> archive fs dir n j" "archive fs dir n j \<noteq> rotated fs dir n i"
proof -
  have "CHR ''g'' \<notin> set (show_nat i)" by (simp add: show_nat_notin c_isdigit_def)
  then have "show_nat i \<noteq> show_nat j @ ''.gz''" by (metis Un_iff list.set_intros set_append)
  then show "rotated fs dir n i \<noteq> archive fs dir n j" "archive fs dir n j \<noteq> rotated fs dir n i"
    by (auto simp: rotated_def archive_def)
qed

section \<open>Moving a numbered file up\<close>

text \<open>Nothing is refused and the log's directory exists.\<close>

definition calm :: "file_system \<Rightarrow> string \<Rightarrow> bool" where
  "calm fs dir = ((\<forall>call. \<not> refuses fs call) \<and> is_dir fs (resolve fs dir))"

definition with_nodes :: "'a rotation_state_scheme \<Rightarrow> (fpath \<Rightarrow> node option) \<Rightarrow> 'a rotation_state_scheme" where
  "with_nodes s m = s\<lparr>files := (files s)\<lparr>node_at := m\<rparr>\<rparr>"

lemma with_nodes_simps [simp]:
  "node_at (files (with_nodes s m)) = m" "with_nodes (with_nodes s m) m' = with_nodes s m'"
  "with_nodes s (node_at (files s)) = s" "resolve (files (with_nodes s m)) p = resolve (files s) p"
  "rotated (files (with_nodes s m)) dir n i = rotated (files s) dir n i"
  "archive (files (with_nodes s m)) dir n i = archive (files s) dir n i"
  "log_at (files (with_nodes s m)) dir x = log_at (files s) dir x"
  "pending (files (with_nodes s m)) dir n t k = pending (files s) dir n t k"
  "queue (with_nodes s m) = queue s" "rotation_counter (with_nodes s m) = rotation_counter s"
  "err_out (with_nodes s m) = err_out s"
  by (simp_all add: with_nodes_def)

text \<open>The nodes a move may touch: no directory, and beside the log.\<close>

definition beside :: "file_system \<Rightarrow> string \<Rightarrow> fpath \<Rightarrow> bool" where
  "beside fs dir p = ((\<exists>x. p = log_at fs dir x) \<and> node_at fs p \<noteq> Some Dir)"

lemma beside_names [simp]:
  "\<exists>x. rotated fs dir n i = log_at fs dir x" "\<exists>x. archive fs dir n i = log_at fs dir x"
  "\<exists>x. pending fs dir n t k = log_at fs dir x" "\<exists>x. log_at fs dir n = log_at fs dir x"
  by (auto simp: rotated_def archive_def pending_def)

lemma resolve_not_log: "resolve fs dir \<noteq> log_at fs dir x"
  by (simp add: log_at_def)

lemma calm_move:
  assumes "calm (files s) dir" and "m (resolve (files s) dir) = node_at (files s) (resolve (files s) dir)"
  shows "calm (files (with_nodes s m)) dir"
  using assms by (simp add: calm_def with_nodes_def is_dir_def)

text \<open>A rename of one file beside the log to a free name moves it, or does nothing when it is missing.\<close>

lemma try_rename_moves:
  assumes "calm (files s) dir" and "old \<noteq> []" and "new \<noteq> []"
    and "beside (files s) dir (resolve (files s) old)" and "beside (files s) dir (resolve (files s) new)"
    and "resolve (files s) old \<noteq> resolve (files s) new"
    and "node_at (files s) (resolve (files s) old) = None \<longrightarrow> node_at (files s) (resolve (files s) new) = None"
  shows "try_rename msg old new s = (node_at (files s) (resolve (files s) old) \<noteq> None,
     with_nodes s ((node_at (files s))(resolve (files s) new := node_at (files s) (resolve (files s) old),
       resolve (files s) old := None)))"
proof -
  let ?p = "resolve (files s) old" and ?q = "resolve (files s) new"
  have q: "parent_ok (files s) ?q" "\<not> is_dir (files s) ?q"
    using assms(1,5) by (auto simp: calm_def beside_def is_dir_def)
  have p: "node_at (files s) ?p \<noteq> Some Dir" using assms(4) by (simp add: beside_def)
  have calls: "\<not> refuses (files s) call" for call using assms(1) by (simp add: calm_def)
  show ?thesis
  proof (cases "node_at (files s) ?p")
    case None
    with assms(7) have "(node_at (files s))(?q := node_at (files s) ?p, ?p := None) = node_at (files s)"
      by auto
    with None assms(2,3) calls show ?thesis
      by (simp add: try_rename_def sys_rename_def)
  next
    case (Some x)
    with p q assms(2,3,6) calls have "sys_rename (files s) old new =
        (None, (files s)\<lparr>node_at := (node_at (files s))(?p := None, ?q := Some x)\<rparr>)"
      by (cases x) (simp_all add: sys_rename_def)
    with Some assms(6) show ?thesis by (simp add: try_rename_def with_nodes_def fun_upd_twist)
  qed
qed

section \<open>The loop\<close>

fun roll :: "(nat \<Rightarrow> fpath) \<Rightarrow> nat \<Rightarrow> (fpath \<Rightarrow> node option) \<Rightarrow> fpath \<Rightarrow> node option" where
  "roll g 0 m = m"
| "roll g (Suc k) m = roll g k (m(g (Suc (Suc k)) := m (g (Suc k)), g (Suc k) := None))"

lemma roll_result:
  assumes "inj g" and "m (g (Suc k)) = None"
  shows roll_first: "roll g k m (g 1) = None"
    and roll_up: "1 \<le> i \<Longrightarrow> i \<le> k \<Longrightarrow> roll g k m (g (Suc i)) = m (g i)"
    and roll_rest: "p \<notin> g ` {1..Suc k} \<Longrightarrow> roll g k m p = m p"
proof -
  have "roll g k m (g 1) = None \<and> (\<forall>i. 1 \<le> i \<longrightarrow> i \<le> k \<longrightarrow> roll g k m (g (Suc i)) = m (g i))
      \<and> (\<forall>p. p \<notin> g ` {1..Suc k} \<longrightarrow> roll g k m p = m p)"
    using assms(2)
  proof (induction k arbitrary: m)
    case (Suc k)
    define m' where "m' = m(g (Suc (Suc k)) := m (g (Suc k)), g (Suc k) := None)"
    have g: "g a = g b \<longleftrightarrow> a = b" for a b using assms(1) by (auto dest: injD)
    have m': "m' (g (Suc k)) = None" "m' (g (Suc (Suc k))) = m (g (Suc k))"
        "p \<noteq> g (Suc k) \<Longrightarrow> p \<noteq> g (Suc (Suc k)) \<Longrightarrow> m' p = m p" for p by (simp_all add: m'_def g)
    have step: "roll g (Suc k) m = roll g k m'" by (simp add: m'_def)
    note IH = Suc.IH [of m', OF m'(1)]
    have top: "g (Suc (Suc k)) \<notin> g ` {1..Suc k}" by (auto simp: g)
    have "roll g k m' (g (Suc i)) = m (g i)" if "1 \<le> i" "i \<le> Suc k" for i
    proof (cases "i = Suc k")
      case True
      with IH top m'(2) show ?thesis by simp
    next
      case False
      with that IH m'(3) [of "g i"] show ?thesis by (simp add: g)
    qed
    moreover have "roll g k m' p = m p" if "p \<notin> g ` {1..Suc (Suc k)}" for p
    proof -
      have "p \<notin> g ` {1..Suc k}" "p \<noteq> g (Suc k)" "p \<noteq> g (Suc (Suc k))" using that by auto
      with IH m'(3) show ?thesis by simp
    qed
    ultimately show ?case using IH by (simp add: step del: roll.simps)
  qed auto
  then show "roll g k m (g 1) = None"
    and "1 \<le> i \<Longrightarrow> i \<le> k \<Longrightarrow> roll g k m (g (Suc i)) = m (g i)"
    and "p \<notin> g ` {1..Suc k} \<Longrightarrow> roll g k m p = m p" by auto
qed

lemma rotate_down_rolls:
  assumes "\<And>i m. 1 \<le> i \<Longrightarrow> i \<le> k \<Longrightarrow> P m \<Longrightarrow> m (g (Suc i)) = None \<Longrightarrow>
      rotate_one c f (int i) (with_nodes s m) = with_nodes s (m(g (Suc i) := m (g i), g i := None))"
    and "\<And>i m. P m \<Longrightarrow> P (m(g (Suc i) := m (g i), g i := None))"
    and "P m" and "m (g (Suc k)) = None"
  shows "rotate_down c f k (with_nodes s m) = with_nodes s (roll g k m) \<and> P (roll g k m)"
  using assms(1,3,4)
proof (induction k arbitrary: m)
  case (Suc k)
  define m' where "m' = m(g (Suc (Suc k)) := m (g (Suc k)), g (Suc k) := None)"
  have "rotate_one c f (int (Suc k)) (with_nodes s m) = with_nodes s m'"
    unfolding m'_def using Suc.prems by (intro Suc.prems(1)) auto
  moreover have "P m'" unfolding m'_def using Suc.prems(2) by (rule assms(2))
  moreover have "m' (g (Suc k)) = None" by (simp add: m'_def)
  ultimately have "rotate_down c f k (with_nodes s m') = with_nodes s (roll g k m') \<and> P (roll g k m')"
    by (intro Suc.IH Suc.prems(1)) auto
  with \<open>rotate_one c f (int (Suc k)) (with_nodes s m) = with_nodes s m'\<close> show ?case
    by (simp add: m'_def)
qed simp

text \<open>The nodes a rotation of plain files, or of archives, may meet.\<close>

definition movable :: "file_system \<Rightarrow> string \<Rightarrow> string \<Rightarrow> (fpath \<Rightarrow> node option) \<Rightarrow> bool" where
  "movable fs dir n m = (m (resolve fs dir) = Some Dir
     \<and> (\<forall>i. m (rotated fs dir n i) \<noteq> Some Dir \<and> m (archive fs dir n i) \<noteq> Some Dir))"

lemma rotated_not_dir [simp]: "resolve fs dir \<noteq> rotated fs dir n i" "resolve fs dir \<noteq> archive fs dir n i"
  by (simp_all add: rotated_def archive_def log_at_def)

lemma movable_calm:
  "movable (files s) dir n m \<Longrightarrow> \<forall>call. \<not> refuses (files s) call \<Longrightarrow> calm (files (with_nodes s m)) dir"
  by (simp add: movable_def calm_def with_nodes_def is_dir_def)

lemma movable_beside:
  "movable (files s) dir n m \<Longrightarrow> beside (files (with_nodes s m)) dir (rotated (files s) dir n i)
     \<and> beside (files (with_nodes s m)) dir (archive (files s) dir n i)"
  by (auto simp: movable_def beside_def rotated_def archive_def)

lemma name_not_Nil [simp]: "plain_name f i \<noteq> []" "gz_name f i \<noteq> []"
  by (simp_all add: plain_name_def gz_name_def c_snprintf_def PATH_MAX_def)

lemma rotate_one_plain:
  assumes "short_log dir n" and "\<forall>call. \<not> refuses (files s) call" and "\<not> config_get_compression_enabled c"
    and "Suc i < 1000" and "movable (files s) dir n m" and "m (rotated (files s) dir n (Suc i)) = None"
  shows "rotate_one c (dir @ ''/'' @ n) (int i) (with_nodes s m) =
    with_nodes s (m(rotated (files s) dir n (Suc i) := m (rotated (files s) dir n i),
      rotated (files s) dir n i := None))"
proof -
  have i: "i < 1000" and Si: "int i + 1 = int (Suc i)" using assms(4) by simp_all
  show ?thesis
    using try_rename_moves [OF movable_calm [OF assms(5,2)], of "plain_name (dir @ ''/'' @ n) (int i)"
        "plain_name (dir @ ''/'' @ n) (int (Suc i))"] movable_beside [OF assms(5)]
      plain_resolve(1) [OF assms(1) i] plain_resolve(1) [OF assms(1,4)] assms(3,6)
    by (simp add: rotate_one_def Si del: of_nat_Suc)
qed

lemma rotate_one_gz:
  assumes "short_log dir n" and "\<forall>call. \<not> refuses (files s) call" and "config_get_compression_enabled c"
    and "Suc i < 1000" and "movable (files s) dir n m" and "m (archive (files s) dir n (Suc i)) = None"
    and "\<forall>j. m (rotated (files s) dir n j) = None"
  shows "rotate_one c (dir @ ''/'' @ n) (int i) (with_nodes s m) =
    with_nodes s (m(archive (files s) dir n (Suc i) := m (archive (files s) dir n i),
      archive (files s) dir n i := None))"
proof -
  let ?f = "dir @ ''/'' @ n"
  define m' where "m' = m(archive (files s) dir n (Suc i) := m (archive (files s) dir n i),
      archive (files s) dir n i := None)"
  have i: "i < 1000" and Si: "int i + 1 = int (Suc i)" using assms(4) by simp_all
  have gz: "try_rename msg (gz_name ?f (int i)) (gz_name ?f (int (Suc i))) (with_nodes s m) =
      (m (archive (files s) dir n i) \<noteq> None, with_nodes s m')" for msg
    using try_rename_moves [OF movable_calm [OF assms(5,2)], of "gz_name ?f (int i)" "gz_name ?f (int (Suc i))"]
      movable_beside [OF assms(5)] plain_resolve(2) [OF assms(1) i] plain_resolve(2) [OF assms(1,4)] assms(6)
    by (simp add: m'_def del: of_nat_Suc)
  have movable': "movable (files s) dir n m'" using assms(5) by (simp add: movable_def m'_def)
  have free: "m' (rotated (files s) dir n j) = None" for j using assms(7) by (simp add: m'_def)
  have same: "m'(rotated (files s) dir n j := None, rotated (files s) dir n k := None) = m'" for j k
    using free by auto
  have "snd (try_rename msg (plain_name ?f (int i)) (plain_name ?f (int (Suc i))) (with_nodes s m')) = with_nodes s m'" for msg
    using try_rename_moves [OF movable_calm [OF movable' assms(2)], of "plain_name ?f (int i)" "plain_name ?f (int (Suc i))"]
      movable_beside [OF movable'] plain_resolve(1) [OF assms(1) i] plain_resolve(1) [OF assms(1,4)] free same
    by (simp del: of_nat_Suc)
  with gz assms(3) show ?thesis
    unfolding m'_def [symmetric] by (simp add: rotate_one_def Si del: of_nat_Suc)
qed

lemma remove_file_effect:
  assumes "calm (files s) dir" and "p \<noteq> []" and "beside (files s) dir (resolve (files s) p)"
  shows "remove_file p s = with_nodes s ((node_at (files s))(resolve (files s) p := None))"
proof -
  have "snd (sys_unlink (files s) p) = (files s)\<lparr>node_at := (node_at (files s))(resolve (files s) p := None)\<rparr>"
    using assms
    by (auto simp: calm_def beside_def sys_unlink_def Let_def fun_upd_idem split: option.split node.split)
  then show ?thesis by (simp add: remove_file_def with_nodes_def)
qed

definition rotation_ready :: "config_t \<Rightarrow> string \<Rightarrow> string \<Rightarrow> 'a rotation_state_scheme \<Rightarrow> bool" where
  "rotation_ready c dir n s = (short_log dir n \<and> (\<forall>call. \<not> refuses (files s) call)
     \<and> movable (files s) dir n (node_at (files s)) \<and> node_at (files s) (log_at (files s) dir n) \<noteq> Some Dir
     \<and> 1 \<le> config_get_max_number_of_files c \<and> config_get_max_number_of_files c < 1000)"

text \<open>The nodes once the oldest files are gone.\<close>

definition without_oldest :: "config_t \<Rightarrow> string \<Rightarrow> string \<Rightarrow> file_system \<Rightarrow> fpath \<Rightarrow> node option" where
  "without_oldest c dir n fs = (let k = nat (config_get_max_number_of_files c)
     in (node_at fs)(archive fs dir n k := None, rotated fs dir n k := None))"

lemma oldest_removed:
  assumes "rotation_ready c dir n s"
  shows "remove_file (plain_name (dir @ ''/'' @ n) (config_get_max_number_of_files c))
      (remove_file (gz_name (dir @ ''/'' @ n) (config_get_max_number_of_files c)) s)
    = with_nodes s (without_oldest c dir n (files s))"
    and "movable (files s) dir n (without_oldest c dir n (files s))"
proof -
  define k where "k = nat (config_get_max_number_of_files c)"
  have k: "config_get_max_number_of_files c = int k" "k < 1000"
    using assms by (auto simp: rotation_ready_def k_def)
  have ready: "short_log dir n" "\<forall>call. \<not> refuses (files s) call" "movable (files s) dir n (node_at (files s))"
    using assms by (auto simp: rotation_ready_def)
  let ?m = "(node_at (files s))(archive (files s) dir n k := None)"
  note names = plain_resolve [OF ready(1) k(2)]
  have gz: "remove_file (gz_name (dir @ ''/'' @ n) (int k)) s = with_nodes s ?m"
    using remove_file_effect [OF movable_calm [OF ready(3,2)], of "gz_name (dir @ ''/'' @ n) (int k)"]
      movable_beside [OF ready(3)] names by simp
  have m: "movable (files s) dir n ?m" using ready(3) by (simp add: movable_def)
  show "remove_file (plain_name (dir @ ''/'' @ n) (config_get_max_number_of_files c))
      (remove_file (gz_name (dir @ ''/'' @ n) (config_get_max_number_of_files c)) s)
    = with_nodes s (without_oldest c dir n (files s))"
    using remove_file_effect [OF movable_calm [OF m ready(2)], of "plain_name (dir @ ''/'' @ n) (int k)"]
      movable_beside [OF m] names gz
    by (simp add: k without_oldest_def)
  show "movable (files s) dir n (without_oldest c dir n (files s))"
    using ready(3) by (simp add: movable_def without_oldest_def k)
qed

lemma log_resolve: "short_log dir n \<Longrightarrow> resolve fs (dir @ ''/'' @ n) = log_at fs dir n"
  using resolve_log [of dir n "[]" fs] by (simp add: short_log_def)

lemma movable_move:
  "movable fs dir n m \<Longrightarrow> movable fs dir n (m(rotated fs dir n (Suc i) := m (rotated fs dir n i), rotated fs dir n i := None))"
  "movable fs dir n m \<Longrightarrow> movable fs dir n (m(archive fs dir n (Suc i) := m (archive fs dir n i), archive fs dir n i := None))"
  by (simp_all add: movable_def)

lemma rotate_plain:
  assumes "rotation_ready c dir n s" and "\<not> config_get_compression_enabled c"
    and "k = nat (config_get_max_number_of_files c - 1)"
  shows "rotate_down c (dir @ ''/'' @ n) k (with_nodes s (without_oldest c dir n (files s)))
      = with_nodes s (roll (rotated (files s) dir n) k (without_oldest c dir n (files s)))
    \<and> movable (files s) dir n (roll (rotated (files s) dir n) k (without_oldest c dir n (files s)))"
proof (rule rotate_down_rolls [where P = "movable (files s) dir n"])
  have k: "Suc k = nat (config_get_max_number_of_files c)" "Suc k < 1000"
    using assms(1,3) by (auto simp: rotation_ready_def)
  have ready: "short_log dir n" "\<forall>call. \<not> refuses (files s) call"
    using assms(1) by (auto simp: rotation_ready_def)
  show "rotate_one c (dir @ ''/'' @ n) (int i) (with_nodes s m) = with_nodes s
      (m(rotated (files s) dir n (Suc i) := m (rotated (files s) dir n i), rotated (files s) dir n i := None))"
    if "1 \<le> i" "i \<le> k" "movable (files s) dir n m" "m (rotated (files s) dir n (Suc i)) = None" for i m
    using that k(2) by (intro rotate_one_plain [OF ready assms(2)]) auto
  show "without_oldest c dir n (files s) (rotated (files s) dir n (Suc k)) = None"
    by (simp add: without_oldest_def Let_def k)
qed (use oldest_removed(2) [OF assms(1)] movable_move(1) in auto)

lemma rotate_gz:
  assumes "rotation_ready c dir n s" and "config_get_compression_enabled c"
    and "k = nat (config_get_max_number_of_files c - 1)" and "\<forall>j. node_at (files s) (rotated (files s) dir n j) = None"
  shows "rotate_down c (dir @ ''/'' @ n) k (with_nodes s (without_oldest c dir n (files s)))
      = with_nodes s (roll (archive (files s) dir n) k (without_oldest c dir n (files s)))
    \<and> movable (files s) dir n (roll (archive (files s) dir n) k (without_oldest c dir n (files s)))
    \<and> (\<forall>j. roll (archive (files s) dir n) k (without_oldest c dir n (files s)) (rotated (files s) dir n j) = None)"
proof (rule rotate_down_rolls [where P = "\<lambda>m. movable (files s) dir n m \<and> (\<forall>j. m (rotated (files s) dir n j) = None)"])
  have k: "Suc k = nat (config_get_max_number_of_files c)" "Suc k < 1000"
    using assms(1,3) by (auto simp: rotation_ready_def)
  have ready: "short_log dir n" "\<forall>call. \<not> refuses (files s) call"
    using assms(1) by (auto simp: rotation_ready_def)
  show "rotate_one c (dir @ ''/'' @ n) (int i) (with_nodes s m) = with_nodes s
      (m(archive (files s) dir n (Suc i) := m (archive (files s) dir n i), archive (files s) dir n i := None))"
    if "1 \<le> i" "i \<le> k" "movable (files s) dir n m \<and> (\<forall>j. m (rotated (files s) dir n j) = None)"
      "m (archive (files s) dir n (Suc i)) = None" for i m
    using that k(2) by (intro rotate_one_gz [OF ready assms(2)]) auto
  show "without_oldest c dir n (files s) (archive (files s) dir n (Suc k)) = None"
    by (simp add: without_oldest_def Let_def k)
  show "movable (files s) dir n (without_oldest c dir n (files s))
      \<and> (\<forall>j. without_oldest c dir n (files s) (rotated (files s) dir n j) = None)"
    using oldest_removed(2) [OF assms(1)] assms(4) by (simp add: without_oldest_def Let_def)
qed (use movable_move(2) in auto)

lemma rotated_inj: "inj (rotated fs dir n)" "inj (archive fs dir n)"
  by (auto intro: injI)

lemma rotation_sets_nodes:
  assumes "rotation_ready c dir n s" and "\<not> config_get_compression_enabled c"
    and "g = rotated (files s) dir n" and "log = log_at (files s) dir n"
    and "k = nat (config_get_max_number_of_files c - 1)"
  shows "rotate_logs c e (dir @ ''/'' @ n) s = with_nodes s
    ((roll g k (without_oldest c dir n (files s)))(g 1 := node_at (files s) log, log := None))"
proof -
  let ?f = "dir @ ''/'' @ n"
  have ready: "short_log dir n" "\<forall>call. \<not> refuses (files s) call" "node_at (files s) log \<noteq> Some Dir"
    using assms(1,4) by (auto simp: rotation_ready_def)
  define m where "m = roll g k (without_oldest c dir n (files s))"
  have down: "rotate_down c ?f k (with_nodes s (without_oldest c dir n (files s))) = with_nodes s m"
    and mov: "movable (files s) dir n m"
    using rotate_plain [OF assms(1,2,5)] by (simp_all add: m_def assms(3))
  have None: "without_oldest c dir n (files s) (g (Suc k)) = None"
    using assms(1,5) by (auto simp: without_oldest_def Let_def assms(3) rotation_ready_def Suc_nat_eq_nat_zadd1)
  have first: "m (g 1) = None"
    using roll_first [of g "without_oldest c dir n (files s)" k] None rotated_inj(1) by (simp add: m_def assms(3))
  have log: "m log = node_at (files s) log"
  proof -
    have "log \<notin> g ` {1..Suc k}" by (auto simp: assms(3,4))
    moreover have "without_oldest c dir n (files s) log = node_at (files s) log"
      by (simp add: without_oldest_def Let_def assms(4))
    ultimately show ?thesis
      using roll_rest [of g "without_oldest c dir n (files s)" k log] None rotated_inj(1)
      by (simp add: m_def assms(3))
  qed
  have len: "length ?f + 8 < PATH_MAX + 1" using ready(1) by (simp add: short_log_def)
  have "c_snprintf PATH_MAX ?f = ?f" using ready(1) by (simp add: short_log_def)
  moreover have "c_snprintf PATH_MAX (?f @ ''.1'') = plain_name ?f (int 1)"
    using len by (simp add: plain_name_def)
  moreover have "try_rename msg ?f (plain_name ?f (int 1)) (with_nodes s m) =
      (node_at (files s) log \<noteq> None, with_nodes s (m(g 1 := node_at (files s) log, log := None)))" for msg
  proof -
    have "beside (files (with_nodes s m)) dir log"
      using log ready(3) assms(4) by (auto simp: beside_def)
    then show ?thesis
      using try_rename_moves [OF movable_calm [OF mov ready(2)], of ?f "plain_name ?f (int 1)" msg]
        movable_beside [OF mov] plain_resolve(1) [OF ready(1), of 1] log_resolve [OF ready(1)] log first
      by (simp add: assms(3,4) del: of_nat_Suc)
  qed
  ultimately show ?thesis
    using oldest_removed(1) [OF assms(1)] down assms(2,5)
    by (simp add: rotate_logs_def Let_def m_def del: of_nat_Suc)
qed

text \<open>The name of a pending file is none of the numbered names.\<close>

lemma timed_not_numbered:
  fixes x :: string
  shows "log_at fs dir (n @ ''.1.'' @ show_int t @ ''.'' @ x) \<noteq> rotated fs dir n i"
    and "log_at fs dir (n @ ''.1.'' @ show_int t @ ''.'' @ x) \<noteq> archive fs dir n i"
    and "log_at fs dir (n @ ''.1.'' @ show_int t @ ''.'' @ x) \<noteq> log_at fs dir n"
proof -
  have dot: "CHR ''.'' \<notin> set (show_nat i)" by (simp add: show_nat_notin)
  have "CHR ''1'' # CHR ''.'' # y \<noteq> show_nat i" for y
  proof
    assume eq: "CHR ''1'' # CHR ''.'' # y = show_nat i"
    have "CHR ''.'' \<in> set (show_nat i)" unfolding eq [symmetric] by simp
    with dot show False by simp
  qed
  then show "log_at fs dir (n @ ''.1.'' @ show_int t @ ''.'' @ x) \<noteq> rotated fs dir n i"
    by (simp add: rotated_def)
  show "log_at fs dir (n @ ''.1.'' @ show_int t @ ''.'' @ x) \<noteq> archive fs dir n i"
  proof
    assume "log_at fs dir (n @ ''.1.'' @ show_int t @ ''.'' @ x) = archive fs dir n i"
    then have eq: "''1'' @ CHR ''.'' # show_int t @ ''.'' @ x = show_nat i @ CHR ''.'' # ''gz''"
      by (simp add: archive_def)
    have "Some (''1'', show_int t @ ''.'' @ x)
        = split_first CHR ''.'' (''1'' @ CHR ''.'' # show_int t @ ''.'' @ x)"
      by (rule split_first_append [symmetric]) simp
    also have "\<dots> = Some (show_nat i, ''gz'')" unfolding eq using dot by (rule split_first_append)
    finally have "show_int t @ ''.'' @ x = ''gz''" by (simp only: option.inject prod.inject)
    with show_int_digit [of t] show False by auto
  qed
  show "log_at fs dir (n @ ''.1.'' @ show_int t @ ''.'' @ x) \<noteq> log_at fs dir n" by simp
qed

lemma pending_not_numbered [simp]:
  "pending fs dir n t k \<noteq> rotated fs dir n i" "pending fs dir n t k \<noteq> archive fs dir n i"
  "pending fs dir n t k \<noteq> log_at fs dir n"
  unfolding pending_def by (rule timed_not_numbered)+

lemma partial_not_numbered:
  "partial_archive fs dir n t k \<noteq> rotated fs dir n i" "partial_archive fs dir n t k \<noteq> archive fs dir n i"
  "partial_archive fs dir n t k \<noteq> log_at fs dir n"
  unfolding partial_archive_def by (rule timed_not_numbered)+

lemma pending_not_numbered' [simp]:
  "rotated fs dir n i \<noteq> pending fs dir n t k" "archive fs dir n i \<noteq> pending fs dir n t k"
  "log_at fs dir n \<noteq> pending fs dir n t k"
  using pending_not_numbered [symmetric] .

lemma roll_gz_same:
  assumes "rotation_ready c dir n s" and "k = nat (config_get_max_number_of_files c - 1)"
    and "p = log_at (files s) dir n \<or> p = pending (files s) dir n t i"
  shows "roll (archive (files s) dir n) k (without_oldest c dir n (files s)) p = node_at (files s) p"
proof -
  have "without_oldest c dir n (files s) (archive (files s) dir n (Suc k)) = None"
    using assms(1,2) by (auto simp: without_oldest_def Let_def rotation_ready_def Suc_nat_eq_nat_zadd1)
  moreover have "p \<notin> archive (files s) dir n ` {1..Suc k}" using assms(3) by auto
  moreover have "without_oldest c dir n (files s) p = node_at (files s) p"
    using assms(3) by (auto simp: without_oldest_def Let_def)
  ultimately show ?thesis
    using roll_rest [of "archive (files s) dir n" "without_oldest c dir n (files s)" k p] rotated_inj(2) by simp
qed

text \<open>The rename of the current log to its pending name.\<close>

lemma rename_to_pending:
  assumes "short_log dir n" and "calm (files s) dir"
    and "log = log_at (files s) dir n" and "new = pending (files s) dir n t i" and "job = pending_path (dir @ ''/'' @ n) t i"
    and "node_at (files s) log \<noteq> Some Dir" and "node_at (files s) new = None"
  shows "try_rename msg (dir @ ''/'' @ n) job s = (node_at (files s) log \<noteq> None,
     with_nodes s ((node_at (files s))(new := node_at (files s) log, log := None)))"
proof -
  have "resolve (files s) (dir @ ''/'' @ n) = log" and "resolve (files s) job = new"
    using log_resolve [OF assms(1)] pending_names(1) [of dir n "files s"] assms(1)
    by (simp_all add: assms(3-5) short_log_def)
  moreover have "beside (files s) dir log" "beside (files s) dir new"
    using assms(6,7) by (auto simp: beside_def assms(3,4))
  moreover have "job \<noteq> []" by (simp add: assms(5) pending_path_def)
  ultimately show ?thesis
    using try_rename_moves [of s dir "dir @ ''/'' @ n" job msg] assms(2,7) by (simp add: assms(3,4))
qed

lemma compression_sets_nodes:
  assumes "rotation_ready c dir n s" and "config_get_compression_enabled c"
    and "g = archive (files s) dir n" and "log = log_at (files s) dir n"
    and "k = nat (config_get_max_number_of_files c - 1)" and "\<forall>j. node_at (files s) (rotated (files s) dir n j) = None"
    and "job = pending_path (dir @ ''/'' @ n) (now e) (unat (rotation_counter s))" and "length job < PATH_MAX"
    and "new = pending (files s) dir n (now e) (unat (rotation_counter s))" and "node_at (files s) new = None"
  shows "rotate_logs c e (dir @ ''/'' @ n) s = (with_nodes s
    ((roll g k (without_oldest c dir n (files s)))(new := node_at (files s) log, log := None)))
      \<lparr>rotation_counter := rotation_counter s + 1,
        queue := fst (compression_enqueue_file c (job_cell e) (Some job) (queue s)),
        err_out := err_out s @ snd (compression_enqueue_file c (job_cell e) (Some job) (queue s))\<rparr>"
proof -
  let ?f = "dir @ ''/'' @ n"
  have ready: "short_log dir n" "\<forall>call. \<not> refuses (files s) call" "node_at (files s) log \<noteq> Some Dir"
    using assms(1,4) by (auto simp: rotation_ready_def)
  define m where "m = roll g k (without_oldest c dir n (files s))"
  have down: "rotate_down c ?f k (with_nodes s (without_oldest c dir n (files s))) = with_nodes s m"
    and mov: "movable (files s) dir n m"
    using rotate_gz [OF assms(1,2,5,6)] by (simp_all add: m_def assms(3))
  have same: "m p = node_at (files s) p" if "p = log \<or> p = new" for p
    using roll_gz_same [OF assms(1,5)] that by (auto simp: m_def assms(3,4,9))
  define s4 where "s4 = (with_nodes s m)\<lparr>rotation_counter := rotation_counter s + 1\<rparr>"
  have f: "c_snprintf PATH_MAX ?f = ?f" using ready(1) by (simp add: short_log_def)
  have rename: "try_rename msg ?f job s4 = (node_at (files s) log \<noteq> None,
      with_nodes s4 (m(new := node_at (files s) log, log := None)))" for msg
    using rename_to_pending [of dir n s4 log new "now e" "unat (rotation_counter s)" job msg] ready(1,3) same assms(10)
      movable_calm [OF mov ready(2)]
    by (simp add: s4_def assms(4,7,9))
  have cfg: "nat (config_get_max_number_of_files c - 1) = k" using assms(5) by simp
  have job: "c_snprintf PATH_MAX (pending_path ?f (now e) (unat (rotation_counter s))) = job"
    using assms(7,8) by simp
  define s5 where "s5 = with_nodes s4 (m(new := node_at (files s) log, log := None))"
  have "rotate_logs c e ?f s = s5\<lparr>queue := fst (compression_enqueue_file c (job_cell e) (Some job) (queue s5)),
      err_out := err_out s5 @ snd (compression_enqueue_file c (job_cell e) (Some job) (queue s5))\<rparr>"
    unfolding rotate_logs_def Let_def cfg oldest_removed(1) [OF assms(1)] down f
    using assms(2) job rename by (simp add: s4_def [symmetric] s5_def [symmetric] split: prod.split)
  then show ?thesis by (simp add: s5_def s4_def with_nodes_def m_def)
qed

section \<open>What a rotation does\<close>

lemma max_files:
  assumes "rotation_ready c dir n s" and "k = nat (config_get_max_number_of_files c - 1)"
  shows "Suc k = nat (config_get_max_number_of_files c)"
    and "int i < config_get_max_number_of_files c \<longleftrightarrow> i \<le> k"
  using assms by (auto simp: rotation_ready_def)

text \<open>C10: Rotation without compression. The current log becomes number 1, every numbered file moves up
  by one, the one with the highest number is dropped (as is an archive with that number), the name of
  the log is free again, and nothing else on the disk changes; no error is reported and nothing is
  handed to the worker.\<close>

theorem rotation_shifts:
  assumes "rotation_ready c dir n s" and "\<not> config_get_compression_enabled c"
    and "fs = files s" and "s' = rotate_logs c e (dir @ ''/'' @ n) s" and "fs' = files s'"
  shows "node_at fs' (log_at fs dir n) = None
    \<and> node_at fs' (rotated fs dir n 1) = node_at fs (log_at fs dir n)
    \<and> (\<forall>i. 1 \<le> i \<and> int i < config_get_max_number_of_files c \<longrightarrow>
          node_at fs' (rotated fs dir n (Suc i)) = node_at fs (rotated fs dir n i))
    \<and> (\<forall>p. p \<noteq> log_at fs dir n \<and> p \<noteq> archive fs dir n (nat (config_get_max_number_of_files c))
          \<and> p \<notin> rotated fs dir n ` {1..nat (config_get_max_number_of_files c)} \<longrightarrow> node_at fs' p = node_at fs p)
    \<and> queue s' = queue s \<and> err_out s' = err_out s"
proof -
  define k where "k = nat (config_get_max_number_of_files c - 1)"
  define m where "m = without_oldest c dir n fs"
  note max = max_files [OF assms(1) k_def]
  have s': "s' = with_nodes s ((roll (rotated fs dir n) k m)(rotated fs dir n 1 := node_at fs (log_at fs dir n),
      log_at fs dir n := None))"
    using rotation_sets_nodes [OF assms(1,2) refl refl k_def] assms(3,4) by (simp add: m_def)
  then have fs': "node_at fs' = (roll (rotated fs dir n) k m)(rotated fs dir n 1 := node_at fs (log_at fs dir n),
      log_at fs dir n := None)" by (simp add: assms(5))
  have top: "m (rotated fs dir n (Suc k)) = None" by (simp add: m_def without_oldest_def Let_def max)
  have m: "m p = node_at fs p" if "p \<noteq> rotated fs dir n (Suc k)" "p \<noteq> archive fs dir n (Suc k)" for p
    using that by (simp add: m_def without_oldest_def Let_def max)
  have "node_at fs' (rotated fs dir n (Suc i)) = node_at fs (rotated fs dir n i)" if "1 \<le> i" "i \<le> k" for i
    using roll_up [of "rotated fs dir n" m k i, OF rotated_inj(1) top] that m by (simp add: fs')
  moreover have "node_at fs' p = node_at fs p" if "p \<noteq> log_at fs dir n" "p \<noteq> archive fs dir n (Suc k)"
      "p \<notin> rotated fs dir n ` {1..Suc k}" for p
  proof -
    have "p \<noteq> rotated fs dir n (Suc k)" "p \<noteq> rotated fs dir n 1" using that(3) by auto
    with that show ?thesis
      using roll_rest [of "rotated fs dir n" m k p, OF rotated_inj(1) top] m by (simp add: fs')
  qed
  ultimately show ?thesis unfolding max(2) max(1) [symmetric] using s' by (auto simp: fs')
qed

lemma compression_nodes:
  assumes "rotation_ready c dir n s" and "config_get_compression_enabled c"
    and "\<forall>j. node_at (files s) (rotated (files s) dir n j) = None"
    and "job = pending_path (dir @ ''/'' @ n) (now e) (unat (rotation_counter s))" and "length job < PATH_MAX"
    and "new = pending (files s) dir n (now e) (unat (rotation_counter s))" and "node_at (files s) new = None"
    and "fs = files s" and "s' = rotate_logs c e (dir @ ''/'' @ n) s"
  shows "node_at (files s') (log_at fs dir n) = None" and "node_at (files s') (archive fs dir n 1) = None"
    and "node_at (files s') new = node_at fs (log_at fs dir n)"
    and "1 \<le> i \<Longrightarrow> int i < config_get_max_number_of_files c \<Longrightarrow>
      node_at (files s') (archive fs dir n (Suc i)) = node_at fs (archive fs dir n i)"
    and "files s' = fs\<lparr>node_at := node_at (files s')\<rparr>"
    and "p \<noteq> new \<Longrightarrow> p \<noteq> log_at fs dir n \<Longrightarrow> (\<forall>i. p \<noteq> archive fs dir n i) \<Longrightarrow> (\<forall>i. p \<noteq> rotated fs dir n i) \<Longrightarrow>
      node_at (files s') p = node_at fs p"
proof -
  define k where "k = nat (config_get_max_number_of_files c - 1)"
  define m where "m = without_oldest c dir n fs"
  note max = max_files [OF assms(1) k_def]
  note sets = compression_sets_nodes [OF assms(1,2) refl refl k_def assms(3-7), folded assms(8), folded m_def]
  have fs': "node_at (files s') = (roll (archive fs dir n) k m)(new := node_at fs (log_at fs dir n), log_at fs dir n := None)"
    using sets assms(9) by (simp add: with_nodes_def)
  have top: "m (archive fs dir n (Suc k)) = None" by (simp add: m_def without_oldest_def Let_def max)
  have "node_at (files s') (archive fs dir n (Suc i)) = node_at fs (archive fs dir n i)" if "1 \<le> i" "i \<le> k" for i
    using roll_up [of "archive fs dir n" m k i, OF rotated_inj(2) top] that
    by (simp add: fs' assms(6,8) m_def without_oldest_def Let_def max(1) [symmetric])
  then show "1 \<le> i \<Longrightarrow> int i < config_get_max_number_of_files c \<Longrightarrow>
      node_at (files s') (archive fs dir n (Suc i)) = node_at fs (archive fs dir n i)" by (simp add: max(2))
  show "node_at (files s') (archive fs dir n 1) = None"
    using roll_first [of "archive fs dir n" m k, OF rotated_inj(2) top] by (simp add: fs' assms(6,8))
  show "node_at (files s') p = node_at fs p" if "p \<noteq> new" "p \<noteq> log_at fs dir n" "\<forall>i. p \<noteq> archive fs dir n i"
      "\<forall>i. p \<noteq> rotated fs dir n i"
  proof -
    have "p \<notin> archive fs dir n ` {1..Suc k}" using that(3) by auto
    with that show ?thesis
      using roll_rest [of "archive fs dir n" m k p, OF rotated_inj(2) top]
      by (simp add: fs' m_def without_oldest_def Let_def)
  qed
qed (use compression_sets_nodes [OF assms(1,2) refl refl refl assms(3-7)] assms(6,8,9) in
    \<open>simp_all add: with_nodes_def\<close>)

text \<open>Rotation with compression, where no uncompressed numbered file is left from a run without it.
  Every archive moves up by one and number 1 becomes free; the current log gets the unique name made
  of the time and the counter, a job with that name goes to the end of the worker's queue, and the
  counter advances.\<close>

theorem rotation_hands_over:
  assumes "rotation_ready c dir n s" and "config_get_compression_enabled c"
    and "\<forall>j. node_at (files s) (rotated (files s) dir n j) = None"
    and "job = pending_path (dir @ ''/'' @ n) (now e) (unat (rotation_counter s))" and "length job < PATH_MAX"
    and "new = pending (files s) dir n (now e) (unat (rotation_counter s))" and "node_at (files s) new = None"
    and "job_cell e = Some a" and "queue_cells (queue s) q" and "a \<notin> set q"
    and "fs = files s" and "s' = rotate_logs c e (dir @ ''/'' @ n) s"
  shows "node_at (files s') (log_at fs dir n) = None \<and> node_at (files s') (archive fs dir n 1) = None
    \<and> node_at (files s') new = node_at fs (log_at fs dir n)
    \<and> (\<forall>i. 1 \<le> i \<and> int i < config_get_max_number_of_files c \<longrightarrow>
          node_at (files s') (archive fs dir n (Suc i)) = node_at fs (archive fs dir n i))
    \<and> queue_cells (queue s') (q @ [a]) \<and> path_of (queue s') a = job
    \<and> rotation_counter s' = rotation_counter s + 1 \<and> err_out s' = err_out s"
proof -
  note nodes = compression_nodes [OF assms(1-7,11,12)]
  note sets = compression_sets_nodes [OF assms(1,2) refl refl refl assms(3-7)]
  have "queue s' = link_job a (alloc_job a job (queue s))" "err_out s' = err_out s"
      "rotation_counter s' = rotation_counter s + 1"
    using sets assms(2,8,12) by (simp_all add: compression_enqueue_file_def)
  moreover have "take (PATH_MAX - 1) job = job" using assms(5) by simp
  ultimately show ?thesis using nodes(1-4) alloc_link_cells [OF assms(9,10)] by (simp add: path_of_alloc)
qed

section \<open>The file tree stays well formed\<close>

lemma try_rename_ok: "fs_ok (files s) \<Longrightarrow> fs_ok (files (snd (try_rename msg a b s)))"
  using sys_rename_ok [of "files s" a b]
  by (cases "sys_rename (files s) a b") (auto simp: try_rename_def split: option.split)

lemma rotate_one_ok: "fs_ok (files s) \<Longrightarrow> fs_ok (files (rotate_one c f i s))"
  using try_rename_ok [of s "''rotate rename failed (gz), trying fallback ''" "gz_name f i" "gz_name f (i + 1)"]
  by (cases "try_rename ''rotate rename failed (gz), trying fallback '' (gz_name f i) (gz_name f (i + 1)) s")
    (auto simp: rotate_one_def try_rename_ok)

lemma rotate_down_ok: "fs_ok (files s) \<Longrightarrow> fs_ok (files (rotate_down c f k s))"
  by (induction k arbitrary: s) (simp_all add: rotate_one_ok)

lemma rotate_logs_ok [fs_simps]: "fs_ok (files s) \<Longrightarrow> fs_ok (files (rotate_logs c e f s))"
  by (auto simp: rotate_logs_def Let_def remove_file_def intro!: try_rename_ok rotate_down_ok
      simp: sys_unlink_ok split: prod.split)

lemma rotate_and_reopen_ok [fs_simps]: "fs_ok (files s) \<Longrightarrow> fs_ok (files (snd (rotate_and_reopen c e f s)))"
  using open_write_ok [of "files (rotate_logs c e f s)" False f] rotate_logs_ok [of s c e f]
  by (cases "open_write False (files (rotate_logs c e f s)) f")
    (auto simp: rotate_and_reopen_def Let_def split: option.split)

lemma compress_ok: "fs_ok fs \<Longrightarrow> fs_ok (fst (snd (compress_file_gzip z fs src dst)))"
  using open_write_ok [of fs True dst]
  by (cases "open_write True fs dst")
    (auto simp: compress_file_gzip_def Let_def append_file_ok split: option.split prod.split)

lemma process_job_ok [fs_simps]:
  assumes "fs_ok fs"
  shows "fs_ok (fst (process_job z fs p))"
proof (cases "extract_base_path (Some p) PATH_MAX")
  case None
  with assms show ?thesis by (simp add: process_job_def)
next
  case (Some base)
  obtain rc fs1 err where compress: "compress_file_gzip z fs p (p @ GZ_SUFFIX) = (rc, fs1, err)"
    by (metis prod_cases3)
  with compress_ok [OF assms, of z p "p @ GZ_SUFFIX"] have "fs_ok fs1" by simp
  moreover obtain r fs2 where "sys_rename fs1 (p @ GZ_SUFFIX) (base @ ''.1'' @ GZ_SUFFIX) = (r, fs2)"
    by fastforce
  moreover from this have "fs_ok fs2"
    using sys_rename_ok [OF \<open>fs_ok fs1\<close>, of "p @ GZ_SUFFIX" "base @ ''.1'' @ GZ_SUFFIX"] by simp
  ultimately show ?thesis using assms Some compress
    by (simp add: process_job_def Let_def sys_unlink_ok split: option.split)
qed

section \<open>Two pending logs of the same name\<close>

lemma pending_inject: "pending fs dir n t k = pending fs dir n t' k' \<Longrightarrow> k = k'"
proof -
  assume "pending fs dir n t k = pending fs dir n t' k'"
  then have eq: "show_int t @ CHR ''.'' # show_nat k = show_int t' @ CHR ''.'' # show_nat k'"
    by (simp add: pending_def)
  have "Some (show_int t, show_nat k) = split_last CHR ''.'' (show_int t @ CHR ''.'' # show_nat k)"
    by (rule split_last_append [symmetric]) (simp add: show_nat_notin)
  also have "\<dots> = Some (show_int t', show_nat k')"
    unfolding eq by (rule split_last_append) (simp add: show_nat_notin)
  finally show "k = k'" by (simp add: show_nat_inject)
qed

lemma partial_other:
  "k \<noteq> k' \<Longrightarrow> partial_archive fs dir n t' k' \<noteq> partial_archive fs dir n t k"
  "partial_archive fs dir n t' k' \<noteq> pending fs dir n t k"
proof -
  show "partial_archive fs dir n t' k' \<noteq> partial_archive fs dir n t k" if "k \<noteq> k'"
  proof
    assume "partial_archive fs dir n t' k' = partial_archive fs dir n t k"
    then have "(show_int t' @ CHR ''.'' # show_nat k') @ ''.gz'' = (show_int t @ CHR ''.'' # show_nat k) @ ''.gz''"
      by (simp add: partial_archive_def)
    then have "pending fs dir n t' k' = pending fs dir n t k"
      by (simp only: append_same_eq) (simp add: pending_def)
    from pending_inject [OF this] that show False by simp
  qed
  show "partial_archive fs dir n t' k' \<noteq> pending fs dir n t k"
  proof
    assume eq: "partial_archive fs dir n t' k' = pending fs dir n t k"
    then have "last (show_nat k) = CHR ''z''"
      by (auto simp: partial_archive_def pending_def dest!: arg_cong [of _ _ last])
    moreover have "CHR ''z'' \<notin> set (show_nat k)" by (simp add: show_nat_notin c_isdigit_def)
    ultimately show False using last_in_set [of "show_nat k"] by simp
  qed
qed

text \<open>When the worker is slower than the rotations, archives are lost. Two rotations of the same log
  leave two pending files with different names, but both jobs end at the same archive name: after
  the worker has processed them both, number 1 holds the second log only, and of the first nothing is
  left on the disk that was not there before.\<close>

theorem pending_logs_collide:
  assumes "log_name dir n" and "fs_ok fs" and "\<forall>call. \<not> refuses fs call" and "k1 \<noteq> k2"
    and "node_at fs (pending fs dir n t1 k1) = Some (File d1)" and "node_at fs (pending fs dir n t2 k2) = Some (File d2)"
    and "node_at fs (partial_archive fs dir n t1 k1) = None" and "node_at fs (partial_archive fs dir n t2 k2) = None"
    and "\<not> is_dir fs (archive fs dir n 1)"
    and "length (pending_path (dir @ ''/'' @ n) t1 k1) + 3 < PATH_MAX" and "length (pending_path (dir @ ''/'' @ n) t2 k2) + 3 < PATH_MAX"
    and "\<forall>ws b. gzwrite z ws b \<noteq> 0"
    and "fs1 = fst (process_job z fs (pending_path (dir @ ''/'' @ n) t1 k1))"
    and "fs2 = fst (process_job z fs1 (pending_path (dir @ ''/'' @ n) t2 k2))"
  shows "\<exists>ws. concat ws = d2 \<and> node_at fs2 = (node_at fs)(pending fs dir n t1 k1 := None,
     pending fs dir n t2 k2 := None, archive fs dir n 1 \<mapsto> File (snd (gzclose z ws)))"
proof -
  obtain ws1 ws2 where ws: "gz_copy z [] d1 = (ws1, True)" "gz_copy z [] d2 = (ws2, True)"
    using gz_copy_complete [OF assms(12)] by (metis prod.collapse)
  note first = process_job_result [OF assms(1,2,5,7,9,10,3) ws(1)]
  define m where "m = (node_at fs)(partial_archive fs dir n t1 k1 := None,
       archive fs dir n 1 \<mapsto> File (snd (gzclose z ws1)), pending fs dir n t1 k1 := None)"
  have fs1: "fs1 = fs\<lparr>node_at := m\<rparr>" using first assms(13) by (simp add: m_def)
  have other: "pending fs dir n t2 k2 \<noteq> pending fs dir n t1 k1" "partial_archive fs dir n t2 k2 \<noteq> partial_archive fs dir n t1 k1"
    using assms(4) pending_inject partial_other(1) by metis+
  note names = other partial_other(2) partial_other(2) [symmetric] pending_distinct pending_distinct [symmetric]
  have ok: "fs_ok fs1" using process_job_ok [OF assms(2)] assms(13) by simp
  have second: "process_job z fs1 (pending_path (dir @ ''/'' @ n) t2 k2) =
    (fs1\<lparr>node_at := (node_at fs1)(partial_archive fs1 dir n t2 k2 := None,
       archive fs1 dir n 1 \<mapsto> File (snd (gzclose z ws2)), pending fs1 dir n t2 k2 := None)\<rparr>, [])"
    by (rule process_job_result [OF assms(1) ok _ _ _ assms(11) _ ws(2)])
      (use assms(3,6,8) names in \<open>simp_all add: fs1 m_def is_dir_def\<close>)
  have "concat ws2 = d2" using gz_copy_True [OF ws(2)] .
  moreover have "node_at fs2 = (node_at fs)(pending fs dir n t1 k1 := None,
     pending fs dir n t2 k2 := None, archive fs dir n 1 \<mapsto> File (snd (gzclose z ws2)))"
    using second assms(7,8,14) names by (auto simp: fs1 m_def fun_eq_iff)
  ultimately show ?thesis by blast
qed

text \<open>C11: A rotation followed by the worker's job. When the worker processes the job before the next
  rotation and nothing fails, the contents of the log end up in archive number 1, which decompresses
  to them, every older archive is one number up, and neither the log nor the pending file remains.\<close>

theorem rotation_archived:
  assumes "rotation_ready c dir n s" and "config_get_compression_enabled c" and "fs_ok (files s)"
    and "\<forall>j. node_at (files s) (rotated (files s) dir n j) = None"
    and "job = pending_path (dir @ ''/'' @ n) (now e) (unat (rotation_counter s))" and "length job + 3 < PATH_MAX"
    and "new = pending (files s) dir n (now e) (unat (rotation_counter s))" and "node_at (files s) new = None"
    and "node_at (files s) (partial_archive (files s) dir n (now e) (unat (rotation_counter s))) = None"
    and "node_at (files s) (log_at (files s) dir n) = Some (File d)"
    and "gzip_lossless z gunzip" and "\<forall>ws b. gzwrite z ws b \<noteq> 0" and "\<forall>ws. fst (gzclose z ws) = 0"
    and "fs = files s" and "fs' = fst (process_job z (files (rotate_logs c e (dir @ ''/'' @ n) s)) job)"
  shows "\<exists>g. gunzip g = d \<and> node_at fs' (archive fs dir n 1) = Some (File g)
    \<and> node_at fs' (log_at fs dir n) = None \<and> node_at fs' new = None
    \<and> (\<forall>i. 1 \<le> i \<and> int i < config_get_max_number_of_files c \<longrightarrow>
          node_at fs' (archive fs dir n (Suc i)) = node_at fs (archive fs dir n i))"
proof -
  define s1 where "s1 = rotate_logs c e (dir @ ''/'' @ n) s"
  define m where "m = node_at (files s1)"
  have short: "length job < PATH_MAX" using assms(6) by simp
  note nodes = compression_nodes [OF assms(1,2,4,5) short assms(7,8,14) s1_def, folded m_def]
  have fs1: "files s1 = fs\<lparr>node_at := m\<rparr>" using nodes(5) by simp
  have new: "new = pending fs dir n (now e) (unat (rotation_counter s))" using assms(7,14) by simp
  let ?tmp = "partial_archive fs dir n (now e) (unat (rotation_counter s))"
  have log: "log_name dir n" and calls: "\<forall>call. \<not> refuses (files s1) call"
    using assms(1) by (auto simp: rotation_ready_def short_log_def fs1 assms(14))
  have tmp: "?tmp \<noteq> archive fs dir n i" "?tmp \<noteq> rotated fs dir n i" "?tmp \<noteq> log_at fs dir n" for i
    using partial_not_numbered by auto
  have tmp_free: "m ?tmp = None"
    using nodes(6) [of ?tmp] assms(9,14) tmp partial_other(2) new by simp
  obtain ws where ws: "gz_copy z [] d = (ws, True)"
    using gz_copy_complete [OF assms(12), of "[]" d] by (cases "gz_copy z [] d") auto
  have ok: "fs_ok (fs\<lparr>node_at := m\<rparr>)"
    using rotate_logs_ok [OF assms(3), of c e "dir @ ''/'' @ n"] unfolding s1_def [symmetric] fs1 .
  have "process_job z (files s1) job = ((files s1)\<lparr>node_at := m(?tmp := None,
       archive fs dir n 1 \<mapsto> File (snd (gzclose z ws)), new := None)\<rparr>, [])"
    using process_job_result [OF log, of "files s1" "now e" "unat (rotation_counter s)" d z ws]
      ok assms(5,6,10,14) nodes(2,3) tmp_free calls ws
    by (simp add: s1_def [symmetric] fs1 new is_dir_def)
  then have fs': "node_at fs' = m(?tmp := None, archive fs dir n 1 \<mapsto> File (snd (gzclose z ws)), new := None)"
    unfolding assms(15) s1_def [symmetric] by simp
  have "gunzip (snd (gzclose z ws)) = d"
    using assms(11,13) gz_copy_True [OF ws] by (simp add: gzip_lossless_def)
  moreover have "node_at fs' (archive fs dir n (Suc i)) = node_at fs (archive fs dir n i)"
    if "1 \<le> i" "int i < config_get_max_number_of_files c" for i
    using nodes(4) that tmp(1) [symmetric] by (simp add: fs' new)
  ultimately show ?thesis using nodes(1) tmp(3) [symmetric]
    by (intro exI [of _ "snd (gzclose z ws)"]) (auto simp: fs' new)
qed

section \<open>Concrete rotations\<close>

definition demo_disk :: "string \<Rightarrow> string \<Rightarrow> string \<Rightarrow> file_system" where
  "demo_disk one two three = \<lparr>cwd = [], node_at = [[] \<mapsto> Dir, [''o''] \<mapsto> Dir, [''o'', one] \<mapsto> File ''first'',
     [''o'', two] \<mapsto> File ''second'', [''o'', three] \<mapsto> File ''third''], refuses = (\<lambda>_. False)\<rparr>"

definition demo_rotation :: "string \<Rightarrow> string \<Rightarrow> string \<Rightarrow> rotation_state" where
  "demo_rotation one two three = \<lparr>files = demo_disk one two three, queue = compression_worker_initial,
     rotation_counter = 0, err_out = []\<rparr>"

definition demo_now :: rotation_env where
  "demo_now = \<lparr>now = 9, job_cell = Some 0\<rparr>"

lemma demo_disk_ok: "fs_ok (demo_disk one two three)"
  by (auto simp: fs_ok_def demo_disk_def is_dir_def parent_ok_def split: if_splits)

lemma demo_names:
  "log_at (demo_disk one two three) ''/o'' x = [''o'', x]"
  "rotated (demo_disk one two three) ''/o'' n i = [''o'', n @ ''.'' @ show_nat i]"
  "archive (demo_disk one two three) ''/o'' n i = [''o'', n @ ''.'' @ show_nat i @ ''.gz'']"
  by (simp_all add: rotated_def archive_def log_at_def resolve_def absolute_def components_def)

lemma demo_rotation_ready:
  "config_get_max_number_of_files c = 3 \<Longrightarrow> rotation_ready c ''/o'' ''p.log'' (demo_rotation one two three)"
  by (auto simp: rotation_ready_def short_log_def log_name_def PATH_MAX_def movable_def demo_rotation_def
      demo_disk_def resolve_def absolute_def components_def rotated_def archive_def log_at_def split: if_splits)

lemma demo_max: "config_get_max_number_of_files config_default = 3" "config_get_max_number_of_files compressing = 3"
  "\<not> config_get_compression_enabled config_default"
  by (simp_all add: config_get_max_number_of_files_def config_get_compression_enabled_def compressing_def config_default_def)

lemma show_nat_2 [simp]: "show_nat 2 = ''2''" "show_nat 3 = ''3''"
  by code_simp+

lemma demo_files: "files (demo_rotation one two three) = demo_disk one two three"
  "queue (demo_rotation one two three) = compression_worker_initial"
  "rotation_counter (demo_rotation one two three) = 0" "now demo_now = 9" "job_cell demo_now = Some 0"
  by (simp_all add: demo_rotation_def demo_now_def)

lemma demo_pending:
  "pending (demo_disk one two three) ''/o'' n 9 0 = [''o'', n @ ''.1.9.0'']"
  "partial_archive (demo_disk one two three) ''/o'' n 9 0 = [''o'', n @ ''.1.9.0.gz'']"
  by (simp_all add: pending_def partial_archive_def log_at_def resolve_def absolute_def components_def)

theorem rotation_shifts_witness:
  "node_at (files (rotate_logs config_default demo_now (''/o'' @ ''/'' @ ''p.log'')
     (demo_rotation ''p.log'' ''p.log.1'' ''p.log.3''))) [''o'', ''p.log.2''] = Some (File ''second'')"
proof -
  define s where "s = demo_rotation ''p.log'' ''p.log.1'' ''p.log.3''"
  have "rotation_ready config_default ''/o'' ''p.log'' s"
    unfolding s_def by (rule demo_rotation_ready) (rule demo_max)
  from rotation_shifts [OF this demo_max(3) refl refl refl, of demo_now]
  have "node_at (files (rotate_logs config_default demo_now (''/o'' @ ''/'' @ ''p.log'') s))
      (rotated (files s) ''/o'' ''p.log'' (Suc 1)) = node_at (files s) (rotated (files s) ''/o'' ''p.log'' 1)"
    by (simp only: demo_max) auto
  then show ?thesis
    by (simp add: s_def demo_files demo_names numeral_2_eq_2 [symmetric]) (simp add: demo_disk_def)
qed

definition demo_gz :: rotation_state where
  "demo_gz = demo_rotation ''p.log'' ''p.log.1.gz'' ''p.log.3.gz''"

lemma demo_gz_ready: "rotation_ready compressing ''/o'' ''p.log'' demo_gz"
  unfolding demo_gz_def by (rule demo_rotation_ready) (rule demo_max)

lemma demo_gz_plain: "\<forall>j. node_at (files demo_gz) (rotated (files demo_gz) ''/o'' ''p.log'' j) = None"
  using rotated_not_archive(1) [of "files demo_gz" "''/o''" "''p.log''" _ 1]
    rotated_not_archive(1) [of "files demo_gz" "''/o''" "''p.log''" _ 3]
  by (simp add: demo_gz_def demo_files demo_names) (auto simp: demo_disk_def)

lemmas demo_gz_simps = demo_gz_def demo_files demo_names demo_pending PATH_MAX_def

theorem rotation_hands_over_witness:
  "queue_cells (queue (rotate_logs compressing demo_now (''/o'' @ ''/'' @ ''p.log'') demo_gz)) [0]
   \<and> node_at (files (rotate_logs compressing demo_now (''/o'' @ ''/'' @ ''p.log'') demo_gz))
       [''o'', ''p.log.1.9.0''] = Some (File ''first'')"
  using rotation_hands_over [OF demo_gz_ready compressing_enabled demo_gz_plain refl _ refl _ _ _ _ refl refl,
      of demo_now 0 "[]"]
  by (simp add: demo_gz_simps) (simp add: demo_disk_def)

theorem rotation_archived_witness:
  "\<exists>g. id g = ''first'' \<and> node_at (fst (process_job stored
       (files (rotate_logs compressing demo_now (''/o'' @ ''/'' @ ''p.log'') demo_gz)) ''/o/p.log.1.9.0''))
     [''o'', ''p.log.1.gz''] = Some (File g)"
proof -
  have ok: "fs_ok (files demo_gz)" by (simp add: demo_gz_def demo_files demo_disk_ok)
  show ?thesis
    using rotation_archived [OF demo_gz_ready compressing_enabled ok demo_gz_plain refl _ refl _ _ _
        stored_lossless _ _ refl refl, of demo_now "''first''"]
    by (simp add: demo_gz_simps) (simp add: demo_disk_def stored_def)
qed

theorem pending_logs_collide_witness:
  "\<exists>ws fs1 fs2. concat ws = ''second'' \<and> fs1 = fst (process_job stored (demo_disk ''p.log.1.9.0'' ''p.log.1.9.1'' ''x'') ''/o/p.log.1.9.0'')
     \<and> fs2 = fst (process_job stored fs1 ''/o/p.log.1.9.1'')
     \<and> node_at fs2 [''o'', ''p.log.1.gz''] = Some (File (snd (gzclose stored ws)))"
proof -
  have one: "pending (demo_disk a b d) ''/o'' n 9 1 = [''o'', n @ ''.1.9.1'']"
      "partial_archive (demo_disk a b d) ''/o'' n 9 1 = [''o'', n @ ''.1.9.1.gz'']" for a b d n
    by (simp_all add: pending_def partial_archive_def log_at_def resolve_def absolute_def components_def)
  have "pending_path ''/o/p.log'' 9 1 = ''/o/p.log.1.9.1''" by (simp add: pending_path_def)
  then show ?thesis
    using pending_logs_collide [of "''/o''" "''p.log''" "demo_disk ''p.log.1.9.0'' ''p.log.1.9.1'' ''x''" 0 1 9 "''first''" 9 "''second''" stored, OF _ demo_disk_ok _ _ _ _ _ _ _ _ _ _ refl refl] one
    by (simp add: demo_names demo_pending PATH_MAX_def is_dir_def) (auto simp: demo_disk_def stored_def)
qed

end
