(* ===== verification/Proc_Reader.thy ===== *)
theory Proc_Reader
  imports Args_Parser Log_Rotation
begin

text \<open>
  Reading one process from \<^verbatim>\<open>/proc\<close>, from \<^verbatim>\<open>src/code/process_snapshot/process_snapshot.c\<close>: the
  filters, the open descriptors, the I/O counters and the line of \<^verbatim>\<open>stat\<close>, with the conversions of
  \<^verbatim>\<open>sscanf\<close> they use, and the time stamp of a snapshot. What the kernel shows under \<^verbatim>\<open>/proc\<close> is an
  argument.
\<close>

section \<open>\<^verbatim>\<open>sscanf\<close>\<close>

datatype conversion = C_int | C_uint | C_long | C_ulong

datatype directive = Blank | Literal char | Conv_char | Conv conversion

datatype scanned = Char_Value char | Int_Value int

text \<open>A number conversion gives the value stored in the argument, or fails on text that is no number.\<close>

definition scan_number :: "conversion \<Rightarrow> string \<Rightarrow> (int \<times> string) option" where
  "scan_number k s =
     (let (v, r, _) = c_strtol s; (u, r') = c_strtoull s
      in case k of
           C_int \<Rightarrow> if r = s then None else Some (to_int v, r)
         | C_long \<Rightarrow> if r = s then None else Some (v, r)
         | C_uint \<Rightarrow> if r' = s then None else Some (uint (ucast u :: u32), r')
         | C_ulong \<Rightarrow> if r' = s then None else Some (uint u, r'))"

text \<open>The values assigned before the first directive that fails.\<close>

fun c_sscanf :: "directive list \<Rightarrow> string \<Rightarrow> scanned list" where
  "c_sscanf [] s = []"
| "c_sscanf (Blank # ds) s = c_sscanf ds (dropWhile c_isspace s)"
| "c_sscanf (Literal c # ds) s = (case s of [] \<Rightarrow> [] | x # xs \<Rightarrow> if x = c then c_sscanf ds xs else [])"
| "c_sscanf (Conv_char # ds) s = (case s of [] \<Rightarrow> [] | x # xs \<Rightarrow> Char_Value x # c_sscanf ds xs)"
| "c_sscanf (Conv k # ds) s =
     (case scan_number k s of None \<Rightarrow> [] | Some (v, r) \<Rightarrow> Int_Value v # c_sscanf ds r)"

section \<open>Filters\<close>

definition is_numeric :: "string \<Rightarrow> bool" where
  "is_numeric s = (s \<noteq> [] \<and> list_all c_isdigit s)"

definition is_pid_in_filter :: "int \<Rightarrow> ap_pid_whitelist \<Rightarrow> bool" where
  "is_pid_in_filter p w = list_ex (\<lambda>x. x = p) (filter_pids w)"

definition is_comm_in_filter :: "string \<Rightarrow> ap_pid_whitelist \<Rightarrow> bool" where
  "is_comm_in_filter name w = (if name = [] then False else list_ex (\<lambda>x. x = name) (filter_comms w))"

definition is_filtering_enabled :: "ap_pid_whitelist \<Rightarrow> bool" where
  "is_filtering_enabled w = (if length (filter_comms w) = 0 \<and> length (filter_pids w) = 0 then False else True)"

section \<open>What the kernel shows\<close>

definition PROC_PATH :: string where "PROC_PATH = ''/proc''"

text \<open>
  The entries of \<^verbatim>\<open>/proc\<close> in the order of \<^verbatim>\<open>readdir\<close> with the flag for directories, the contents
  of the files below it and the names in its descriptor directories; \<open>None\<close> is a failed open.
\<close>

record proc_fs =
  proc_entries :: "(string \<times> bool) list"
  proc_file :: "string \<Rightarrow> string option"
  proc_dir :: "string \<Rightarrow> string list option"

definition proc_path :: "int \<Rightarrow> string \<Rightarrow> string" where
  "proc_path p what = c_snprintf 64 (PROC_PATH @ ''/'' @ show_int p @ ''/'' @ what)"

definition count_open_fds_for_pid :: "proc_fs \<Rightarrow> int \<Rightarrow> int" where
  "count_open_fds_for_pid pr p =
     (case proc_dir pr (proc_path p ''fd'') of
        None \<Rightarrow> -1
      | Some names \<Rightarrow> sint (of_nat (length (filter is_numeric names)) :: u64))"

definition read_fd :: "proc_fs \<Rightarrow> process_state_input_t \<Rightarrow> process_state_input_t" where
  "read_fd pr d =
     (let d1 = d\<lparr>i_bo_is_fd_valid := False, i_number_of_fds := 0\<rparr>;
          n = count_open_fds_for_pid pr (i_pid d1)
      in if n < 0 then d1 else d1\<lparr>i_number_of_fds := of_int n, i_bo_is_fd_valid := True\<rparr>)"

definition literal :: "string \<Rightarrow> directive list" where
  "literal s = map Literal s"

definition read_bytes_format :: "directive list" where
  "read_bytes_format = literal ''read_bytes:'' @ [Blank, Conv C_ulong]"

definition write_bytes_format :: "directive list" where
  "write_bytes_format = literal ''write_bytes:'' @ [Blank, Conv C_ulong]"

definition io_line :: "string \<Rightarrow> process_state_input_t \<Rightarrow> process_state_input_t" where
  "io_line line d =
     (case c_sscanf read_bytes_format line of
        [Int_Value v] \<Rightarrow> d\<lparr>i_read_kbytes := of_int v div 1024\<rparr>
      | _ \<Rightarrow> (case c_sscanf write_bytes_format line of
                [Int_Value v] \<Rightarrow> d\<lparr>i_write_kbytes := of_int v div 1024\<rparr>
              | _ \<Rightarrow> d))"

text \<open>The flag is the test \<^verbatim>\<open>ret == 0\<close>.\<close>

definition read_proc_io :: "proc_fs \<Rightarrow> int \<Rightarrow> process_state_input_t \<Rightarrow> bool \<times> process_state_input_t" where
  "read_proc_io pr p d =
     (case proc_file pr (proc_path p ''io'') of
        None \<Rightarrow> (False, d)
      | Some f \<Rightarrow> (True, fold io_line (c_lines 256 f) (d\<lparr>i_read_kbytes := 0, i_write_kbytes := 0\<rparr>)))"

text \<open>The static variable \<^verbatim>\<open>g_page_size_kb\<close>; \<open>sysconf\<close> is the page size the system reports.\<close>

definition initialize_page_size_kb :: "int \<Rightarrow> int \<Rightarrow> int" where
  "initialize_page_size_kb page_size g =
     (if 0 < g then g
      else let g1 = (if 0 < page_size then page_size div 1024 else g)
           in if g1 \<le> 0 then 4 else g1)"

section \<open>The line of \<^verbatim>\<open>stat\<close>\<close>

definition stat_format :: "directive list" where
  "stat_format =
     [Conv_char, Blank, Conv C_int, Blank,
      Conv C_int, Blank, Conv C_int, Blank, Conv C_int, Blank, Conv C_int, Blank,
      Conv C_uint, Blank, Conv C_uint, Blank, Conv C_uint, Blank, Conv C_uint, Blank, Conv C_uint, Blank,
      Conv C_ulong, Blank, Conv C_ulong, Blank,
      Conv C_long, Blank, Conv C_long, Blank, Conv C_long, Blank, Conv C_long, Blank,
      Conv C_int, Blank,
      Conv C_long, Blank, Conv C_ulong, Blank, Conv C_ulong, Blank,
      Conv C_long]"

text \<open>The assignments \<^verbatim>\<open>sscanf\<close> makes, one per value read; \<open>rss_pages\<close> is the last of them.\<close>

definition char_at :: "scanned list \<Rightarrow> nat \<Rightarrow> char \<Rightarrow> char" where
  "char_at vs i c = (if i < length vs then (case vs ! i of Char_Value x \<Rightarrow> x | _ \<Rightarrow> c) else c)"

definition int_at :: "scanned list \<Rightarrow> nat \<Rightarrow> int \<Rightarrow> int" where
  "int_at vs i v = (if i < length vs then (case vs ! i of Int_Value x \<Rightarrow> x | _ \<Rightarrow> v) else v)"

definition store_stat :: "scanned list \<Rightarrow> process_state_input_t \<Rightarrow> process_state_input_t" where
  "store_stat vs d = d\<lparr>i_state := char_at vs 0 (i_state d), i_ppid := int_at vs 1 (i_ppid d),
     i_utime := of_int (int_at vs 11 (uint (i_utime d))), i_stime := of_int (int_at vs 12 (uint (i_stime d))),
     i_threads := int_at vs 17 (i_threads d)\<rparr>"

text \<open>
  The name between the first opening and the last closing parenthesis. When they are in the wrong
  order the length wraps, is cut to 63, and 63 bytes are copied from behind the opening one; the copy
  must lie within the 1024 bytes of the buffer.
\<close>

definition copy_comm :: "string \<Rightarrow> nat \<Rightarrow> nat \<Rightarrow> c_fault + string" where
  "copy_comm buf lparen rparen =
     (let len = of_nat rparen - of_nat lparen - 1 :: u64;
          n = (if 64 \<le> unat len then 63 else unat len)
      in if 1024 < lparen + 1 + n then Inl Out_Of_Bounds else Inr (take n (drop (lparen + 1) buf)))"

text \<open>What follows the scan: the resident size, then the I/O counters.\<close>

definition store_rss :: "int \<Rightarrow> int \<Rightarrow> process_state_input_t \<Rightarrow> process_state_input_t" where
  "store_rss kb rss_pages d =
     (if 0 \<le> rss_pages then d\<lparr>i_rssKb := to_long (rss_pages * kb), i_bo_is_rss_valid := True\<rparr>
      else d\<lparr>i_rssKb := -1, i_bo_is_rss_valid := False\<rparr>)"

definition store_io :: "proc_fs \<Rightarrow> int \<Rightarrow> process_state_input_t \<Rightarrow> process_state_input_t" where
  "store_io pr p d =
     (case read_proc_io pr p d of
        (False, d1) \<Rightarrow> d1\<lparr>i_read_kbytes := -1, i_write_kbytes := -1, i_bo_is_io_valid := False\<rparr>
      | (True, d1) \<Rightarrow> d1\<lparr>i_bo_is_io_valid := True\<rparr>)"

text \<open>The flag in the result is the test \<^verbatim>\<open>read_proc_stat(...) == 0\<close>; the number is the page size kept.\<close>

definition parse_stat ::
  "proc_fs \<Rightarrow> int \<Rightarrow> int \<Rightarrow> string \<Rightarrow> nat \<Rightarrow> nat \<Rightarrow> string \<Rightarrow> process_state_input_t
   \<Rightarrow> c_fault + (bool \<times> int \<times> process_state_input_t)" where
  "parse_stat pr kb p buf lparen rparen after d =
     (case copy_comm buf lparen rparen of
        Inl e \<Rightarrow> Inl e
      | Inr name \<Rightarrow>
          if after = [] then Inl Out_Of_Bounds
          else let vs = c_sscanf stat_format (tl after); d1 = store_stat vs (d\<lparr>i_comm := name\<rparr>)
               in if length vs \<noteq> 22 then Inr (False, kb, d1)
                  else Inr (True, kb, store_io pr p (store_rss kb (int_at vs 21 (-1)) d1)))"

definition read_proc_stat ::
  "proc_fs \<Rightarrow> int \<Rightarrow> int \<Rightarrow> int \<Rightarrow> process_state_input_t \<Rightarrow> c_fault + (bool \<times> int \<times> process_state_input_t)" where
  "read_proc_stat pr page_size g p d =
     (case proc_file pr (proc_path p ''stat'') of
        None \<Rightarrow> Inr (False, g, d)
      | Some f \<Rightarrow>
     (case c_fgets 1024 f of
        None \<Rightarrow> Inr (False, g, d)
      | Some (line, _) \<Rightarrow>
     (let buf = c_str line
      in case (split_first (CHR ''('') buf, split_last (CHR '')'') buf) of
        (Some (before, _), Some (front, after)) \<Rightarrow>
          parse_stat pr (initialize_page_size_kb page_size g) p buf (length before) (length front) after d
      | _ \<Rightarrow> Inr (False, g, d))))"

section \<open>Scanning printed numbers\<close>

fun fits :: "conversion \<Rightarrow> int \<Rightarrow> bool" where
  "fits C_int v = (- 2147483648 \<le> v \<and> v \<le> 2147483647)"
| "fits C_uint v = (0 \<le> v \<and> v \<le> 4294967295)"
| "fits C_long v = (LONG_MIN \<le> v \<and> v \<le> LONG_MAX)"
| "fits C_ulong v = (0 \<le> v \<and> v \<le> int ULLONG_MAX)"

lemma minus_no_space: "\<not> c_isspace CHR ''-''"
  by (simp add: c_isspace_def)

lemma strtol_show_int:
  assumes "rest = [] \<or> \<not> c_isdigit (hd rest)" and "LONG_MIN \<le> v" and "v \<le> LONG_MAX"
  shows "c_strtol (show_int v @ rest) = (v, rest, False)"
proof (cases "v < 0")
  case True
  then have s: "show_int v = CHR ''-'' # show_nat (nat (- v))" by (simp add: show_int_def)
  show ?thesis using True assms(2) scan_show_nat [OF assms(1), of "nat (- v)"]
    by (simp add: s c_strtol_def minus_no_space split_sign_def Let_def limits_defs)
next
  case False
  then show ?thesis using strtol_show_nat [OF assms(1), of "nat v"] assms(3) by (simp add: show_int_def)
qed

lemma strtoull_show_int:
  assumes "rest = [] \<or> \<not> c_isdigit (hd rest)" and "0 \<le> v" and "v \<le> int ULLONG_MAX"
  shows "c_strtoull (show_int v @ rest) = (of_int v, rest)"
proof -
  have "nat v \<le> ULLONG_MAX" using assms(2,3) by linarith
  then show ?thesis
    using strtoull_show_nat [OF assms(1), of "nat v"] assms(2) by (simp add: show_int_def)
qed

lemma show_int_Nil [simp]: "show_int v \<noteq> []"
  by (simp add: show_int_def)

lemma scan_number_show:
  assumes "rest = [] \<or> \<not> c_isdigit (hd rest)" and "fits k v"
  shows "scan_number k (show_int v @ rest) = Some (v, rest)"
proof (cases k)
  case C_int
  then have "LONG_MIN \<le> v" "v \<le> LONG_MAX" "to_int v = v" using assms(2) by (auto simp: limits_defs to_int_id)
  then show ?thesis using strtol_show_int [OF assms(1)] C_int by (simp add: scan_number_def split: prod.split)
next
  case C_long
  then show ?thesis using strtol_show_int [OF assms(1)] assms(2) by (simp add: scan_number_def split: prod.split)
next
  case C_uint
  then have "0 \<le> v" "v \<le> int ULLONG_MAX" using assms(2) by (auto simp: limits_defs)
  moreover have "uint (ucast (of_int v :: u64) :: u32) = v"
    using assms(2) C_uint by (simp add: unsigned_ucast_eq take_bit_eq_mod unsigned_of_int)
  ultimately show ?thesis using strtoull_show_int [OF assms(1)] C_uint
    by (simp add: scan_number_def split: prod.split)
next
  case C_ulong
  then have "uint (of_int v :: u64) = v"
    using assms(2) by (simp add: limits_defs unsigned_of_int take_bit_eq_mod)
  then show ?thesis using strtoull_show_int [OF assms(1)] assms(2) C_ulong
    by (simp add: scan_number_def split: prod.split)
qed

text \<open>Numbers written with a blank before each.\<close>

definition spaced :: "int list \<Rightarrow> string" where
  "spaced vs = concat (map (\<lambda>v. '' '' @ show_int v) vs)"

definition numbers :: "conversion list \<Rightarrow> directive list" where
  "numbers ks = concat (map (\<lambda>k. [Blank, Conv k]) ks)"

lemma spaced_simps [simp]: "spaced [] = []" "spaced (v # vs) = CHR '' '' # show_int v @ spaced vs"
  by (simp_all add: spaced_def)

lemma numbers_simps [simp]: "numbers [] = []" "numbers (k # ks) = Blank # Conv k # numbers ks"
  by (simp_all add: numbers_def)

lemma show_int_no_space: "dropWhile c_isspace (show_int v @ rest) = show_int v @ rest"
  using show_nat_Cons [of "nat v"] by (auto simp: show_int_def minus_no_space isdigit_not_space)

lemma blank_simps [simp]: "c_isspace CHR '' ''" "\<not> c_isdigit CHR '' ''" "\<not> c_isdigit CHR 0x0A"
  by (simp_all add: c_isspace_def c_isdigit_def)

lemma sscanf_numbers:
  assumes "list_all2 fits ks vs" and "rest = [] \<or> \<not> c_isdigit (hd rest)"
  shows "c_sscanf (numbers ks) (spaced vs @ rest) = map Int_Value vs"
  using assms(1)
proof (induction ks vs rule: list_all2_induct)
  case (Cons k ks v vs)
  have "spaced vs @ rest = [] \<or> \<not> c_isdigit (hd (spaced vs @ rest))"
    using assms(2) by (cases vs) auto
  with Cons show ?case by (simp add: show_int_no_space scan_number_show)
qed simp

section \<open>A line of \<^verbatim>\<open>stat\<close> as the kernel prints it\<close>

definition stat_kinds :: "conversion list" where
  "stat_kinds = [C_int, C_int, C_int, C_int, C_int, C_uint, C_uint, C_uint, C_uint, C_uint, C_ulong, C_ulong,
     C_long, C_long, C_long, C_long, C_int, C_long, C_ulong, C_ulong, C_long]"

lemma stat_format_kinds: "stat_format = Conv_char # numbers stat_kinds"
  by (simp add: stat_format_def stat_kinds_def)

definition stat_line :: "int \<Rightarrow> string \<Rightarrow> char \<Rightarrow> int list \<Rightarrow> string" where
  "stat_line p name st vs = show_int p @ '' ('' @ name @ '') '' @ [st] @ spaced vs"

lemma spaced_notin: "c \<noteq> CHR '' '' \<Longrightarrow> c \<noteq> CHR ''-'' \<Longrightarrow> \<not> c_isdigit c \<Longrightarrow> c \<notin> set (spaced vs)"
  by (induction vs) (auto simp: show_int_notin)

lemma punctuation_no_digit [simp]:
  "\<not> c_isdigit CHR ''(''" "\<not> c_isdigit CHR '')''" "\<not> c_isdigit CHR 0x00"
  by (simp_all add: c_isdigit_def)

text \<open>The name of a process may hold blanks and parentheses, but no newline.\<close>

definition comm_text :: "string \<Rightarrow> bool" where
  "comm_text name = (CHR 0x0A \<notin> set name \<and> CHR 0x00 \<notin> set name)"

lemma stat_line_read:
  assumes "comm_text name" and "st \<notin> {CHR 0x0A, CHR 0x00, CHR '')''}" and "length (stat_line p name st vs) < 1023"
  shows "c_fgets 1024 (stat_line p name st vs @ nl) = Some (stat_line p name st vs @ nl, [])"
    and "c_str (stat_line p name st vs @ nl) = stat_line p name st vs @ nl"
    and "split_first (CHR ''('') (stat_line p name st vs @ nl)
      = Some (show_int p @ '' '', name @ '') '' @ [st] @ spaced vs @ nl)"
    and "split_last (CHR '')'') (stat_line p name st vs @ nl)
      = Some (show_int p @ '' ('' @ name, CHR '' '' # st # spaced vs @ nl)"
proof -
  have line: "CHR 0x0A \<notin> set (stat_line p name st vs)" "CHR 0x00 \<notin> set (stat_line p name st vs)"
    using assms(1,2) by (auto simp: stat_line_def comm_text_def spaced_notin show_int_notin)
  have "line_len 1023 (stat_line p name st vs @ CHR 0x0A # []) = Suc (length (stat_line p name st vs))"
    using line(1) assms(3) by (rule line_len_line)
  then show "c_fgets 1024 (stat_line p name st vs @ nl) = Some (stat_line p name st vs @ nl, [])"
    by (simp add: c_fgets_def nl_def)
  show "c_str (stat_line p name st vs @ nl) = stat_line p name st vs @ nl"
    using line(2) by (auto simp: c_str_def nl_def takeWhile_eq_all_conv)
  have "CHR ''('' \<notin> set (show_int p @ '' '')" by (simp add: show_int_notin)
  from split_first_append [OF this] show "split_first (CHR ''('') (stat_line p name st vs @ nl)
      = Some (show_int p @ '' '', name @ '') '' @ [st] @ spaced vs @ nl)"
    by (simp add: stat_line_def)
  have "CHR '')'' \<notin> set (CHR '' '' # st # spaced vs @ nl)"
    using assms(2) by (auto simp: spaced_notin nl_def)
  from split_last_append [OF this, of "show_int p @ '' ('' @ name"]
  show "split_last (CHR '')'') (stat_line p name st vs @ nl)
      = Some (show_int p @ '' ('' @ name, CHR '' '' # st # spaced vs @ nl)"
    by (simp add: stat_line_def)
qed

lemma copy_comm_between:
  assumes "length a + length b + length name < 1024"
  shows "copy_comm (a @ CHR ''('' # name @ b) (length a) (length (a @ CHR ''('' # name)) = Inr (take 63 name)"
proof -
  have "(of_nat (length (a @ CHR ''('' # name)) - of_nat (length a) - 1 :: u64) = of_nat (length name)" by simp
  moreover have "unat (of_nat (length name) :: u64) = length name"
    using assms by (simp add: unsigned_of_nat take_bit_eq_mod)
  ultimately show ?thesis using assms by (simp add: copy_comm_def Let_def)
qed

lemma io_line_fields [simp]:
  "i_comm (io_line l d) = i_comm d" "i_state (io_line l d) = i_state d" "i_ppid (io_line l d) = i_ppid d"
  "i_utime (io_line l d) = i_utime d" "i_stime (io_line l d) = i_stime d" "i_threads (io_line l d) = i_threads d"
  "i_rssKb (io_line l d) = i_rssKb d" "i_bo_is_rss_valid (io_line l d) = i_bo_is_rss_valid d"
  "i_pid (io_line l d) = i_pid d"
  "i_timestamp (io_line l d) = i_timestamp d" "i_h_r_timestamp (io_line l d) = i_h_r_timestamp d"
  by (simp_all add: io_line_def split: list.split scanned.split)

lemma fold_keeps: "(\<And>l d. f (g l d) = f d) \<Longrightarrow> f (fold g ls d) = f d"
  by (induction ls arbitrary: d) simp_all

lemma read_proc_io_fields [simp]:
  "i_comm (snd (read_proc_io pr p d)) = i_comm d" "i_state (snd (read_proc_io pr p d)) = i_state d"
  "i_ppid (snd (read_proc_io pr p d)) = i_ppid d" "i_utime (snd (read_proc_io pr p d)) = i_utime d"
  "i_stime (snd (read_proc_io pr p d)) = i_stime d" "i_threads (snd (read_proc_io pr p d)) = i_threads d"
  "i_rssKb (snd (read_proc_io pr p d)) = i_rssKb d" "i_pid (snd (read_proc_io pr p d)) = i_pid d"
  "i_bo_is_rss_valid (snd (read_proc_io pr p d)) = i_bo_is_rss_valid d"
  "i_timestamp (snd (read_proc_io pr p d)) = i_timestamp d"
  "i_h_r_timestamp (snd (read_proc_io pr p d)) = i_h_r_timestamp d"
  by (simp_all add: read_proc_io_def fold_keeps split: option.split)

lemma store_io_fields [simp]:
  "i_comm (store_io pr p d) = i_comm d" "i_state (store_io pr p d) = i_state d"
  "i_ppid (store_io pr p d) = i_ppid d" "i_utime (store_io pr p d) = i_utime d"
  "i_stime (store_io pr p d) = i_stime d" "i_threads (store_io pr p d) = i_threads d"
  "i_rssKb (store_io pr p d) = i_rssKb d" "i_pid (store_io pr p d) = i_pid d"
  "i_bo_is_rss_valid (store_io pr p d) = i_bo_is_rss_valid d"
  "i_timestamp (store_io pr p d) = i_timestamp d" "i_h_r_timestamp (store_io pr p d) = i_h_r_timestamp d"
proof -
  obtain ok d1 where io: "read_proc_io pr p d = (ok, d1)" by fastforce
  note read_proc_io_fields [of pr p d, unfolded io snd_conv]
  then show "i_comm (store_io pr p d) = i_comm d" "i_state (store_io pr p d) = i_state d"
    "i_ppid (store_io pr p d) = i_ppid d" "i_utime (store_io pr p d) = i_utime d"
    "i_stime (store_io pr p d) = i_stime d" "i_threads (store_io pr p d) = i_threads d"
    "i_rssKb (store_io pr p d) = i_rssKb d" "i_pid (store_io pr p d) = i_pid d"
    "i_bo_is_rss_valid (store_io pr p d) = i_bo_is_rss_valid d"
    "i_timestamp (store_io pr p d) = i_timestamp d" "i_h_r_timestamp (store_io pr p d) = i_h_r_timestamp d"
    by (cases ok; simp add: store_io_def io)+
qed

lemma stat_line_scanned:
  assumes "list_all2 fits stat_kinds vs"
  shows "c_sscanf stat_format (st # spaced (vs @ extra) @ nl) = Char_Value st # map Int_Value vs"
proof -
  have "spaced (vs @ extra) @ nl = spaced vs @ (spaced extra @ nl)" by (simp add: spaced_def)
  moreover have "spaced extra @ nl = [] \<or> \<not> c_isdigit (hd (spaced extra @ nl))"
    by (cases extra) (auto simp: nl_def)
  ultimately show ?thesis using sscanf_numbers [OF assms] by (simp add: stat_format_kinds)
qed

lemma read_stat_line:
  assumes "proc_file pr (proc_path p ''stat'') = Some (stat_line p name st (vs @ extra) @ nl)"
    and "comm_text name" and "st \<notin> {CHR 0x0A, CHR 0x00, CHR '')''}"
    and "length (stat_line p name st (vs @ extra)) < 1023" and "list_all2 fits stat_kinds vs"
    and "kb = initialize_page_size_kb page_size g"
  shows "read_proc_stat pr page_size g p d = Inr (True, kb, store_io pr p (store_rss kb (vs ! 20)
    (store_stat (Char_Value st # map Int_Value vs) (d\<lparr>i_comm := take 63 name\<rparr>))))"
proof -
  define ln where "ln = stat_line p name st (vs @ extra) @ nl"
  note line = stat_line_read [OF assms(2-4), folded ln_def]
  have shape: "ln = (show_int p @ '' '') @ CHR ''('' # name @ ('') '' @ [st] @ spaced (vs @ extra) @ nl)"
    by (simp add: ln_def stat_line_def)
  have len: "length ln < 1024" using assms(4) by (simp add: ln_def nl_def)
  have comm: "copy_comm ln (length (show_int p @ '' '')) (length (show_int p @ '' ('' @ name)) = Inr (take 63 name)"
    using copy_comm_between [of "show_int p @ '' ''" "'') '' @ [st] @ spaced (vs @ extra) @ nl" name] len
    unfolding shape by simp
  have n: "length vs = 21" using list_all2_lengthD [OF assms(5)] by (simp add: stat_kinds_def)
  let ?xs = "Char_Value st # map Int_Value vs"
  have rss: "int_at ?xs 21 (-1) = vs ! 20" using n by (simp add: int_at_def)
  have "read_proc_stat pr page_size g p d = parse_stat pr kb p ln (length (show_int p @ '' ''))
      (length (show_int p @ '' ('' @ name)) (CHR '' '' # st # spaced (vs @ extra) @ nl) d"
    by (simp only: read_proc_stat_def assms(1,6) ln_def [symmetric] line option.case prod.case Let_def)
  also have "\<dots> = Inr (True, kb, store_io pr p (store_rss kb (vs ! 20) (store_stat ?xs (d\<lparr>i_comm := take 63 name\<rparr>))))"
    unfolding parse_stat_def comm rss [symmetric] using stat_line_scanned [OF assms(5)] n by (simp add: Let_def)
  finally show ?thesis .
qed

text \<open>C12: A line of \<^verbatim>\<open>/proc/<pid>/stat\<close> as the kernel prints it is read back. The name between the
  parentheses may itself hold blanks and parentheses (it is cut to 63 characters); state, parent, times
  and thread count are those printed, and the resident size is the printed number of pages times the
  page size, or marked invalid when that number is negative. Further fields on the line do not matter.\<close>

theorem read_proc_stat_roundtrip:
  assumes "proc_file pr (proc_path p ''stat'') = Some (stat_line p name st (vs @ extra) @ nl)"
    and "comm_text name" and "st \<notin> {CHR 0x0A, CHR 0x00, CHR '')''}"
    and "length (stat_line p name st (vs @ extra)) < 1023" and "list_all2 fits stat_kinds vs"
    and "kb = initialize_page_size_kb page_size g"
  shows "\<exists>d'. read_proc_stat pr page_size g p d = Inr (True, kb, d')
    \<and> i_comm d' = take 63 name \<and> i_state d' = st \<and> i_ppid d' = vs ! 0
    \<and> i_utime d' = of_int (vs ! 10) \<and> i_stime d' = of_int (vs ! 11) \<and> i_threads d' = vs ! 16
    \<and> (if 0 \<le> vs ! 20 then i_bo_is_rss_valid d' \<and> i_rssKb d' = to_long (vs ! 20 * kb)
       else \<not> i_bo_is_rss_valid d' \<and> i_rssKb d' = -1)"
proof -
  have n: "length vs = 21" using list_all2_lengthD [OF assms(5)] by (simp add: stat_kinds_def)
  show ?thesis unfolding read_stat_line [OF assms]
    by (intro exI conjI, rule refl)
      (use n in \<open>auto simp: store_rss_def store_stat_def char_at_def int_at_def\<close>)
qed

section \<open>The I/O counters as the kernel prints them\<close>

lemma sscanf_literal [simp]: "c_sscanf (literal s @ ds) (s @ t) = c_sscanf ds t"
  by (induction s) (simp_all add: literal_def)

lemma sscanf_mismatch: "\<not> prefix s t \<Longrightarrow> c_sscanf (literal s @ ds) t = []"
proof (induction s arbitrary: t)
  case (Cons c s)
  then show ?case by (cases t) (auto simp: literal_def)
qed simp

lemma sscanf_count:
  assumes "n \<le> ULLONG_MAX"
  shows "c_sscanf (literal key @ [Blank, Conv C_ulong]) (key @ '' '' @ show_nat n @ nl) = [Int_Value (int n)]"
proof -
  have "dropWhile c_isspace ('' '' @ show_nat n @ nl) = show_int (int n) @ nl"
    using show_int_no_space [of "int n" nl] by simp
  moreover have "scan_number C_ulong (show_int (int n) @ nl) = Some (int n, nl)"
    using assms by (intro scan_number_show) (auto simp: nl_def)
  ultimately show ?thesis by simp
qed

lemma ulong_kb: "n \<le> ULLONG_MAX \<Longrightarrow> (of_int (int n) div 1024 :: u64) = of_nat (n div 1024)"
  by (simp add: limits_defs word_arith_nat_div unsigned_of_nat take_bit_eq_mod)

lemma io_line_read:
  "n \<le> ULLONG_MAX \<Longrightarrow> io_line (''read_bytes: '' @ show_nat n @ nl) d = d\<lparr>i_read_kbytes := of_nat (n div 1024)\<rparr>"
  using sscanf_count [of n "''read_bytes:''"] ulong_kb [of n] by (simp add: io_line_def read_bytes_format_def)

lemma io_line_write:
  "n \<le> ULLONG_MAX \<Longrightarrow> io_line (''write_bytes: '' @ show_nat n @ nl) d = d\<lparr>i_write_kbytes := of_nat (n div 1024)\<rparr>"
  using sscanf_count [of n "''write_bytes:''"] ulong_kb [of n]
    sscanf_mismatch [of "''read_bytes:''" "''write_bytes: '' @ show_nat n @ nl" "[Blank, Conv C_ulong]"]
  by (simp add: io_line_def read_bytes_format_def write_bytes_format_def)

lemma io_line_other:
  "\<not> prefix ''read_bytes:'' l \<Longrightarrow> \<not> prefix ''write_bytes:'' l \<Longrightarrow> io_line l d = d"
  by (simp add: io_line_def read_bytes_format_def write_bytes_format_def sscanf_mismatch)

text \<open>The seven lines of \<^verbatim>\<open>/proc/<pid>/io\<close>.\<close>

definition io_text :: "nat \<Rightarrow> nat \<Rightarrow> nat \<Rightarrow> nat \<Rightarrow> nat \<Rightarrow> nat \<Rightarrow> nat \<Rightarrow> string" where
  "io_text rchar wchar syscr syscw rb wb cancelled = unlines
     [''rchar: '' @ show_nat rchar, ''wchar: '' @ show_nat wchar, ''syscr: '' @ show_nat syscr,
      ''syscw: '' @ show_nat syscw, ''read_bytes: '' @ show_nat rb, ''write_bytes: '' @ show_nat wb,
      ''cancelled_write_bytes: '' @ show_nat cancelled]"

lemma length_ullong: "n \<le> ULLONG_MAX \<Longrightarrow> length (show_nat n) \<le> 20"
  by (rule length_show_nat_le) (simp_all add: limits_defs)

text \<open>C30: The I/O counters are read back from the kernel's \<^verbatim>\<open>io\<close> file: the bytes read and written, in
  KiB rounded down, whatever the other counters are; the line of the cancelled writes is not
  mistaken for that of the written bytes, and no other field of the sample changes.\<close>

theorem read_proc_io_roundtrip:
  assumes "list_all (\<lambda>n. n \<le> ULLONG_MAX) [rchar, wchar, syscr, syscw, rb, wb, cancelled]"
    and "proc_file pr (proc_path p ''io'') = Some (io_text rchar wchar syscr syscw rb wb cancelled)"
  shows "read_proc_io pr p d =
    (True, d\<lparr>i_read_kbytes := of_nat (rb div 1024), i_write_kbytes := of_nat (wb div 1024)\<rparr>)"
proof -
  let ?ls = "[''rchar: '' @ show_nat rchar, ''wchar: '' @ show_nat wchar, ''syscr: '' @ show_nat syscr,
      ''syscw: '' @ show_nat syscw, ''read_bytes: '' @ show_nat rb, ''write_bytes: '' @ show_nat wb,
      ''cancelled_write_bytes: '' @ show_nat cancelled]"
  have short: "length (show_nat n) \<le> 20" if "n \<in> {rchar, wchar, syscr, syscw, rb, wb, cancelled}" for n
    using that assms(1) by (auto intro: length_ullong)
  have "\<forall>l \<in> set ?ls. CHR 0x0A \<notin> set l \<and> CHR 0x00 \<notin> set l \<and> length l + 1 < 256"
    using short [of rchar] short [of wchar] short [of syscr] short [of syscw] short [of rb] short [of wb]
      short [of cancelled] by (simp add: show_nat_notin)
  then have "c_lines 256 (io_text rchar wchar syscr syscw rb wb cancelled) = map (\<lambda>l. l @ nl) ?ls"
    unfolding io_text_def by (rule c_lines_unlines) simp
  then show ?thesis using assms
    by (simp add: read_proc_io_def io_line_read [simplified] io_line_write [simplified] io_line_other)
qed

section \<open>A concrete process\<close>

definition demo_fields :: "int list" where
  "demo_fields = [1, 7, 7, 0, -1, 4194304, 120, 0, 3, 0, 250, 40, 0, 0, 20, 0, 2, 0, 812, 9000000, 512]"

definition demo_proc :: proc_fs where
  "demo_proc = \<lparr>proc_entries = [(''.'', True), (''7'', True), (''version'', False)],
     proc_file = [proc_path 7 ''stat'' \<mapsto> stat_line 7 ''a) (b'' CHR ''S'' demo_fields @ nl,
       proc_path 7 ''io'' \<mapsto> io_text 9 8 7 6 5000 4096 3],
     proc_dir = [proc_path 7 ''fd'' \<mapsto> [''.'', ''..'', ''0'', ''1'', ''2'']]\<rparr>"

lemma show_int_7 [simp]: "show_int 7 = ''7''"
  by code_simp

lemma demo_paths [simp]:
  "proc_path 7 ''stat'' = ''/proc/7/stat''" "proc_path 7 ''io'' = ''/proc/7/io''" "proc_path 7 ''fd'' = ''/proc/7/fd''"
  by (simp_all add: proc_path_def PROC_PATH_def)

lemma demo_stat_length: "length (stat_line 7 ''a) (b'' CHR ''S'' demo_fields) < 1023"
  by (simp add: stat_line_def demo_fields_def show_int_def show_nat.simps)

lemma demo_stat_content:
  "proc_file demo_proc (proc_path 7 ''stat'') = Some (stat_line 7 ''a) (b'' CHR ''S'' (demo_fields @ []) @ nl)"
  "list_all2 fits stat_kinds demo_fields" "comm_text ''a) (b''"
  by (simp_all add: demo_proc_def stat_kinds_def demo_fields_def limits_defs comm_text_def)

theorem read_proc_stat_roundtrip_witness:
  "\<exists>d'. read_proc_stat demo_proc 4096 0 7 (undefined\<lparr>i_pid := 7\<rparr>) = Inr (True, 4, d') \<and> i_comm d' = ''a) (b''
     \<and> i_utime d' = 250 \<and> i_rssKb d' = 2048"
proof -
  have kb: "(4 :: int) = initialize_page_size_kb 4096 0" by (simp add: initialize_page_size_kb_def)
  show ?thesis
    using read_proc_stat_roundtrip [OF demo_stat_content(1,3) _ _ demo_stat_content(2) kb, of "undefined\<lparr>i_pid := 7\<rparr>"] demo_stat_length
    by (simp add: comm_text_def demo_fields_def to_long_def del: demo_paths) auto
qed

theorem read_proc_io_roundtrip_witness:
  "i_write_kbytes (snd (read_proc_io demo_proc 7 (undefined\<lparr>i_pid := 7\<rparr>))) = 4"
proof -
  have content: "proc_file demo_proc (proc_path 7 ''io'') = Some (io_text 9 8 7 6 5000 4096 3)"
    by (simp add: demo_proc_def)
  show ?thesis
    using read_proc_io_roundtrip [OF _ content, of "undefined\<lparr>i_pid := 7\<rparr>"] by (simp add: limits_defs)
qed

end
