(* ===== verification/Snapshot_Clock.thy ===== *)
theory Snapshot_Clock
  imports Timestamps
begin

text \<open>
  The time stamp of a snapshot, \<^verbatim>\<open>print_timestamp\<close> of
  \<^verbatim>\<open>src/code/process_snapshot/process_snapshot.c\<close>, and that the report's parser reads it back. The
  clocks and \<^verbatim>\<open>localtime_r\<close> are arguments; the record \<open>tm\<close> holds year and month as they are
  written, that is \<open>tm_year + 1900\<close> and \<open>tm_mon + 1\<close> of the C structure.
\<close>

section \<open>Printing\<close>

record snapshot_clock =
  wall :: tm
  wall_nsec :: int
  mono_sec :: int
  mono_nsec :: int

text \<open>The conversion \<open>%0wd\<close>.\<close>

definition fmt_zero :: "nat \<Rightarrow> int \<Rightarrow> string" where
  "fmt_zero w i = (if i < 0 then CHR ''-'' # pad_zeros (w - 1) (show_nat (nat (- i)))
     else pad_zeros w (show_nat (nat i)))"

definition hr_timestamp :: "snapshot_clock \<Rightarrow> string" where
  "hr_timestamp k = (let t = wall k in c_snprintf 64
     (fmt_zero 4 (tm_year t) @ ''-'' @ fmt_zero 2 (tm_mon t) @ ''-'' @ fmt_zero 2 (tm_mday t) @ '' ''
      @ fmt_zero 2 (tm_hour t) @ '':'' @ fmt_zero 2 (tm_min t) @ '':'' @ fmt_zero 2 (tm_sec t) @ ''.''
      @ fmt_zero 3 (wall_nsec k div 1000000)))"

definition mono_timestamp :: "snapshot_clock \<Rightarrow> double" where
  "mono_timestamp k = d_add (d_of_long (mono_sec k)) (d_div (d_of_long (mono_nsec k)) (Fin 1000000000))"

section \<open>Reading it back\<close>

definition stamp_ok :: "snapshot_clock \<Rightarrow> bool" where
  "stamp_ok k = (let t = wall k in 0 \<le> tm_year t \<and> tm_year t \<le> 9999 \<and> 1 \<le> tm_mon t \<and> tm_mon t \<le> 12
     \<and> 1 \<le> tm_mday t \<and> tm_mday t \<le> 31 \<and> 0 \<le> tm_hour t \<and> tm_hour t \<le> 23 \<and> 0 \<le> tm_min t \<and> tm_min t \<le> 59
     \<and> 0 \<le> tm_sec t \<and> tm_sec t \<le> 60 \<and> 0 \<le> wall_nsec k \<and> wall_nsec k < 1000000000)"

definition padded :: "nat \<Rightarrow> nat \<Rightarrow> string" where
  "padded w n = pad_zeros w (show_nat n)"

lemma fmt_zero_padded: "0 \<le> i \<Longrightarrow> fmt_zero w i = padded w (nat i)"
  by (simp add: fmt_zero_def padded_def)

lemma padded_digits: "list_all c_isdigit (padded w n)"
  using show_nat_digits [of n] by (auto simp: padded_def pad_zeros_def list_all_iff c_isdigit_def)

lemma dec_val_zeros: "dec_val (replicate k (CHR ''0'') @ s) = dec_val s"
  by (induction k) (simp_all add: dec_val_def digit_val_def)

lemma dec_val_padded: "dec_val (padded w n) = n"
  by (simp add: padded_def pad_zeros_def dec_val_zeros)

lemma length_padded: "n < 10 ^ w \<Longrightarrow> 0 < w \<Longrightarrow> length (padded w n) = w"
  using length_show_nat_le [of n w] by (simp add: padded_def pad_zeros_def)

lemma scan_digits_all:
  assumes "list_all c_isdigit ds" and "foldl (\<lambda>a c. a * 10 + digit_val c) v ds \<le> hi"
  shows "scan_digits (length ds) hi v (ds @ rest) = (foldl (\<lambda>a c. a * 10 + digit_val c) v ds, rest)"
  using assms
proof (induction ds arbitrary: v)
  case (Cons c ds)
  have grow: "a \<le> foldl (\<lambda>a c. a * 10 + digit_val c) a ds" for a and ds :: string
  proof (induction ds arbitrary: a)
    case (Cons c ds)
    have "a \<le> a * 10 + digit_val c" by simp
    also have "\<dots> \<le> foldl (\<lambda>a c. a * 10 + digit_val c) (a * 10 + digit_val c) ds" by (rule Cons.IH)
    finally show ?case by simp
  qed simp
  have "v * 10 + digit_val c \<le> hi" using grow [of "v * 10 + digit_val c" ds] Cons.prems(2) by simp
  with Cons show ?case by simp
qed (cases rest; simp)

lemma get_number_padded:
  assumes "n < 10 ^ w" and "0 < w" and "lo \<le> n" and "n \<le> hi"
  shows "get_number lo hi w (padded w n @ rest) = Some (n, rest)"
proof -
  have len: "length (padded w n) = w" using assms(1,2) by (rule length_padded)
  then obtain c cs where c: "padded w n = c # cs" "c_isdigit c"
    using padded_digits [of w n] assms(2) by (cases "padded w n") auto
  have "scan_digits w hi 0 (padded w n @ rest) = (n, rest)"
    using scan_digits_all [of "padded w n" 0 hi rest] padded_digits [of w n] dec_val_padded [of w n] assms(4) len
    by (simp add: dec_val_def)
  moreover have "dropWhile (\<lambda>c. c = CHR '' '') (padded w n @ rest) = padded w n @ rest"
    using c by (auto simp: c_isdigit_def)
  ultimately show ?thesis using c assms(3,4) by (simp add: get_number_def)
qed

lemma atoi_padded: "n < 1000 \<Longrightarrow> c_atoi (padded 3 n) = int n"
proof -
  assume n: "n < 1000"
  then have "length (padded 3 n) = 3" by (intro length_padded) simp_all
  then obtain c cs where c: "padded 3 n = c # cs" and d: "c_isdigit c"
    using padded_digits [of 3 n] by (cases "padded 3 n") auto
  have "split_sign (dropWhile c_isspace (padded 3 n)) = (False, padded 3 n)"
    using d by (simp add: c split_sign_def isdigit_not_space isdigit_not_sign)
  moreover have "takeWhile c_isdigit (padded 3 n) = padded 3 n"
    using padded_digits [of 3 n] by (simp add: list_all_iff takeWhile_eq_all_conv)
  ultimately have "fst (c_strtol (padded 3 n)) = int n"
    using n c dec_val_padded [of 3 n] by (simp add: c_strtol_def Let_def limits_defs)
  with n show ?thesis by (simp add: c_atoi_def to_int_id)
qed

lemma padded_notin: "\<not> c_isdigit c \<Longrightarrow> c \<notin> set (padded w n)"
  using padded_digits [of w n] by (auto simp: list_all_iff)

definition stamp_text :: "tm \<Rightarrow> nat \<Rightarrow> string" where
  "stamp_text t ms = padded 4 (nat (tm_year t)) @ ''-'' @ padded 2 (nat (tm_mon t)) @ ''-'' @ padded 2 (nat (tm_mday t))
     @ '' '' @ padded 2 (nat (tm_hour t)) @ '':'' @ padded 2 (nat (tm_min t)) @ '':'' @ padded 2 (nat (tm_sec t))
     @ ''.'' @ padded 3 ms"

lemma hr_timestamp_text:
  assumes "stamp_ok k"
  shows "hr_timestamp k = stamp_text (wall k) (nat (wall_nsec k div 1000000))"
proof -
  have ms: "0 \<le> wall_nsec k div 1000000" "nat (wall_nsec k div 1000000) < 10 ^ 3"
    using assms by (auto simp: stamp_ok_def Let_def)
  have "length (stamp_text (wall k) (nat (wall_nsec k div 1000000))) < 64"
    using assms ms(2) by (simp add: stamp_text_def stamp_ok_def Let_def length_padded nat_less_iff)
  then show ?thesis using assms ms(1)
    by (simp add: hr_timestamp_def Let_def stamp_text_def fmt_zero_padded stamp_ok_def)
qed

lemma blank_is_space: "c_isspace CHR '' ''"
  by (simp add: c_isspace_def)

lemma strptime_text:
  assumes "Y \<le> 9999" and "1 \<le> M" and "M \<le> 12" and "1 \<le> D" and "D \<le> 31" and "h \<le> 23" and "m \<le> 59" and "sec \<le> 60"
  shows "c_strptime (padded 4 Y @ ''-'' @ padded 2 M @ ''-'' @ padded 2 D @ '' '' @ padded 2 h @ '':'' @ padded 2 m
      @ '':'' @ padded 2 sec @ rest)
    = Some \<lparr>tm_year = int Y, tm_mon = int M, tm_mday = int D, tm_hour = int h, tm_min = int m, tm_sec = int sec\<rparr>"
proof -
  have b: "Y < 10 ^ 4" "M < 10 ^ 2" "D < 10 ^ 2" "h < 10 ^ 2" "m < 10 ^ 2" "sec < 10 ^ 2"
    using assms by simp_all
  have g: "get_number 0 9999 4 (padded 4 Y @ r) = Some (Y, r)" "get_number (Suc 0) 12 2 (padded 2 M @ r) = Some (M, r)"
      "get_number (Suc 0) 31 2 (padded 2 D @ r) = Some (D, r)" "get_number 0 23 2 (padded 2 h @ r) = Some (h, r)"
      "get_number 0 59 2 (padded 2 m @ r) = Some (m, r)" "get_number 0 61 2 (padded 2 sec @ r) = Some (sec, r)" for r
    using b assms by (intro get_number_padded; simp)+
  have "dropWhile c_isspace (CHR '' '' # padded 2 h @ r) = padded 2 h @ r" for r
    using padded_digits [of 2 h] length_padded [OF b(4)]
    by (cases "padded 2 h") (auto simp: isdigit_not_space blank_is_space)
  then show ?thesis by (simp add: c_strptime_def g match_char_def)
qed

lemma strptime_stamp:
  assumes "stamp_ok k"
  shows "c_strptime (stamp_text (wall k) ms) = Some (wall k)"
proof -
  have "c_strptime (stamp_text (wall k) ms) = Some \<lparr>tm_year = int (nat (tm_year (wall k))),
      tm_mon = int (nat (tm_mon (wall k))), tm_mday = int (nat (tm_mday (wall k))),
      tm_hour = int (nat (tm_hour (wall k))), tm_min = int (nat (tm_min (wall k))), tm_sec = int (nat (tm_sec (wall k)))\<rparr>"
    unfolding stamp_text_def using assms by (intro strptime_text) (auto simp: stamp_ok_def Let_def)
  then show ?thesis using assms by (simp add: stamp_ok_def Let_def)
qed

text \<open>C29: The time stamp printed for a snapshot is read back by the report: for every calendar time with
  a year up to 9999, a leap second included, \<^verbatim>\<open>parse_timestamp_to_double\<close> of what
  \<^verbatim>\<open>print_timestamp\<close> wrote is the number of seconds of that time, taken as UTC, plus its
  milliseconds.\<close>

theorem timestamp_roundtrip:
  assumes "stamp_ok k"
  shows "parse_timestamp_to_double (hr_timestamp k) =
    d_add (d_of_long (c_timegm (wall k))) (d_div (d_of_long (wall_nsec k div 1000000)) (Fin 1000))"
proof -
  define ms where "ms = nat (wall_nsec k div 1000000)"
  have ms: "ms < 1000" "int ms = wall_nsec k div 1000000"
    using assms by (auto simp: ms_def stamp_ok_def Let_def)
  define front where "front = padded 4 (nat (tm_year (wall k))) @ ''-'' @ padded 2 (nat (tm_mon (wall k))) @ ''-''
     @ padded 2 (nat (tm_mday (wall k))) @ '' '' @ padded 2 (nat (tm_hour (wall k))) @ '':''
     @ padded 2 (nat (tm_min (wall k))) @ '':'' @ padded 2 (nat (tm_sec (wall k)))"
  have "CHR ''.'' \<notin> set front" by (simp add: front_def padded_notin c_isdigit_def)
  moreover have shape: "stamp_text (wall k) ms = front @ CHR ''.'' # padded 3 ms" by (simp add: stamp_text_def front_def)
  ultimately have "split_first (CHR ''.'') (stamp_text (wall k) ms) = Some (front, padded 3 ms)" by simp
  then show ?thesis
    using strptime_stamp [OF assms, of ms] atoi_padded [OF ms(1)] ms(2)
    by (simp add: parse_timestamp_to_double_def hr_timestamp_text [OF assms] ms_def [symmetric])
qed

definition demo_clock :: snapshot_clock where
  "demo_clock = \<lparr>wall = \<lparr>tm_year = 2024, tm_mon = 2, tm_mday = 29, tm_hour = 23, tm_min = 59, tm_sec = 60\<rparr>,
     wall_nsec = 7000000, mono_sec = 100, mono_nsec = 500000000\<rparr>"

theorem timestamp_roundtrip_witness:
  "parse_timestamp_to_double (hr_timestamp demo_clock) =
    d_add (d_of_long 1709251200) (d_div (d_of_long 7) (Fin 1000))"
proof -
  have "stamp_ok demo_clock" by (simp add: stamp_ok_def demo_clock_def)
  moreover have "c_timegm (wall demo_clock) = 1709251200"
    by (simp add: c_timegm_def demo_clock_def days_from_civil_def year_days_def)
  moreover have "wall_nsec demo_clock div 1000000 = 7" by (simp add: demo_clock_def)
  ultimately show ?thesis using timestamp_roundtrip [of demo_clock] by simp
qed

end
