(* ===== verification/Process_Snapshot.thy ===== *)
theory Process_Snapshot
  imports Proc_Reader Snapshot_Clock Metrics_Report
begin

text \<open>
  One snapshot of \<^verbatim>\<open>src/code/process_snapshot/process_snapshot.c\<close>: rotation where it is due, the time
  stamp, every process of \<^verbatim>\<open>/proc\<close> that passes the filters written to the log and the JSON lines and
  fed into the statistics; and starting and stopping the module. The streams are the paths of the
  files they append to.
\<close>

section \<open>State\<close>

record snapshot_state = rotation_state +
  pfOutputFile :: "fpath option"
  pfOutputJsonlFile :: "fpath option"
  lock_fd :: "fpath option"
  proc_open :: bool
  page_size_kb :: int
  stats :: process_stats
  console :: string

text \<open>
  What the system answers during one snapshot: the clocks, \<^verbatim>\<open>/proc\<close>, the page size, the program's own
  process id, the outcome of \<^verbatim>\<open>calloc\<close> for the record of a process, and of the calls of the two
  rotations.
\<close>

record snapshot_env =
  clock :: snapshot_clock
  proc :: proc_fs
  sys_page_size :: int
  own_pid :: int
  record_alloc :: "int \<Rightarrow> bool"
  log_rotation :: rotation_env
  json_rotation :: rotation_env

section \<open>Output\<close>

definition log_data :: "config_t \<Rightarrow> fpath option \<Rightarrow> string \<Rightarrow> snapshot_state \<Rightarrow> snapshot_state" where
  "log_data c f t s =
     (let s1 = (if config_get_raw_console_enabled c then s\<lparr>console := console s @ t\<rparr> else s)
      in case f of None \<Rightarrow> s1 | Some p \<Rightarrow> s1\<lparr>files := append_file p t (files s1)\<rparr>)"

definition shown_fds :: "process_state_input_t \<Rightarrow> int" where
  "shown_fds d = (if i_bo_is_fd_valid d then sint (i_number_of_fds d) else -1)"

definition log_line :: "process_state_input_t \<Rightarrow> string" where
  "log_line d = ''PID='' @ show_int (i_pid d) @ '' COMM='' @ i_comm d @ '' STATE='' @ [i_state d]
     @ '' PPID='' @ show_int (i_ppid d) @ '' UTIME='' @ show_nat (unat (i_utime d))
     @ '' STIME='' @ show_nat (unat (i_stime d)) @ '' RSS(KB)='' @ show_int (i_rssKb d)
     @ '' IOR(KB)='' @ show_int (sint (i_read_kbytes d)) @ '' IOW(KB)='' @ show_int (sint (i_write_kbytes d))
     @ '' THREADS='' @ show_int (i_threads d) @ '' FD='' @ show_int (shown_fds d) @ nl"

definition json_field :: "string \<Rightarrow> string \<Rightarrow> string" where
  "json_field k v = quoted k @ '':'' @ v"

definition json_line :: "process_state_input_t \<Rightarrow> string" where
  "json_line d = ''{'' @ json_field ''timestamp'' (quoted (i_h_r_timestamp d)) @ '',''
     @ json_field ''pid'' (show_int (i_pid d)) @ '',''
     @ json_field ''comm'' (quoted (i_comm d)) @ '',''
     @ json_field ''state'' (quoted [i_state d]) @ '',''
     @ json_field ''ppid'' (show_int (i_ppid d)) @ '',''
     @ json_field ''utime'' (show_nat (unat (i_utime d))) @ '',''
     @ json_field ''stime'' (show_nat (unat (i_stime d))) @ '',''
     @ json_field ''rss_kb'' (show_int (i_rssKb d)) @ '',''
     @ json_field ''io_read_kb'' (show_int (sint (i_read_kbytes d))) @ '',''
     @ json_field ''io_write_kb'' (show_int (sint (i_write_kbytes d))) @ '',''
     @ json_field ''threads'' (show_int (i_threads d)) @ '',''
     @ json_field ''fds'' (show_int (shown_fds d)) @ ''}'' @ nl"

definition write_output_to_json :: "process_state_input_t \<Rightarrow> snapshot_state \<Rightarrow> snapshot_state" where
  "write_output_to_json d s =
     (case pfOutputJsonlFile s of None \<Rightarrow> s | Some p \<Rightarrow> s\<lparr>files := append_file p (json_line d) (files s)\<rparr>)"

section \<open>Rotation where it is due\<close>

definition output_path :: "config_t \<Rightarrow> string \<Rightarrow> string" where
  "output_path c n = c_snprintf PATH_MAX (config_get_output_dir c @ ''/'' @ n)"

definition rotate_raw_log :: "config_t \<Rightarrow> snapshot_env \<Rightarrow> snapshot_state \<Rightarrow> snapshot_state" where
  "rotate_raw_log c env s =
     (let p = output_path c CONFIG_LOG_FILE
      in if config_get_max_file_size_bytes c \<le> get_file_size (files s) p
         then case rotate_and_reopen c (log_rotation env) p s of (f, s1) \<Rightarrow> s1\<lparr>pfOutputFile := f\<rparr>
         else s)"

definition rotate_jsonl :: "config_t \<Rightarrow> snapshot_env \<Rightarrow> snapshot_state \<Rightarrow> snapshot_state" where
  "rotate_jsonl c env s =
     (let p = output_path c CONFIG_JSON_FILE
      in if config_get_max_file_size_bytes c \<le> get_file_size (files s) p
         then case rotate_and_reopen c (json_rotation env) p s of (f, s1) \<Rightarrow> s1\<lparr>pfOutputJsonlFile := f\<rparr>
         else s)"

definition handle_rotations :: "config_t \<Rightarrow> snapshot_env \<Rightarrow> snapshot_state \<Rightarrow> snapshot_state" where
  "handle_rotations c env s =
     (if \<not> config_get_raw_log_enabled c \<and> \<not> config_get_raw_jsonl_enabled c then s
      else let s1 = (if config_get_raw_log_enabled c then rotate_raw_log c env s else s)
           in if config_get_raw_jsonl_enabled c then rotate_jsonl c env s1 else s1)"

section \<open>One snapshot\<close>

definition stamp_prefix :: "string \<Rightarrow> string" where
  "stamp_prefix ts = ''['' @ ts @ ''] ''"

definition print_timestamp ::
  "config_t \<Rightarrow> snapshot_clock \<Rightarrow> process_state_input_t \<Rightarrow> snapshot_state \<Rightarrow> process_state_input_t \<times> snapshot_state" where
  "print_timestamp c k d s =
     (let d1 = d\<lparr>i_h_r_timestamp := hr_timestamp k\<rparr>;
          s1 = log_data c (pfOutputFile s) (stamp_prefix (i_h_r_timestamp d1)) s
      in (d1\<lparr>i_timestamp := mono_timestamp k\<rparr>, s1))"

definition passes_filter :: "ap_pid_whitelist \<Rightarrow> process_state_input_t \<Rightarrow> bool" where
  "passes_filter w d = (\<not> (is_filtering_enabled w \<and> \<not> is_comm_in_filter (i_comm d) w
     \<and> \<not> is_pid_in_filter (i_pid d) w))"

definition record_process ::
  "config_t \<Rightarrow> snapshot_env \<Rightarrow> process_state_input_t \<Rightarrow> snapshot_state \<Rightarrow> snapshot_state" where
  "record_process c env d s =
     (let s1 = log_data c (pfOutputFile s) (log_line d) s;
          s2 = s1\<lparr>stats := process_stats_update (record_alloc env (i_pid d)) d (stats s1)\<rparr>
      in write_output_to_json d s2)"

text \<open>The body of the loop over \<^verbatim>\<open>/proc\<close>; the sample is one variable reused for all entries.\<close>

definition snapshot_entry ::
  "config_t \<Rightarrow> snapshot_env \<Rightarrow> ap_pid_whitelist \<Rightarrow> string \<times> bool \<Rightarrow> process_state_input_t \<times> snapshot_state
   \<Rightarrow> c_fault + (process_state_input_t \<times> snapshot_state)" where
  "snapshot_entry c env w de ds =
     (case (de, ds) of ((d_name, is_dt_dir), (d, s)) \<Rightarrow>
        if \<not> is_dt_dir then Inr (d, s)
        else if \<not> is_numeric d_name then Inr (d, s)
        else let d1 = d\<lparr>i_pid := c_atoi d_name\<rparr>
             in if \<not> config_get_include_self c \<and> i_pid d1 = own_pid env then Inr (d1, s)
                else bind_fault (read_proc_stat (proc env) (sys_page_size env) (page_size_kb s) (i_pid d1) d1)
                  (\<lambda>(ok, kb, d2).
                     let s1 = s\<lparr>page_size_kb := kb\<rparr>
                     in if \<not> ok \<or> \<not> passes_filter w d2 then Inr (d2, s1)
                        else let d3 = read_fd (proc env) d2 in Inr (d3, record_process c env d3 s1)))"

fun snapshot_entries ::
  "config_t \<Rightarrow> snapshot_env \<Rightarrow> ap_pid_whitelist \<Rightarrow> (string \<times> bool) list \<Rightarrow> process_state_input_t \<times> snapshot_state
   \<Rightarrow> c_fault + (process_state_input_t \<times> snapshot_state)" where
  "snapshot_entries c env w [] ds = Inr ds"
| "snapshot_entries c env w (de # des) ds =
     bind_fault (snapshot_entry c env w de ds) (snapshot_entries c env w des)"

definition start_text :: string where
  "start_text = '' SNAPSHOT START ################# '' @ nl"

definition end_text :: string where
  "end_text = ''SNAPSHOT END ################# '' @ nl"

text \<open>
  \<open>d0\<close> is the uninitialised sample on the stack. The state has no buffers: what is printed is in the files at
  once. So the call of \<^verbatim>\<open>flush_output_files\<close> after the end marker has nothing to do here; it is a definition of
  \<open>Output_Buffer\<close>, where the same writes go through buffers and the flush that follows them is shown to leave
  the files of this definition.
\<close>

definition collect_snapshot ::
  "config_t \<Rightarrow> snapshot_env \<Rightarrow> ap_pid_whitelist \<Rightarrow> process_state_input_t \<Rightarrow> snapshot_state \<Rightarrow> c_fault + snapshot_state" where
  "collect_snapshot c env w d0 s =
     (let s1 = handle_rotations c env s;
          (d, s2) = print_timestamp c (clock env) d0 s1;
          s3 = log_data c (pfOutputFile s2) start_text s2
      in if \<not> proc_open s3 then Inl Null_Call
         else bind_fault (snapshot_entries c env w (proc_entries (proc env)) (d, s3))
           (\<lambda>(_, s4). let s5 = log_data c (pfOutputFile s4) end_text s4
              in Inr (s5\<lparr>stats := process_stats_snapshot_end (stats s5)\<rparr>)))"

section \<open>Starting and stopping\<close>

text \<open>The files of earlier runs, by the beginning of their names (\<^verbatim>\<open>strncmp\<close>).\<close>

definition is_raw_file :: "string \<Rightarrow> bool" where
  "is_raw_file n = (take (length CONFIG_LOG_FILE) n = CONFIG_LOG_FILE
     \<or> take (length CONFIG_JSON_FILE) n = CONFIG_JSON_FILE)"

definition delete_path :: "config_t \<Rightarrow> string \<Rightarrow> string" where
  "delete_path c n = c_snprintf 512 (config_get_output_dir c @ ''/'' @ n)"

text \<open>The loop over the directory; the flag says whether it got to the end.\<close>

fun delete_entries :: "config_t \<Rightarrow> string list \<Rightarrow> snapshot_state \<Rightarrow> bool \<times> snapshot_state" where
  "delete_entries c [] s = (True, s)"
| "delete_entries c (n # ns) s =
     (if is_raw_file n
      then case sys_remove (files s) (delete_path c n) of
          (None, fs) \<Rightarrow> delete_entries c ns (s\<lparr>files := fs, console := console s @ ''Removed old file '' @ n @ nl\<rparr>)
        | (Some _, fs) \<Rightarrow> (False, s\<lparr>files := fs, err_out := err_out s
            @ ''process_snapshot_delete_old_files: Failed to remove old file '' @ n @ nl\<rparr>)
      else delete_entries c ns s)"

datatype process_snapshot_status = process_snapshot_aquire_lock_failed | process_snapshot_error
  | process_snapshot_success

text \<open>\<open>listing\<close> is what \<^verbatim>\<open>opendir\<close> and \<^verbatim>\<open>readdir\<close> give for the output directory.\<close>

definition process_snapshot_delete_old_files ::
  "config_t \<Rightarrow> errno + string list \<Rightarrow> snapshot_state \<Rightarrow> process_snapshot_status \<times> snapshot_state" where
  "process_snapshot_delete_old_files c listing s =
     (case listing of
        Inr names \<Rightarrow> (case delete_entries c names s of
            (True, s1) \<Rightarrow> (process_snapshot_success, s1) | (False, s1) \<Rightarrow> (process_snapshot_error, s1))
      | Inl e \<Rightarrow> if e = ENOENT then (process_snapshot_success, s)
          else (process_snapshot_error, s\<lparr>err_out := err_out s
            @ ''process_snapshot_delete_old_files: Failed to open dir '' @ config_get_output_dir c @ nl\<rparr>))"

text \<open>The answer of \<^verbatim>\<open>flock(LOCK_EX | LOCK_NB)\<close>.\<close>

datatype flock_answer = Lock_Granted | Lock_Busy | Lock_Error string

definition acquire_lock ::
  "flock_answer \<Rightarrow> string \<Rightarrow> snapshot_state \<Rightarrow> process_snapshot_status \<times> snapshot_state" where
  "acquire_lock fl p s =
     (case open_write False (files s) p of
        (None, fs) \<Rightarrow> (process_snapshot_aquire_lock_failed,
          s\<lparr>files := fs, lock_fd := None, console := console s @ ''acquire_lock: failed to open lock file'' @ nl\<rparr>)
      | (Some l, fs) \<Rightarrow>
          (case fl of
             Lock_Granted \<Rightarrow> (process_snapshot_success, s\<lparr>files := fs, lock_fd := Some l\<rparr>)
           | Lock_Busy \<Rightarrow> (process_snapshot_aquire_lock_failed,
               s\<lparr>files := fs, lock_fd := None,
                 console := console s @ ''acquire_lock: process_analyzer is already running'' @ nl\<rparr>)
           | Lock_Error msg \<Rightarrow> (process_snapshot_aquire_lock_failed,
               s\<lparr>files := fs, lock_fd := None, err_out := err_out s @ ''flock: '' @ msg @ nl\<rparr>)))"

text \<open>Opening one of the raw files; the status given is kept when the file is not wanted.\<close>

definition open_raw_log ::
  "config_t \<Rightarrow> process_snapshot_status \<times> snapshot_state \<Rightarrow> process_snapshot_status \<times> snapshot_state" where
  "open_raw_log c rs =
     (case rs of (r, s) \<Rightarrow>
        if config_get_raw_log_enabled c
        then case open_write False (files s) (output_path c CONFIG_LOG_FILE) of
            (None, fs) \<Rightarrow> (process_snapshot_error, s\<lparr>files := fs, pfOutputFile := None,
              err_out := err_out s @ ''process_snapshot_initialize: Failed to open output file!'' @ nl\<rparr>)
          | (Some p, fs) \<Rightarrow> (process_snapshot_success, s\<lparr>files := fs, pfOutputFile := Some p\<rparr>)
        else (r, s))"

definition open_raw_jsonl ::
  "config_t \<Rightarrow> process_snapshot_status \<times> snapshot_state \<Rightarrow> process_snapshot_status \<times> snapshot_state" where
  "open_raw_jsonl c rs =
     (case rs of (r, s) \<Rightarrow>
        if config_get_raw_jsonl_enabled c
        then case open_write False (files s) (output_path c CONFIG_JSON_FILE) of
            (None, fs) \<Rightarrow> (process_snapshot_error, s\<lparr>files := fs, pfOutputJsonlFile := None,
              err_out := err_out s @ ''process_snapshot_initialize: Failed to open jsonl output file!'' @ nl\<rparr>)
          | (Some p, fs) \<Rightarrow> (process_snapshot_success, s\<lparr>files := fs, pfOutputJsonlFile := Some p\<rparr>)
        else (r, s))"

definition process_snapshot_initialize ::
  "config_t \<Rightarrow> bool \<Rightarrow> int \<Rightarrow> flock_answer \<Rightarrow> snapshot_state \<Rightarrow> process_snapshot_status \<times> snapshot_state" where
  "process_snapshot_initialize c opendir_ok page_size fl s =
     (if \<not> opendir_ok
      then (process_snapshot_error, s\<lparr>proc_open := False, err_out := err_out s @ ''failed to open /proc''\<rparr>)
      else let s1 = s\<lparr>proc_open := True, page_size_kb := initialize_page_size_kb page_size (page_size_kb s)\<rparr>
           in if \<not> config_get_raw_log_enabled c \<and> \<not> config_get_raw_jsonl_enabled c
              then (process_snapshot_success, s1)
              else case acquire_lock fl (output_path c CONFIG_LOCK_FILE) s1 of
                  (process_snapshot_success, s2) \<Rightarrow>
                    open_raw_jsonl c (open_raw_log c (process_snapshot_success, s2))
                | (r, s2) \<Rightarrow> (r, s2))"

text \<open>The streams are closed but keep their values; the results of the closing calls are arguments.\<close>

definition process_snapshot_deinit :: "bool \<Rightarrow> bool \<Rightarrow> bool \<Rightarrow> snapshot_state \<Rightarrow> snapshot_state" where
  "process_snapshot_deinit log_ok json_ok dir_ok s =
     (let s1 = s\<lparr>lock_fd := None\<rparr>;
          s2 = (if pfOutputFile s1 \<noteq> None \<and> \<not> log_ok
            then s1\<lparr>err_out := err_out s1 @ ''process_snapshot_deinit: Failed to close PSN_pfOutputFile!'' @ nl\<rparr> else s1);
          s3 = (if pfOutputJsonlFile s2 \<noteq> None \<and> \<not> json_ok
            then s2\<lparr>err_out := err_out s2 @ ''process_snapshot_deinit: Failed to close PSN_pfOutputJsonlFile!'' @ nl\<rparr> else s2)
      in if proc_open s3 \<and> \<not> dir_ok
         then s3\<lparr>err_out := err_out s3 @ ''process_snapshot_deinit: Failed to close proc dir!'' @ nl\<rparr> else s3)"

end
