(* ===== verification/Snapshot_Samples.thy ===== *)
theory Snapshot_Samples
  imports Process_Snapshot
begin

text \<open>
  What a snapshot feeds into the statistics and writes to its files. The loop over \<^verbatim>\<open>/proc\<close> reuses one
  sample for all processes; here each sample is shown to depend on its own process alone, so that the
  loop is the recording of a list of independent samples.
\<close>

section \<open>A sample depends on its own process only\<close>

definition io_counters :: "string \<Rightarrow> u64 \<times> u64 \<Rightarrow> u64 \<times> u64" where
  "io_counters line ab =
     (case c_sscanf read_bytes_format line of
        [Int_Value v] \<Rightarrow> (of_int v div 1024, snd ab)
      | _ \<Rightarrow> (case c_sscanf write_bytes_format line of
                [Int_Value v] \<Rightarrow> (fst ab, of_int v div 1024)
              | _ \<Rightarrow> ab))"

lemma io_line_counters:
  "io_line l (d\<lparr>i_read_kbytes := a, i_write_kbytes := b\<rparr>)
    = d\<lparr>i_read_kbytes := fst (io_counters l (a, b)), i_write_kbytes := snd (io_counters l (a, b))\<rparr>"
  by (simp add: io_line_def io_counters_def split: list.split scanned.split)

lemma fold_io_counters:
  "fold io_line ls (d\<lparr>i_read_kbytes := a, i_write_kbytes := b\<rparr>)
    = d\<lparr>i_read_kbytes := fst (fold io_counters ls (a, b)), i_write_kbytes := snd (fold io_counters ls (a, b))\<rparr>"
proof (induction ls arbitrary: a b)
  case (Cons l ls)
  show ?case by (simp only: fold_Cons comp_apply io_line_counters Cons.IH prod.collapse)
qed simp

lemma store_io_independent:
  "\<exists>a b v. \<forall>d. store_io pr p d = d\<lparr>i_read_kbytes := a, i_write_kbytes := b, i_bo_is_io_valid := v\<rparr>"
proof (cases "proc_file pr (proc_path p ''io'')")
  case None
  then show ?thesis
    by (intro exI [of _ "-1"] exI [of _ "-1"] exI [of _ False]) (simp add: store_io_def read_proc_io_def)
next
  case (Some f)
  let ?r = "fold io_counters (c_lines 256 f) (0, 0)"
  show ?thesis
    by (intro exI [of _ "fst ?r"] exI [of _ "snd ?r"] exI [of _ True])
      (simp add: store_io_def read_proc_io_def Some fold_io_counters)
qed

lemma numbers_are_ints: "\<exists>is. c_sscanf (numbers ks) s = map Int_Value is"
proof (induction ks arbitrary: s)
  case (Cons k ks)
  show ?case
  proof (cases "scan_number k (dropWhile c_isspace s)")
    case None
    then show ?thesis by (intro exI [of _ "[]"]) simp
  next
    case (Some vr)
    obtain v r where vr: "vr = (v, r)" by fastforce
    obtain ns where "c_sscanf (numbers ks) r = map Int_Value ns" using Cons.IH by blast
    with Some vr show ?thesis by (intro exI [of _ "v # ns"]) simp
  qed
qed simp

lemma stat_values:
  assumes "length (c_sscanf stat_format s) = 22"
  shows "\<exists>c is. c_sscanf stat_format s = Char_Value c # map Int_Value is \<and> length is = 21"
proof (cases s)
  case Nil
  with assms show ?thesis by (simp add: stat_format_kinds)
next
  case (Cons c t)
  obtain ns where "c_sscanf (numbers stat_kinds) t = map Int_Value ns" using numbers_are_ints by blast
  with assms Cons show ?thesis
    by (intro exI [of _ c] exI [of _ ns]) (simp add: stat_format_kinds)
qed

text \<open>The fields a successful read sets, and what they are set to, do not depend on the sample before.\<close>

definition set_sample ::
  "string \<Rightarrow> char \<Rightarrow> int \<Rightarrow> u64 \<Rightarrow> u64 \<Rightarrow> int \<Rightarrow> int \<times> bool \<Rightarrow> u64 \<times> u64 \<times> bool \<Rightarrow> process_state_input_t \<Rightarrow> process_state_input_t" where
  "set_sample name st parent ut sti thr rss io d = d\<lparr>i_comm := name, i_state := st, i_ppid := parent, i_utime := ut,
     i_stime := sti, i_threads := thr, i_rssKb := fst rss, i_bo_is_rss_valid := snd rss,
     i_read_kbytes := fst io, i_write_kbytes := fst (snd io), i_bo_is_io_valid := snd (snd io)\<rparr>"

definition overwrites :: "(process_state_input_t \<Rightarrow> process_state_input_t) \<Rightarrow> bool" where
  "overwrites F = (\<exists>name st parent ut sti thr rss io. F = set_sample name st parent ut sti thr rss io)"

lemma parse_stat_independent:
  assumes "parse_stat pr kb p buf l r after d = Inr (True, kb', x)"
  shows "\<exists>F. overwrites F \<and> (\<forall>d. parse_stat pr kb p buf l r after d = Inr (True, kb, F d))"
proof -
  obtain name where name: "copy_comm buf l r = Inr name" and after: "after \<noteq> []"
      and n: "length (c_sscanf stat_format (tl after)) = 22"
    using assms by (auto simp: parse_stat_def Let_def split: sum.splits if_splits)
  obtain c ns where vs: "c_sscanf stat_format (tl after) = Char_Value c # map Int_Value ns" "length ns = 21"
    using stat_values [OF n] by blast
  obtain a b v where io: "\<And>d. store_io pr p d = d\<lparr>i_read_kbytes := a, i_write_kbytes := b, i_bo_is_io_valid := v\<rparr>"
    using store_io_independent [of pr p] by blast
  define rss where "rss = (if 0 \<le> ns ! 20 then (to_long (ns ! 20 * kb), True) else (-1, False))"
  define F where "F = set_sample name c (ns ! 0) (of_int (ns ! 10)) (of_int (ns ! 11)) (ns ! 16) rss (a, b, v)"
  have "parse_stat pr kb p buf l r after d = Inr (True, kb, F d)" for d
    using vs by (simp add: parse_stat_def name after Let_def io store_rss_def store_stat_def char_at_def int_at_def
        set_sample_def F_def rss_def)
  moreover have "overwrites F" unfolding overwrites_def F_def by blast
  ultimately show ?thesis by blast
qed

lemma read_stat_independent:
  assumes "read_proc_stat pr ps g p d = Inr (True, kb, x)"
  shows "\<exists>F. overwrites F \<and> (\<forall>d. read_proc_stat pr ps g p d = Inr (True, initialize_page_size_kb ps g, F d))"
proof -
  obtain f line r before y front after where f: "proc_file pr (proc_path p ''stat'') = Some f"
      "c_fgets 1024 f = Some (line, r)" "split_first (CHR ''('') (c_str line) = Some (before, y)"
      "split_last (CHR '')'') (c_str line) = Some (front, after)"
    using assms by (auto simp: read_proc_stat_def Let_def split: option.splits prod.splits)
  have eq: "read_proc_stat pr ps g p d = parse_stat pr (initialize_page_size_kb ps g) p (c_str line) (length before)
      (length front) after d" for d
    by (simp only: read_proc_stat_def f option.case prod.case Let_def)
  show ?thesis unfolding eq by (rule parse_stat_independent [OF assms [unfolded eq]])
qed

lemma overwrites_fields:
  assumes "overwrites F"
  shows "i_pid (F d) = i_pid d" "i_timestamp (F d) = i_timestamp d" "i_h_r_timestamp (F d) = i_h_r_timestamp d"
  using assms by (auto simp: overwrites_def set_sample_def)

lemma overwrites_same:
  assumes "overwrites F" and "i_pid d = i_pid e" and "i_timestamp d = i_timestamp e"
    and "i_h_r_timestamp d = i_h_r_timestamp e"
  shows "read_fd pr (F d) = read_fd pr (F e)"
  using assms by (cases d, cases e) (auto simp: overwrites_def set_sample_def read_fd_def Let_def)

lemma overwrites_filter:
  assumes "overwrites F" and "i_pid d = i_pid e"
  shows "passes_filter w (F d) = passes_filter w (F e)"
  using assms by (auto simp: overwrites_def set_sample_def passes_filter_def)

lemma read_stat_page:
  assumes "initialize_page_size_kb ps g = initialize_page_size_kb ps g'"
  shows "read_proc_stat pr ps g p d = Inr (True, kb, x) \<longleftrightarrow> read_proc_stat pr ps g' p d = Inr (True, kb, x)"
  using assms by (auto simp: read_proc_stat_def Let_def split: option.split prod.split)

lemma store_stat_keeps [simp]:
  "i_pid (store_stat vs d) = i_pid d" "i_timestamp (store_stat vs d) = i_timestamp d"
  "i_h_r_timestamp (store_stat vs d) = i_h_r_timestamp d"
  by (simp_all add: store_stat_def)

lemma store_rss_keeps [simp]:
  "i_pid (store_rss kb r d) = i_pid d" "i_timestamp (store_rss kb r d) = i_timestamp d"
  "i_h_r_timestamp (store_rss kb r d) = i_h_r_timestamp d"
  by (simp_all add: store_rss_def)

lemma page_size_positive: "0 < initialize_page_size_kb ps g"
  by (simp add: initialize_page_size_kb_def Let_def)

lemma page_size_idem [simp]: "initialize_page_size_kb ps (initialize_page_size_kb ps g) = initialize_page_size_kb ps g"
  using page_size_positive [of ps g] by (simp add: initialize_page_size_kb_def [of ps "initialize_page_size_kb ps g"])

lemma read_stat_keeps:
  assumes "read_proc_stat pr ps g p d = Inr (ok, kb, x)"
  shows "i_pid x = i_pid d" "i_timestamp x = i_timestamp d" "i_h_r_timestamp x = i_h_r_timestamp d"
    and "initialize_page_size_kb ps kb = initialize_page_size_kb ps g"
  using assms by (auto simp: read_proc_stat_def parse_stat_def Let_def split: option.splits prod.splits sum.splits if_splits)

lemma read_fd_keeps [simp]:
  "i_pid (read_fd pr d) = i_pid d" "i_timestamp (read_fd pr d) = i_timestamp d"
  "i_h_r_timestamp (read_fd pr d) = i_h_r_timestamp d"
  by (simp_all add: read_fd_def Let_def)

section \<open>The loop\<close>

text \<open>The sample of one entry of \<^verbatim>\<open>/proc\<close>, read into a fresh copy of the stamped sample \<open>base\<close>.\<close>

definition entry_sample ::
  "config_t \<Rightarrow> snapshot_env \<Rightarrow> ap_pid_whitelist \<Rightarrow> int \<Rightarrow> process_state_input_t \<Rightarrow> string \<times> bool \<Rightarrow> process_state_input_t option" where
  "entry_sample c env w g base de =
     (if snd de \<and> is_numeric (fst de) \<and> (config_get_include_self c \<or> c_atoi (fst de) \<noteq> own_pid env)
      then case read_proc_stat (proc env) (sys_page_size env) g (c_atoi (fst de)) (base\<lparr>i_pid := c_atoi (fst de)\<rparr>) of
          Inr (True, _, d) \<Rightarrow> if passes_filter w d then Some (read_fd (proc env) d) else None
        | _ \<Rightarrow> None
      else None)"

definition snapshot_samples ::
  "config_t \<Rightarrow> snapshot_env \<Rightarrow> ap_pid_whitelist \<Rightarrow> int \<Rightarrow> process_state_input_t \<Rightarrow> process_state_input_t list" where
  "snapshot_samples c env w g base = List.map_filter (entry_sample c env w g base) (proc_entries (proc env))"

definition stamped :: "snapshot_clock \<Rightarrow> process_state_input_t \<Rightarrow> process_state_input_t" where
  "stamped k d = d\<lparr>i_h_r_timestamp := hr_timestamp k, i_timestamp := mono_timestamp k\<rparr>"

definition same_stamps :: "process_state_input_t \<Rightarrow> process_state_input_t \<Rightarrow> bool" where
  "same_stamps d e = (i_timestamp d = i_timestamp e \<and> i_h_r_timestamp d = i_h_r_timestamp e)"

lemma entry_read:
  assumes "read_proc_stat (proc env) (sys_page_size env) g' p d = Inr (ok, kb, x)"
    and "same_stamps d base" and "i_pid d = p"
    and "initialize_page_size_kb (sys_page_size env) g' = initialize_page_size_kb (sys_page_size env) g"
  shows "case read_proc_stat (proc env) (sys_page_size env) g p (base\<lparr>i_pid := p\<rparr>) of
      Inr (True, _, y) \<Rightarrow> ok \<and> passes_filter w x = passes_filter w y \<and> read_fd (proc env) x = read_fd (proc env) y
    | _ \<Rightarrow> \<not> ok"
proof (cases ok)
  case True
  with assms(1) have "read_proc_stat (proc env) (sys_page_size env) g' p d = Inr (True, kb, x)" by simp
  from read_stat_independent [OF this]
  obtain F where F: "overwrites F"
      "\<And>d. read_proc_stat (proc env) (sys_page_size env) g' p d = Inr (True, initialize_page_size_kb (sys_page_size env) g', F d)"
    by blast
  have x: "x = F d" using F(2) [of d] assms(1) by simp
  have "read_proc_stat (proc env) (sys_page_size env) g p (base\<lparr>i_pid := p\<rparr>)
      = Inr (True, initialize_page_size_kb (sys_page_size env) g', F (base\<lparr>i_pid := p\<rparr>))"
    using read_stat_page [OF assms(4)] F(2) by blast
  moreover have "read_fd (proc env) x = read_fd (proc env) (F (base\<lparr>i_pid := p\<rparr>))"
    unfolding x using assms(2,3) by (intro overwrites_same [OF F(1)]) (simp_all add: same_stamps_def)
  moreover have "passes_filter w x = passes_filter w (F (base\<lparr>i_pid := p\<rparr>))"
    unfolding x using assms(3) by (intro overwrites_filter [OF F(1)]) simp
  ultimately show ?thesis using True by simp
next
  case False
  have "\<not> (\<exists>kb y. read_proc_stat (proc env) (sys_page_size env) g p (base\<lparr>i_pid := p\<rparr>) = Inr (True, kb, y))"
  proof
    assume "\<exists>kb y. read_proc_stat (proc env) (sys_page_size env) g p (base\<lparr>i_pid := p\<rparr>) = Inr (True, kb, y)"
    then obtain kb y where "read_proc_stat (proc env) (sys_page_size env) g p (base\<lparr>i_pid := p\<rparr>) = Inr (True, kb, y)" by blast
    from read_stat_independent [OF this] read_stat_page [OF assms(4)] assms(1) False show False
      by (metis Inr_inject prod.inject)
  qed
  with False show ?thesis by (auto split: sum.split prod.split bool.split)
qed

lemma log_data_page [simp]:
  "log_data c f t (s\<lparr>page_size_kb := k\<rparr>) = (log_data c f t s)\<lparr>page_size_kb := k\<rparr>"
  by (simp add: log_data_def Let_def split: option.split)

lemma record_process_page [simp]:
  "record_process c env d (s\<lparr>page_size_kb := k\<rparr>) = (record_process c env d s)\<lparr>page_size_kb := k\<rparr>"
  by (simp add: record_process_def Let_def write_output_to_json_def split: option.split)

lemma fold_record_page:
  "fold (record_process c env) xs (s\<lparr>page_size_kb := k\<rparr>) = (fold (record_process c env) xs s)\<lparr>page_size_kb := k\<rparr>"
  by (induction xs arbitrary: s) simp_all

lemma page_update_id [simp]: "(s :: snapshot_state)\<lparr>page_size_kb := page_size_kb s\<rparr> = s"
  by simp

definition recorded ::
  "config_t \<Rightarrow> snapshot_env \<Rightarrow> process_state_input_t list \<Rightarrow> snapshot_state \<Rightarrow> snapshot_state" where
  "recorded c env xs s = fold (record_process c env) xs s"

lemma snapshot_entry_records:
  assumes "snapshot_entry c env w de (d, s) = Inr (d', s')" and "same_stamps d base"
    and "initialize_page_size_kb (sys_page_size env) (page_size_kb s) = initialize_page_size_kb (sys_page_size env) g"
  shows "same_stamps d' base
    \<and> initialize_page_size_kb (sys_page_size env) (page_size_kb s') = initialize_page_size_kb (sys_page_size env) g
    \<and> (\<exists>k. s' = (recorded c env (case entry_sample c env w g base de of None \<Rightarrow> [] | Some x \<Rightarrow> [x]) s)\<lparr>page_size_kb := k\<rparr>)"
proof -
  obtain nm isd where de: "de = (nm, isd)" by fastforce
  define p where "p = c_atoi nm"
  show ?thesis
  proof (cases "isd \<and> is_numeric nm \<and> (config_get_include_self c \<or> p \<noteq> own_pid env)")
    case False
    then have none: "entry_sample c env w g base de = None" by (auto simp: entry_sample_def de p_def)
    have "s' = s" and "d' = d \<or> d' = d\<lparr>i_pid := p\<rparr>"
      using assms(1) False by (auto simp: snapshot_entry_def de p_def split: if_splits)
    then show ?thesis using assms(2,3) none
      by (auto simp: same_stamps_def recorded_def intro!: exI [of _ "page_size_kb s"])
  next
    case True
    then obtain ok kb d2 where read: "read_proc_stat (proc env) (sys_page_size env) (page_size_kb s) p (d\<lparr>i_pid := p\<rparr>) = Inr (ok, kb, d2)"
      using assms(1) by (auto simp: snapshot_entry_def de p_def bind_fault_def Let_def split: sum.splits if_splits)
    have out: "(d', s') = (if \<not> ok \<or> \<not> passes_filter w d2 then (d2, s\<lparr>page_size_kb := kb\<rparr>)
        else (read_fd (proc env) d2, record_process c env (read_fd (proc env) d2) (s\<lparr>page_size_kb := kb\<rparr>)))"
      using assms(1) True read by (auto simp: snapshot_entry_def de p_def bind_fault_def Let_def split: if_splits)
    have stamps: "same_stamps (d\<lparr>i_pid := p\<rparr>) base" using assms(2) by (simp add: same_stamps_def)
    have "entry_sample c env w g base de = (if \<not> ok \<or> \<not> passes_filter w d2 then None else Some (read_fd (proc env) d2))"
      using entry_read [OF read stamps _ assms(3), of w] True
      by (auto simp: entry_sample_def de p_def split: sum.splits prod.splits bool.splits)
    moreover have "same_stamps d2 base"
      using read_stat_keeps [OF read] assms(2) by (simp add: same_stamps_def)
    moreover have "initialize_page_size_kb (sys_page_size env) kb = initialize_page_size_kb (sys_page_size env) g"
      using read_stat_keeps(4) [OF read] assms(3) by simp
    ultimately show ?thesis using out
      by (auto simp: recorded_def same_stamps_def split: if_splits)
  qed
qed

lemma recorded_append: "recorded c env (xs @ ys) s = recorded c env ys (recorded c env xs s)"
  by (simp add: recorded_def)

lemma map_filter_Cons:
  "List.map_filter f (x # xs) = (case f x of None \<Rightarrow> [] | Some y \<Rightarrow> [y]) @ List.map_filter f xs"
  by (simp add: map_filter_simps split: option.split)

lemma snapshot_entries_records:
  assumes "snapshot_entries c env w des (d, s) = Inr (d', s')" and "same_stamps d base"
    and "initialize_page_size_kb (sys_page_size env) (page_size_kb s) = initialize_page_size_kb (sys_page_size env) g"
  shows "\<exists>k. s' = (recorded c env (List.map_filter (entry_sample c env w g base) des) s)\<lparr>page_size_kb := k\<rparr>"
  using assms
proof (induction des arbitrary: d s)
  case Nil
  then show ?case by (auto simp: recorded_def map_filter_simps intro!: exI [of _ "page_size_kb s"])
next
  case (Cons de des)
  then obtain d1 s1 where one: "snapshot_entry c env w de (d, s) = Inr (d1, s1)"
      and rest: "snapshot_entries c env w des (d1, s1) = Inr (d', s')"
    by (auto simp: bind_fault_def split: sum.splits)
  from snapshot_entry_records [OF one Cons.prems(2,3)]
  obtain k where k: "same_stamps d1 base"
      "initialize_page_size_kb (sys_page_size env) (page_size_kb s1) = initialize_page_size_kb (sys_page_size env) g"
      "s1 = (recorded c env (case entry_sample c env w g base de of None \<Rightarrow> [] | Some x \<Rightarrow> [x]) s)\<lparr>page_size_kb := k\<rparr>"
    by blast
  from Cons.IH [OF rest k(1,2)] obtain k' where
      "s' = (recorded c env (List.map_filter (entry_sample c env w g base) des) s1)\<lparr>page_size_kb := k'\<rparr>" by blast
  then show ?case unfolding map_filter_Cons recorded_append k(3)
    by (simp add: recorded_def fold_record_page) blast
qed

section \<open>What rotation leaves alone\<close>

definition beyond_rotation :: "snapshot_state \<Rightarrow> process_stats \<times> int \<times> bool \<times> string" where
  "beyond_rotation s = (stats s, page_size_kb s, proc_open s, console s)"

interpretation beyond: rotation_frame beyond_rotation
  by unfold_locales (simp_all add: beyond_rotation_def)

lemma beyond_streams [simp]:
  "beyond_rotation (s\<lparr>pfOutputFile := x\<rparr>) = beyond_rotation s"
  "beyond_rotation (s\<lparr>pfOutputJsonlFile := y\<rparr>) = beyond_rotation s"
  by (simp_all add: beyond_rotation_def)

lemma handle_rotations_beyond: "beyond_rotation (handle_rotations c env s) = beyond_rotation s"
proof -
  have log: "beyond_rotation (rotate_raw_log c env s) = beyond_rotation s" for s
    using beyond.rotate_and_reopen_frame [of c "log_rotation env" "output_path c CONFIG_LOG_FILE" s]
    by (cases "rotate_and_reopen c (log_rotation env) (output_path c CONFIG_LOG_FILE) s")
      (simp add: rotate_raw_log_def Let_def)
  have json: "beyond_rotation (rotate_jsonl c env s) = beyond_rotation s" for s
    using beyond.rotate_and_reopen_frame [of c "json_rotation env" "output_path c CONFIG_JSON_FILE" s]
    by (cases "rotate_and_reopen c (json_rotation env) (output_path c CONFIG_JSON_FILE) s")
      (simp add: rotate_jsonl_def Let_def)
  show ?thesis by (simp add: handle_rotations_def Let_def log json)
qed

section \<open>The outcome of a snapshot\<close>

text \<open>An observation that sees neither the output nor the statistics is the same after recording.\<close>

locale output_frame =
  fixes obs :: "snapshot_state \<Rightarrow> 'x"
  assumes obs_files: "obs (s\<lparr>files := x\<rparr>) = obs s"
    and obs_console: "obs (s\<lparr>console := t\<rparr>) = obs s"
    and obs_stats: "obs (s\<lparr>stats := st\<rparr>) = obs s"
begin

lemma log_data_frame [simp]: "obs (log_data c f t s) = obs s"
  by (simp add: log_data_def Let_def obs_files obs_console split: option.split)

lemma record_process_frame [simp]: "obs (record_process c env d s) = obs s"
  by (simp add: record_process_def Let_def write_output_to_json_def obs_files obs_stats split: option.split)

lemma recorded_frame [simp]: "obs (recorded c env xs s) = obs s"
  by (induction xs arbitrary: s) (simp_all add: recorded_def)

end

interpretation output_queue: output_frame queue
  by unfold_locales simp_all

interpretation output_page: output_frame page_size_kb
  by unfold_locales simp_all

interpretation output_proc: output_frame proc_open
  by unfold_locales simp_all

interpretation output_log: output_frame pfOutputFile
  by unfold_locales simp_all

interpretation output_json: output_frame pfOutputJsonlFile
  by unfold_locales simp_all

lemma log_data_stats [simp]: "stats (log_data c f t s) = stats s"
  by (simp add: log_data_def Let_def split: option.split)

lemma record_process_stats [simp]:
  "stats (record_process c env d s) = process_stats_update (record_alloc env (i_pid d)) d (stats s)"
  by (simp add: record_process_def Let_def write_output_to_json_def split: option.split)

lemma recorded_stats:
  "stats (recorded c env xs s) = fold (\<lambda>d. process_stats_update (record_alloc env (i_pid d)) d) xs (stats s)"
  by (induction xs arbitrary: s) (simp_all add: recorded_def)

lemma collect_snapshot_recorded:
  assumes "collect_snapshot c env w d0 s = Inr s'" and "s1 = handle_rotations c env s"
    and "xs = snapshot_samples c env w (page_size_kb s) (stamped (clock env) d0)"
  shows "\<exists>k. s' = (let t = log_data c (pfOutputFile s1) end_text
      (recorded c env xs (log_data c (pfOutputFile s1) start_text
        (log_data c (pfOutputFile s1) (stamp_prefix (hr_timestamp (clock env))) s1)))
    in t\<lparr>stats := process_stats_snapshot_end (stats t), page_size_kb := k\<rparr>)"
proof -
  define s3 where "s3 = log_data c (pfOutputFile s1) start_text
        (log_data c (pfOutputFile s1) (stamp_prefix (hr_timestamp (clock env))) s1)"
  have g: "page_size_kb s3 = page_size_kb s"
    using handle_rotations_beyond [of c env s] by (simp add: s3_def assms(2) beyond_rotation_def)
  obtain d4 s4 where entries: "snapshot_entries c env w (proc_entries (proc env)) (stamped (clock env) d0, s3) = Inr (d4, s4)"
      and s': "s' = (log_data c (pfOutputFile s4) end_text s4)
        \<lparr>stats := process_stats_snapshot_end (stats s4)\<rparr>"
    using assms(1) unfolding collect_snapshot_def
    by (auto simp: Let_def print_timestamp_def assms(2) [symmetric] s3_def [symmetric] stamped_def [symmetric] bind_fault_def
        split: if_splits sum.splits prod.splits)
  have "same_stamps (stamped (clock env) d0) (stamped (clock env) d0)" by (simp add: same_stamps_def)
  from snapshot_entries_records [OF entries this, of "page_size_kb s"] g
  obtain k where s4: "s4 = (recorded c env xs s3)\<lparr>page_size_kb := k\<rparr>"
    by (auto simp: assms(3) snapshot_samples_def)
  have f: "pfOutputFile s4 = pfOutputFile s1" by (simp add: s4 s3_def)
  have "s' = (let t = log_data c (pfOutputFile s1) end_text (recorded c env xs s3)
      in t\<lparr>stats := process_stats_snapshot_end (stats t), page_size_kb := k\<rparr>)"
    unfolding s' f by (simp add: s4 Let_def)
  then show ?thesis unfolding s3_def by blast
qed

lemma entry_sample_base:
  assumes "same_stamps b b'"
  shows "entry_sample c env w g b de = entry_sample c env w g b' de"
proof -
  define p where "p = c_atoi (fst de)"
  define R where "R = (\<lambda>x. read_proc_stat (proc env) (sys_page_size env) g p (x\<lparr>i_pid := p\<rparr>))"
  define E where "E = (\<lambda>x. case R x of Inr (True, _, d) \<Rightarrow> if passes_filter w d then Some (read_fd (proc env) d) else None | _ \<Rightarrow> None)"
  have "E b = E b'"
  proof (cases "R b")
    case (Inl e)
    have "\<not> (\<exists>kb y. R b' = Inr (True, kb, y))"
    proof
      assume "\<exists>kb y. R b' = Inr (True, kb, y)"
      then obtain kb y where "read_proc_stat (proc env) (sys_page_size env) g p (b'\<lparr>i_pid := p\<rparr>) = Inr (True, kb, y)"
        by (auto simp: R_def)
      from read_stat_independent [OF this] Inl show False by (auto simp: R_def)
    qed
    with Inl show ?thesis by (auto simp: E_def split: sum.split prod.split bool.split)
  next
    case (Inr r)
    obtain ok kb x where r: "r = (ok, kb, x)" by (cases r) auto
    have "same_stamps (b\<lparr>i_pid := p\<rparr>) b'" using assms by (simp add: same_stamps_def)
    from entry_read [OF Inr [unfolded R_def r] this _ refl, of w] Inr r show ?thesis
      by (cases ok) (auto simp: E_def R_def split: sum.splits prod.splits bool.splits)
  qed
  moreover have "entry_sample c env w g x de = (if snd de \<and> is_numeric (fst de)
      \<and> (config_get_include_self c \<or> c_atoi (fst de) \<noteq> own_pid env) then E x else None)" for x
    unfolding entry_sample_def E_def R_def p_def by (rule refl)
  ultimately show ?thesis by (simp only:)
qed

lemma samples_any_base:
  "snapshot_samples c env w g (stamped k d) = snapshot_samples c env w g (stamped k d')"
proof -
  have "same_stamps (stamped k d) (stamped k d')" by (simp add: same_stamps_def stamped_def)
  from entry_sample_base [OF this] have "entry_sample c env w g (stamped k d) = entry_sample c env w g (stamped k d')" by blast
  then show ?thesis by (simp add: snapshot_samples_def)
qed

section \<open>When a snapshot returns\<close>

text \<open>
  What the reader relies on of \<^verbatim>\<open>/proc/<pid>/stat\<close>: where the first line, as far as it fits the
  buffer, has both parentheses, the opening one comes first and the closing one is not the last character.
\<close>

definition stat_safe :: "proc_fs \<Rightarrow> int \<Rightarrow> bool" where
  "stat_safe pr p =
     (case Option.bind (proc_file pr (proc_path p ''stat'')) (c_fgets 1024) of
        None \<Rightarrow> True
      | Some (line, _) \<Rightarrow>
          (case (split_first (CHR ''('') (c_str line), split_last (CHR '')'') (c_str line)) of
             (Some (before, _), Some (front, after)) \<Rightarrow> length before < length front \<and> after \<noteq> []
           | _ \<Rightarrow> True))"

definition proc_safe :: "proc_fs \<Rightarrow> bool" where
  "proc_safe pr = list_all (\<lambda>(n, is_dir). is_dir \<and> is_numeric n \<longrightarrow> stat_safe pr (c_atoi n)) (proc_entries pr)"

lemma stat_line_safe:
  assumes "proc_file pr (proc_path p ''stat'') = Some (stat_line p name st vs @ nl)"
    and "comm_text name" and "st \<notin> {CHR 0x0A, CHR 0x00, CHR '')''}" and "length (stat_line p name st vs) < 1023"
  shows "stat_safe pr p"
  using assms by (simp add: stat_safe_def stat_line_read)

lemma copy_comm_ok:
  assumes "lparen < rparen" and "rparen < 1024"
  shows "\<exists>name. copy_comm buf lparen rparen = Inr name"
proof -
  have "(of_nat rparen - of_nat lparen - 1 :: u64) = of_nat (rparen - lparen - 1)" using assms(1) by simp
  moreover have "unat (of_nat (rparen - lparen - 1) :: u64) = rparen - lparen - 1"
    by (rule of_nat_inverse [OF refl]) (use assms in simp)
  ultimately have "unat (of_nat rparen - of_nat lparen - 1 :: u64) = rparen - lparen - 1" by (simp only:)
  then show ?thesis unfolding copy_comm_def Let_def using assms by auto
qed

lemma read_proc_stat_returns: "stat_safe pr p \<Longrightarrow> \<exists>r. read_proc_stat pr page_size g p d = Inr r"
proof (cases "Option.bind (proc_file pr (proc_path p ''stat'')) (c_fgets 1024)")
  case None
  then have "read_proc_stat pr page_size g p d = Inr (False, g, d)"
    by (cases "proc_file pr (proc_path p ''stat'')") (simp_all add: read_proc_stat_def)
  then show ?thesis by blast
next
  case (Some lr)
  assume safe: "stat_safe pr p"
  obtain f line r where f: "proc_file pr (proc_path p ''stat'') = Some f" "c_fgets 1024 f = Some (line, r)" "lr = (line, r)"
    using Some by (cases "proc_file pr (proc_path p ''stat'')"; cases lr) auto
  show ?thesis
  proof (cases "split_first (CHR ''('') (c_str line) = None \<or> split_last (CHR '')'') (c_str line) = None")
    case True
    then show ?thesis using f by (auto simp: read_proc_stat_def Let_def split: option.split)
  next
    case False
    then obtain before x front after where sp: "split_first (CHR ''('') (c_str line) = Some (before, x)"
        "split_last (CHR '')'') (c_str line) = Some (front, after)" by auto
    with safe f Some have order: "length before < length front" "after \<noteq> []" by (simp_all add: stat_safe_def)
    have "length front < length (c_str line)" using split_last_shape [OF sp(2)] by simp
    then have "length front < 1024" using fgets_short [OF f(2)] by simp
    with copy_comm_ok [OF order(1)] obtain name where "copy_comm (c_str line) (length before) (length front) = Inr name" by blast
    then show ?thesis using f sp order(2) by (simp add: read_proc_stat_def parse_stat_def Let_def) blast
  qed
qed

lemma snapshot_entries_return:
  assumes "list_all (\<lambda>(n, is_dir). is_dir \<and> is_numeric n \<longrightarrow> stat_safe (proc env) (c_atoi n)) des"
  shows "\<exists>r. snapshot_entries c env w des ds = Inr r"
  using assms
proof (induction des arbitrary: ds)
  case (Cons de des)
  obtain n b where de: "de = (n, b)" by (cases de)
  obtain d s where ds: "ds = (d, s)" by (cases ds)
  let ?d = "d\<lparr>i_pid := c_atoi n\<rparr>"
  have "\<exists>r. read_proc_stat (proc env) (sys_page_size env) (page_size_kb s) (c_atoi n) ?d = Inr r" if "b" "is_numeric n"
    using read_proc_stat_returns Cons.prems that by (simp add: de)
  then have "\<exists>r. snapshot_entry c env w de ds = Inr r"
    by (auto simp: snapshot_entry_def de ds Let_def bind_fault_def split: if_splits)
  then obtain r where "snapshot_entry c env w de ds = Inr r" by blast
  with Cons.IH [of r] Cons.prems show ?case by (simp add: bind_fault_def)
qed simp

lemma collect_snapshot_returns:
  assumes "proc_open s" and "proc_safe (proc env)"
  shows "\<exists>s'. collect_snapshot c env w d0 s = Inr s'"
proof -
  have "proc_open (handle_rotations c env s)"
    using handle_rotations_beyond [of c env s] assms(1) by (simp add: beyond_rotation_def)
  moreover obtain s1 d1 where "print_timestamp c (clock env) d0 (handle_rotations c env s) = (d1, s1)" by fastforce
  moreover obtain d4 s4 where "snapshot_entries c env w (proc_entries (proc env)) (d1, log_data c (pfOutputFile s1) start_text s1) = Inr (d4, s4)"
    using snapshot_entries_return [OF assms(2) [unfolded proc_safe_def], of c w "(d1, log_data c (pfOutputFile s1) start_text s1)"] by auto
  ultimately show ?thesis by (auto simp: collect_snapshot_def Let_def print_timestamp_def bind_fault_def)
qed

lemma collect_snapshot_stats:
  assumes "collect_snapshot c env w d0 s = Inr s'"
  shows "stats s' = process_stats_snapshot_end (fold (\<lambda>x. process_stats_update (record_alloc env (i_pid x)) x)
    (snapshot_samples c env w (page_size_kb s) (stamped (clock env) d)) (stats s))"
proof -
  have "stats (handle_rotations c env s) = stats s"
    using handle_rotations_beyond [of c env s] by (simp add: beyond_rotation_def)
  with collect_snapshot_recorded [OF assms refl refl] show ?thesis
    by (auto simp: Let_def recorded_stats samples_any_base [of c env w _ _ d d0])
qed

text \<open>C4: A snapshot feeds into the statistics exactly the samples of the processes that are selected (a
  numbered directory of \<^verbatim>\<open>/proc\<close>, not the program itself unless asked for, passing the filters), in
  the order of the directory, and counts one snapshot; it always returns. Each sample is the one its own process gives:
  although one variable is reused for all of them, nothing of an earlier process and nothing of the
  uninitialised variable (\<open>d0\<close>; \<open>d\<close> is arbitrary) gets into it.\<close>

theorem snapshot_feeds_samples:
  assumes "proc_open s" and "proc_safe (proc env)"
  shows "\<exists>s'. collect_snapshot c env w d0 s = Inr s'
    \<and> stats s' = process_stats_snapshot_end (fold (\<lambda>x. process_stats_update (record_alloc env (i_pid x)) x)
      (snapshot_samples c env w (page_size_kb s) (stamped (clock env) d)) (stats s))"
  using collect_snapshot_returns [OF assms] collect_snapshot_stats by metis

section \<open>The JSON lines\<close>

lemma append_other: "p \<noteq> q \<Longrightarrow> node_at (append_file q t fs) p = node_at fs p"
  by (simp add: append_file_def split: option.split node.split)

lemma append_this: "node_at fs p = Some (File d) \<Longrightarrow> node_at (append_file p t fs) p = Some (File (d @ t))"
  by (simp add: append_file_def)

lemma log_data_other: "f \<noteq> Some p \<Longrightarrow> node_at (files (log_data c f t s)) p = node_at (files s) p"
  by (cases f) (auto simp: log_data_def Let_def append_other)

lemma record_process_json:
  assumes "pfOutputJsonlFile s = Some p" and "pfOutputFile s \<noteq> Some p" and "node_at (files s) p = Some (File t)"
  shows "node_at (files (record_process c env d s)) p = Some (File (t @ json_line d))"
  using assms log_data_other [OF assms(2), of c "log_line d" s]
  by (simp add: record_process_def Let_def write_output_to_json_def append_this)

lemma recorded_json:
  assumes "pfOutputJsonlFile s = Some p" and "pfOutputFile s \<noteq> Some p" and "node_at (files s) p = Some (File t)"
  shows "node_at (files (recorded c env xs s)) p = Some (File (t @ concat (map json_line xs)))"
  using assms
proof (induction xs arbitrary: s t)
  case (Cons x xs)
  with record_process_json [OF Cons.prems] Cons.IH [of "record_process c env x s" "t @ json_line x"] show ?case
    by (simp add: recorded_def)
qed (simp add: recorded_def)

definition json_object :: "process_state_input_t \<Rightarrow> json" where
  "json_object d = JObj [(''timestamp'', JStr (i_h_r_timestamp d)), (''pid'', JNum (show_int (i_pid d))),
     (''comm'', JStr (i_comm d)), (''state'', JStr [i_state d]), (''ppid'', JNum (show_int (i_ppid d))),
     (''utime'', JNum (show_nat (unat (i_utime d)))), (''stime'', JNum (show_nat (unat (i_stime d)))),
     (''rss_kb'', JNum (show_int (i_rssKb d))), (''io_read_kb'', JNum (show_int (sint (i_read_kbytes d)))),
     (''io_write_kb'', JNum (show_int (sint (i_write_kbytes d)))), (''threads'', JNum (show_int (i_threads d))),
     (''fds'', JNum (show_int (shown_fds d)))]"

lemma json_field_member: "json_plain k \<Longrightarrow> json_text v t \<Longrightarrow> json_members [(k, v)] (json_field k t)"
  using j_member [of "[]" k "[]" v t] by (simp add: json_field_def)

lemma json_field_members:
  "json_plain k \<Longrightarrow> json_text v t \<Longrightarrow> json_members ms r \<Longrightarrow> json_members ((k, v) # ms) (json_field k t @ '','' @ r)"
  by (intro j_members json_field_member)

text \<open>A name, a state or a time stamp that needs no escapes in JSON.\<close>

definition plain_sample :: "process_state_input_t \<Rightarrow> bool" where
  "plain_sample d = (json_plain (i_h_r_timestamp d) \<and> json_plain (i_comm d) \<and> json_plain [i_state d])"

lemma json_line_object:
  assumes "plain_sample d"
  shows "\<exists>t. json_line d = t @ nl \<and> json_text (json_object d) t"
proof -
  have strs: "json_text (JStr (i_h_r_timestamp d)) (quoted (i_h_r_timestamp d))"
      "json_text (JStr (i_comm d)) (quoted (i_comm d))" "json_text (JStr [i_state d]) (quoted [i_state d])"
    using assms by (auto simp: plain_sample_def intro: j_str)
  have nums: "json_text (JNum (show_int i)) (show_int i)" "json_text (JNum (show_nat n)) (show_nat n)" for i n
    by (simp_all add: j_num)
  have keys: "json_plain ''timestamp''" "json_plain ''pid''" "json_plain ''comm''" "json_plain ''state''" "json_plain ''ppid''"
      "json_plain ''utime''" "json_plain ''stime''" "json_plain ''rss_kb''" "json_plain ''io_read_kb''"
      "json_plain ''io_write_kb''" "json_plain ''threads''" "json_plain ''fds''"
    by (simp_all add: json_plain_def)
  define body where "body = json_field ''timestamp'' (quoted (i_h_r_timestamp d)) @ '',''
     @ json_field ''pid'' (show_int (i_pid d)) @ '',''
     @ json_field ''comm'' (quoted (i_comm d)) @ '',''
     @ json_field ''state'' (quoted [i_state d]) @ '',''
     @ json_field ''ppid'' (show_int (i_ppid d)) @ '',''
     @ json_field ''utime'' (show_nat (unat (i_utime d))) @ '',''
     @ json_field ''stime'' (show_nat (unat (i_stime d))) @ '',''
     @ json_field ''rss_kb'' (show_int (i_rssKb d)) @ '',''
     @ json_field ''io_read_kb'' (show_int (sint (i_read_kbytes d))) @ '',''
     @ json_field ''io_write_kb'' (show_int (sint (i_write_kbytes d))) @ '',''
     @ json_field ''threads'' (show_int (i_threads d)) @ '',''
     @ json_field ''fds'' (show_int (shown_fds d))"
  have line: "json_line d = (''{'' @ body @ ''}'') @ nl" by (simp add: json_line_def body_def)
  have "json_text (json_object d) (''{'' @ body @ ''}'')"
    unfolding json_object_def body_def
    by (intro j_obj json_field_members json_field_member keys strs nums)
  with line show ?thesis by blast
qed

lemma json_lines_appended:
  assumes "collect_snapshot c env w d0 s = Inr s'" and "s1 = handle_rotations c env s"
    and "pfOutputJsonlFile s1 = Some p" and "pfOutputFile s1 \<noteq> Some p" and "node_at (files s1) p = Some (File t)"
    and "xs = snapshot_samples c env w (page_size_kb s) (stamped (clock env) d0)"
  shows "\<exists>ls. node_at (files s') p = Some (File (t @ concat (map (\<lambda>l. l @ nl) ls))) \<and> length ls = length xs
    \<and> (list_all plain_sample xs \<longrightarrow> list_all2 json_text (map json_object xs) ls)"
proof -
  define s3 where "s3 = log_data c (pfOutputFile s1) start_text
      (log_data c (pfOutputFile s1) (stamp_prefix (hr_timestamp (clock env))) s1)"
  have s3: "pfOutputJsonlFile s3 = Some p" "pfOutputFile s3 = pfOutputFile s1" "node_at (files s3) p = Some (File t)"
    using assms(3-5) by (simp_all add: s3_def log_data_other)
  have "node_at (files s') p = node_at (files (recorded c env xs s3)) p"
    using collect_snapshot_recorded [OF assms(1,2,6)] assms(4)
    by (auto simp: s3_def [symmetric] Let_def log_data_other)
  also have "\<dots> = Some (File (t @ concat (map json_line xs)))"
    using assms(4) s3 by (intro recorded_json) simp_all
  finally have content: "node_at (files s') p = Some (File (t @ concat (map json_line xs)))" .
  define ls where "ls = map butlast (map json_line xs)"
  have "json_line d = butlast (json_line d) @ nl" for d by (simp add: json_line_def nl_def butlast_append)
  then have "map (\<lambda>l. l @ nl) ls = map json_line xs" by (simp add: ls_def)
  moreover have "list_all2 json_text (map json_object xs) ls" if "list_all plain_sample xs"
  proof -
    have "json_text (json_object d) (butlast (json_line d))" if "plain_sample d" for d
      using json_line_object [OF that] by (auto simp: nl_def)
    with that show ?thesis by (simp add: ls_def list_all2_map1 list_all2_map2 list_all2_same list_all_iff)
  qed
  moreover have "length ls = length xs" by (simp add: ls_def)
  ultimately show ?thesis using content by metis
qed

text \<open>C13: The JSON lines file grows by one line per sample of the snapshot, in their order, and nothing
  that was in it is lost. Each line is the JSON object of its sample, as long as the process's name, its
  state letter and the time stamp hold no character that JSON would have escaped.\<close>

theorem snapshot_json_lines:
  assumes "proc_open s" and "proc_safe (proc env)" and "s1 = handle_rotations c env s"
    and "pfOutputJsonlFile s1 = Some p" and "pfOutputFile s1 \<noteq> Some p" and "node_at (files s1) p = Some (File t)"
    and "xs = snapshot_samples c env w (page_size_kb s) (stamped (clock env) d0)"
  shows "\<exists>s' ls. collect_snapshot c env w d0 s = Inr s'
    \<and> node_at (files s') p = Some (File (t @ concat (map (\<lambda>l. l @ nl) ls))) \<and> length ls = length xs
    \<and> (list_all plain_sample xs \<longrightarrow> list_all2 json_text (map json_object xs) ls)"
  using collect_snapshot_returns [OF assms(1,2)] json_lines_appended [OF _ assms(3-7)] by blast

section \<open>A concrete snapshot\<close>

definition demo_snapshot_env :: snapshot_env where
  "demo_snapshot_env = \<lparr>clock = demo_clock, proc = demo_proc, sys_page_size = 4096, own_pid = 1,
     record_alloc = (\<lambda>_. True), log_rotation = demo_now, json_rotation = demo_now\<rparr>"

definition demo_snapshot_state :: snapshot_state where
  "demo_snapshot_state = \<lparr>files = demo_disk ''ptime.log'' ''ptime.jsonl'' ''x'', queue = compression_worker_initial,
     rotation_counter = 0, err_out = [], pfOutputFile = Some [''o'', ''ptime.log''],
     pfOutputJsonlFile = Some [''o'', ''ptime.jsonl''], lock_fd = None, proc_open = True, page_size_kb = 4,
     stats = process_stats_initialize 100 1 ''prog'' process_stats_initial, console = []\<rparr>"

definition demo_config :: config_t where
  "demo_config = config_default\<lparr>output_dir := ''/o''\<rparr>"

lemma demo_no_rotation: "handle_rotations demo_config demo_snapshot_env demo_snapshot_state = demo_snapshot_state"
proof -
  have "output_path demo_config n = ''/o/'' @ n" if "length n < 100" for n
    using that by (simp add: output_path_def demo_config_def config_get_output_dir_def PATH_MAX_def)
  then have "get_file_size (files demo_snapshot_state) (output_path demo_config n) \<le> 6"
    if "n = ''ptime.log'' \<or> n = ''ptime.jsonl''" for n
    using that by (auto simp: get_file_size_def sys_stat_def demo_snapshot_state_def demo_disk_def resolve_def absolute_def
        components_def Let_def)
  then have "\<not> config_get_max_file_size_bytes demo_config \<le> get_file_size (files demo_snapshot_state) (output_path demo_config n)"
    if "n = CONFIG_LOG_FILE \<or> n = CONFIG_JSON_FILE" for n
    using that by (fastforce simp: config_get_max_file_size_bytes_def demo_config_def config_default_def
        CONFIG_LOG_FILE_def CONFIG_JSON_FILE_def)
  then show ?thesis
    by (simp add: handle_rotations_def rotate_raw_log_def rotate_jsonl_def Let_def)
qed

lemma demo_safe: "proc_safe demo_proc" "proc_open demo_snapshot_state" "clock demo_snapshot_env = demo_clock"
  "proc demo_snapshot_env = demo_proc" "page_size_kb demo_snapshot_state = 4"
proof -
  have pid: "c_atoi ''7'' = 7" "\<not> is_numeric ''.''"
    by (simp_all add: c_atoi_def c_strtol_def is_numeric_def c_isdigit_def c_isspace_def split_sign_def dec_val_def
        digit_val_def limits_defs to_int_def)
  have "stat_safe demo_proc 7"
    using stat_line_safe [OF demo_stat_content(1,3)] demo_stat_length by simp
  with pid show "proc_safe demo_proc"
    by (simp add: proc_safe_def demo_proc_def [THEN arg_cong [of _ _ proc_entries]])
qed (simp_all add: demo_snapshot_state_def demo_snapshot_env_def)

theorem snapshot_feeds_samples_witness:
  "\<exists>s'. collect_snapshot demo_config demo_snapshot_env empty_whitelist (undefined\<lparr>i_pid := 0\<rparr>) demo_snapshot_state = Inr s'
    \<and> stats s' = process_stats_snapshot_end (fold (\<lambda>x. process_stats_update (record_alloc demo_snapshot_env (i_pid x)) x)
    (snapshot_samples demo_config demo_snapshot_env empty_whitelist 4 (stamped demo_clock (undefined\<lparr>i_pid := 9\<rparr>)))
    (stats demo_snapshot_state))"
proof -
  have "proc_safe (proc demo_snapshot_env)" by (simp add: demo_safe)
  from snapshot_feeds_samples [OF demo_safe(2) this, of demo_config empty_whitelist "undefined\<lparr>i_pid := 0\<rparr>" "undefined\<lparr>i_pid := 9\<rparr>"]
  show ?thesis unfolding demo_safe(3,5) .
qed

lemma demo_samples_any:
  assumes "proc env = demo_proc" and "sys_page_size env = 4096" and "own_pid env = 1"
  shows "\<exists>x. snapshot_samples c env empty_whitelist 4 (stamped demo_clock d) = [x] \<and> plain_sample x
    \<and> i_h_r_timestamp x = hr_timestamp demo_clock"
proof -
  let ?d = "(stamped demo_clock d)\<lparr>i_pid := 7\<rparr>"
  have pid: "c_atoi ''7'' = 7" "is_numeric ''7''" "\<not> is_numeric ''.''"
    by (simp_all add: c_atoi_def c_strtol_def is_numeric_def c_isdigit_def c_isspace_def split_sign_def dec_val_def
        digit_val_def limits_defs to_int_def)
  obtain x where x: "read_proc_stat demo_proc 4096 4 7 ?d = Inr (True, 4, x)" "i_comm x = ''a) (b''" "i_state x = CHR ''S''"
      "i_h_r_timestamp x = i_h_r_timestamp ?d"
    using read_stat_line [OF demo_stat_content(1,3) _ _ demo_stat_content(2) refl, of 4096 4 ?d] demo_stat_length
    by (simp add: initialize_page_size_kb_def store_stat_def store_rss_def char_at_def del: demo_paths)
  have entries: "proc_entries demo_proc = [(''.'', True), (''7'', True), (''version'', False)]" by (simp add: demo_proc_def)
  have pass: "passes_filter empty_whitelist y" for y
    by (simp add: passes_filter_def is_filtering_enabled_def empty_whitelist_def)
  let ?E = "entry_sample c env empty_whitelist 4 (stamped demo_clock d)"
  have "?E (''.'', True) = None" "?E (''7'', True) = Some (read_fd demo_proc x)" "?E (''version'', False) = None"
    using x(1) pid pass by (simp_all add: entry_sample_def assms)
  then have "snapshot_samples c env empty_whitelist 4 (stamped demo_clock d) = [read_fd demo_proc x]"
    by (simp add: snapshot_samples_def assms(1) entries map_filter_simps)
  moreover have "json_plain (hr_timestamp demo_clock)"
    by code_simp
  then have "plain_sample (read_fd demo_proc x)"
    using x(2-4) by (simp add: plain_sample_def stamped_def json_plain_def read_fd_def Let_def)
  moreover have "i_h_r_timestamp (read_fd demo_proc x) = hr_timestamp demo_clock"
    using x(4) by (simp add: stamped_def read_fd_def Let_def)
  ultimately show ?thesis by blast
qed

lemma demo_samples:
  "\<exists>x. snapshot_samples demo_config demo_snapshot_env empty_whitelist 4 (stamped demo_clock d) = [x] \<and> plain_sample x"
  using demo_samples_any [of demo_snapshot_env demo_config d] by (auto simp: demo_snapshot_env_def)

theorem snapshot_json_lines_witness:
  "\<exists>s' l. collect_snapshot demo_config demo_snapshot_env empty_whitelist (undefined\<lparr>i_pid := 0\<rparr>) demo_snapshot_state = Inr s'
    \<and> node_at (files s') [''o'', ''ptime.jsonl''] = Some (File (''second'' @ l @ nl)) \<and> (\<exists>v. json_text v l)"
proof -
  have start: "pfOutputJsonlFile demo_snapshot_state = Some [''o'', ''ptime.jsonl'']"
      "pfOutputFile demo_snapshot_state \<noteq> Some [''o'', ''ptime.jsonl'']"
      "node_at (files demo_snapshot_state) [''o'', ''ptime.jsonl''] = Some (File ''second'')"
    by (simp_all add: demo_snapshot_state_def demo_disk_def)
  have safe: "proc_safe (proc demo_snapshot_env)" by (simp add: demo_safe)
  obtain x where x: "snapshot_samples demo_config demo_snapshot_env empty_whitelist 4 (stamped demo_clock (undefined\<lparr>i_pid := 0\<rparr>)) = [x]"
      "plain_sample x" using demo_samples by blast
  from snapshot_json_lines [OF demo_safe(2) safe demo_no_rotation [symmetric] start refl, of empty_whitelist "undefined\<lparr>i_pid := 0\<rparr>"]
  obtain s' ls where "collect_snapshot demo_config demo_snapshot_env empty_whitelist (undefined\<lparr>i_pid := 0\<rparr>) demo_snapshot_state = Inr s'"
      "node_at (files s') [''o'', ''ptime.jsonl''] = Some (File (''second'' @ concat (map (\<lambda>l. l @ nl) ls)))"
      "list_all2 json_text [json_object x] ls"
    unfolding demo_safe(3,5) x(1) using x(2) by auto
  then show ?thesis by (auto simp: list_all2_Cons1)
qed

end
