(* ===== verification/Snapshot_Files.thy ===== *)
theory Snapshot_Files
  imports Snapshot_Samples
begin

text \<open>
  Deleting the files of earlier runs, and starting the snapshot module when one of its files cannot be
  opened.
\<close>

section \<open>Deleting old files\<close>

text \<open>The files that are listed, each a file that may be removed and whose path fits the buffer.\<close>

definition deletable :: "config_t \<Rightarrow> file_system \<Rightarrow> string list \<Rightarrow> bool" where
  "deletable c fs ns = (list_all (\<lambda>n. is_raw_file n \<longrightarrow>
     log_name (config_get_output_dir c) n \<and> length (config_get_output_dir c) + length n + 1 < 512
     \<and> \<not> refuses fs (Unlink (log_at fs (config_get_output_dir c) n))
     \<and> node_at fs (log_at fs (config_get_output_dir c) n) \<notin> {None, Some Dir}) ns \<and> distinct ns)"

lemma raw_not_dot: "is_raw_file n \<Longrightarrow> n \<noteq> ''.''"
  by (auto simp: is_raw_file_def CONFIG_LOG_FILE_def CONFIG_JSON_FILE_def)

lemma delete_path_resolve:
  assumes "log_name (config_get_output_dir c) n" and "is_raw_file n" and "length (config_get_output_dir c) + length n + 1 < 512"
  shows "delete_path c n \<noteq> []" and "resolve fs (delete_path c n) = log_at fs (config_get_output_dir c) n"
proof -
  have p: "delete_path c n = config_get_output_dir c @ ''/'' @ n" using assms(3) by (simp add: delete_path_def)
  then show "delete_path c n \<noteq> []" by simp
  show "resolve fs (delete_path c n) = log_at fs (config_get_output_dir c) n"
    using resolve_log [OF assms(1), of "[]" fs] raw_not_dot [OF assms(2)] by (simp add: p)
qed

lemma delete_entries_removes:
  assumes "deletable c (files s) ns"
  shows "\<exists>s'. delete_entries c ns s = (True, s') \<and> node_at (files s') =
    (\<lambda>p. if \<exists>n \<in> set ns. is_raw_file n \<and> p = log_at (files s) (config_get_output_dir c) n then None else node_at (files s) p)
    \<and> err_out s' = err_out s"
  using assms
proof (induction ns arbitrary: s)
  case (Cons n ns)
  let ?at = "log_at (files s) (config_get_output_dir c)"
  show ?case
  proof (cases "is_raw_file n")
    case False
    with Cons.prems have "deletable c (files s) ns" by (simp add: deletable_def)
    from Cons.IH [OF this] False show ?thesis by auto
  next
    case True
    with Cons.prems have n: "log_name (config_get_output_dir c) n" "length (config_get_output_dir c) + length n + 1 < 512"
        "\<not> refuses (files s) (Unlink (?at n))" "node_at (files s) (?at n) \<notin> {None, Some Dir}"
      by (auto simp: deletable_def)
    note path = delete_path_resolve [OF n(1) True n(2)]
    have "sys_remove (files s) (delete_path c n) = (None, (files s)\<lparr>node_at := (node_at (files s))(?at n := None)\<rparr>)"
      using n(3,4) path by (auto simp: sys_remove_def sys_unlink_def is_dir_def Let_def split: option.split node.split)
    then have step: "delete_entries c (n # ns) s = delete_entries c ns (s\<lparr>files := (files s)\<lparr>node_at := (node_at (files s))(?at n := None)\<rparr>,
        console := console s @ ''Removed old file '' @ n @ nl\<rparr>)" using True by simp
    have "deletable c ((files s)\<lparr>node_at := (node_at (files s))(?at n := None)\<rparr>) ns"
      using Cons.prems by (auto simp: deletable_def list_all_iff)
    then show ?thesis
      using Cons.IH [of "s\<lparr>files := (files s)\<lparr>node_at := (node_at (files s))(?at n := None)\<rparr>,
        console := console s @ ''Removed old file '' @ n @ nl\<rparr>"] True unfolding step by (auto simp: fun_eq_iff)
  qed
qed simp

text \<open>C38: Deleting old files removes exactly the raw files of the output directory. Given the names in
  it, when those that begin like the log or the JSON lines file are files that may be removed and
  their paths fit the 512 bytes of the buffer, all of these are gone afterwards, rotated and compressed
  ones included, nothing else on the disk has changed, and the call reports success.\<close>

theorem delete_old_files_removes:
  assumes "deletable c (files s) ns"
  shows "\<exists>s'. process_snapshot_delete_old_files c (Inr ns) s = (process_snapshot_success, s')
    \<and> node_at (files s') = (\<lambda>p. if \<exists>n \<in> set ns. is_raw_file n \<and> p = log_at (files s) (config_get_output_dir c) n
        then None else node_at (files s) p)"
  using delete_entries_removes [OF assms] by (auto simp: process_snapshot_delete_old_files_def)

section \<open>A log that cannot be opened\<close>

text \<open>A log file that cannot be opened goes unnoticed when the JSON lines file can be. With both
  enabled, \<^verbatim>\<open>process_snapshot_initialize\<close> overwrites the error status of the log with the success of
  the other file: it reports success, and the run goes on without a log.\<close>

theorem initialize_masks_log_failure:
  assumes "config_get_raw_log_enabled c" and "config_get_raw_jsonl_enabled c"
    and "acquire_lock Lock_Granted (output_path c CONFIG_LOCK_FILE)
      (s\<lparr>proc_open := True, page_size_kb := initialize_page_size_kb page_size (page_size_kb s)\<rparr>) = (process_snapshot_success, s2)"
    and "open_write False (files s2) (output_path c CONFIG_LOG_FILE) = (None, fs)"
    and "open_write False fs (output_path c CONFIG_JSON_FILE) = (Some p, fs')"
  shows "\<exists>s'. process_snapshot_initialize c True page_size Lock_Granted s = (process_snapshot_success, s')
    \<and> pfOutputFile s' = None \<and> pfOutputJsonlFile s' = Some p"
  using assms by (simp add: process_snapshot_initialize_def Let_def open_raw_log_def open_raw_jsonl_def)

section \<open>Concrete runs\<close>

theorem delete_old_files_removes_witness:
  "\<exists>s'. process_snapshot_delete_old_files demo_config (Inr [''.'', ''ptime.log'', ''x'', ''ptime.jsonl'']) demo_snapshot_state
      = (process_snapshot_success, s')
    \<and> node_at (files s') [''o'', ''ptime.log''] = None \<and> node_at (files s') [''o'', ''x''] = Some (File ''third'')"
proof -
  have names: "config_get_output_dir demo_config = ''/o''" "log_at (files demo_snapshot_state) ''/o'' n = [''o'', n]" for n
    by (simp_all add: config_get_output_dir_def demo_config_def demo_snapshot_state_def demo_names)
  have raw: "is_raw_file ''ptime.log''" "is_raw_file ''ptime.jsonl''" "\<not> is_raw_file ''x''" "\<not> is_raw_file ''.''"
    by (simp_all add: is_raw_file_def CONFIG_LOG_FILE_def CONFIG_JSON_FILE_def)
  have "deletable demo_config (files demo_snapshot_state) [''.'', ''ptime.log'', ''x'', ''ptime.jsonl'']"
    by (simp add: deletable_def names raw log_name_def) (simp add: demo_snapshot_state_def demo_disk_def)
  moreover have "node_at (files demo_snapshot_state) [''o'', ''x''] = Some (File ''third'')"
    by (simp add: demo_snapshot_state_def demo_disk_def)
  ultimately show ?thesis using delete_old_files_removes [of demo_config demo_snapshot_state] by (fastforce simp: names raw)
qed

definition demo_locked_log :: snapshot_state where
  "demo_locked_log = demo_snapshot_state\<lparr>files := (demo_disk ''a'' ''b'' ''x'')\<lparr>refuses :=
     (\<lambda>call. call = Open_Write [''o'', ''ptime.log''])\<rparr>, pfOutputFile := None, pfOutputJsonlFile := None\<rparr>"

theorem initialize_masks_log_failure_witness:
  "\<exists>s'. process_snapshot_initialize demo_config True 4096 Lock_Granted demo_locked_log = (process_snapshot_success, s')
    \<and> pfOutputFile s' = None \<and> pfOutputJsonlFile s' = Some [''o'', ''ptime.jsonl'']"
proof -
  have enabled: "config_get_raw_log_enabled demo_config" "config_get_raw_jsonl_enabled demo_config"
    by (simp_all add: config_get_raw_log_enabled_def config_get_raw_jsonl_enabled_def demo_config_def config_default_def)
  have paths: "output_path demo_config CONFIG_LOCK_FILE = ''/o/ptime.lock''" "output_path demo_config CONFIG_LOG_FILE = ''/o/ptime.log''"
      "output_path demo_config CONFIG_JSON_FILE = ''/o/ptime.jsonl''"
    by (simp_all add: output_path_def demo_config_def config_get_output_dir_def PATH_MAX_def CONFIG_LOCK_FILE_def
        CONFIG_LOG_FILE_def CONFIG_JSON_FILE_def)
  show ?thesis
    using initialize_masks_log_failure [OF enabled, where s = demo_locked_log and page_size = 4096]
    by (simp add: paths acquire_lock_def open_write_def demo_locked_log_def demo_snapshot_state_def demo_disk_def resolve_def
        absolute_def components_def parent_ok_def is_dir_def Let_def)
qed

end
