(* ===== verification/Worker_Shutdown.thy ===== *)
theory Worker_Shutdown
  imports Compression_Worker
begin

text \<open>
  The calls \<^verbatim>\<open>compression_worker_init\<close> and \<^verbatim>\<open>compression_worker_shutdown\<close> as the main program sees them:
  between two of its own steps the worker finishes some jobs, and shutdown returns when the queue has
  been worked off. Every schedule of the two threads gives the result of this sequential account.
\<close>

section \<open>One job after the other\<close>

type_synonym worker_view = "compression_worker \<times> file_system \<times> string"

definition worker_turn :: "zlib \<Rightarrow> worker_view \<Rightarrow> worker_view" where
  "worker_turn z v =
     (case v of (w, fs, err) \<Rightarrow>
        (case take_job w of
           (None, w1) \<Rightarrow> (w1, fs, err)
         | (Some a, w1) \<Rightarrow> (case process_job z fs (path_of w1 a) of (fs1, msg) \<Rightarrow> (free_job a w1, fs1, err @ msg))))"

text \<open>The worker's loop once no more jobs can come; on a cyclic list it would never end.\<close>

partial_function (option) drain :: "zlib \<Rightarrow> worker_view \<Rightarrow> worker_view option" where
  [code]: "drain z v = (if job_head (fst v) = None then Some v else drain z (worker_turn z v))"

definition compression_worker_init :: "config_t \<Rightarrow> compression_worker \<Rightarrow> compression_worker" where
  "compression_worker_init c w = (if config_get_compression_enabled c then w\<lparr>worker_running := True\<rparr> else w)"

text \<open>The stop flag, the join (the worker drains the queue), and the clean-up of what is left.\<close>

definition compression_worker_shutdown :: "config_t \<Rightarrow> zlib \<Rightarrow> worker_view \<Rightarrow> worker_view option" where
  "compression_worker_shutdown c z v =
     (if config_get_compression_enabled c
      then case v of (w, fs, err) \<Rightarrow>
        (case drain z (w\<lparr>worker_running := False\<rparr>, fs, err) of
           None \<Rightarrow> None
         | Some (w1, fs1, err1) \<Rightarrow> map_option (\<lambda>w2. (w2, fs1, err1)) (discard_jobs w1))
      else Some v)"

section \<open>What shutdown leaves\<close>

fun run_jobs :: "zlib \<Rightarrow> file_system \<Rightarrow> string list \<Rightarrow> file_system \<times> string" where
  "run_jobs z fs [] = (fs, [])"
| "run_jobs z fs (p # ps) =
     (case process_job z fs p of (fs1, m1) \<Rightarrow> (case run_jobs z fs1 ps of (fs2, m2) \<Rightarrow> (fs2, m1 @ m2)))"

lemma worker_turn_Cons:
  assumes "queue_cells w (a # q)"
  shows "worker_turn z (w, fs, err) = (free_job a (snd (take_job w)), fst (process_job z fs (path_of w a)),
      err @ snd (process_job z fs (path_of w a)))"
    and "queue_cells (free_job a (snd (take_job w))) q"
proof -
  note t = take_job_Cons [OF assms]
  obtain w1 where w1: "take_job w = (Some a, w1)" using t by (cases "take_job w") auto
  have "path_of w1 a = path_of w a" using path_of_take [of w a] w1 by simp
  then show "worker_turn z (w, fs, err) = (free_job a (snd (take_job w)), fst (process_job z fs (path_of w a)),
      err @ snd (process_job z fs (path_of w a)))"
    by (simp add: worker_turn_def w1 split: prod.split)
  have "a \<notin> set q" using assms by (simp add: queue_cells_def)
  with t show "queue_cells (free_job a (snd (take_job w))) q" by (simp add: free_job_cells)
qed

definition emptied :: "nat list \<Rightarrow> compression_worker \<Rightarrow> compression_worker" where
  "emptied q w = w\<lparr>jobs := (\<lambda>a. if a \<in> set q then None else jobs w a), job_head := None, job_tail := None\<rparr>"

lemma emptied_fields:
  "emptied q w = \<lparr>jobs = (\<lambda>a. if a \<in> set q then None else jobs w a), job_head = None, job_tail = None,
     worker_running = worker_running w\<rparr>"
  by (cases w) (auto simp: emptied_def)

lemma emptied_Nil: "queue_cells w [] \<Longrightarrow> emptied [] w = w"
  by (cases w) (simp add: emptied_def queue_cells_def)

lemma emptied_Cons: "emptied q (free_job a (snd (take_job w))) = emptied (a # q) w"
  by (auto simp: emptied_fields free_job_def)

lemma drain_processes:
  assumes "queue_cells w q"
  shows "drain z (w, fs, err) = Some (emptied q w, fst (run_jobs z fs (map (path_of w) q)),
     err @ snd (run_jobs z fs (map (path_of w) q)))"
  using assms
proof (induction q arbitrary: w fs err)
  case Nil
  then show ?case using queue_cells_head [OF Nil] by (simp add: drain.simps emptied_Nil)
next
  case (Cons a q)
  note t = worker_turn_Cons [OF Cons.prems]
  let ?w = "free_job a (snd (take_job w))"
  have a: "a \<notin> set q" using Cons.prems by (simp add: queue_cells_def)
  then have paths: "map (path_of ?w) q = map (path_of w) q" by (auto simp: path_of_free)
  have "drain z (w, fs, err) = drain z (worker_turn z (w, fs, err))"
    using queue_cells_head [OF Cons.prems] by (auto simp: drain.simps [of z "(w, fs, err)"])
  then show ?case
    unfolding t(1) Cons.IH [OF t(2)] paths emptied_Cons by (simp split: prod.split)
qed

lemma shutdown_cells:
  assumes "config_get_compression_enabled c" and "queue_cells w q"
  shows "compression_worker_shutdown c z (w, fs, err) =
    Some (emptied q (w\<lparr>worker_running := False\<rparr>), fst (run_jobs z fs (map (path_of w) q)),
      err @ snd (run_jobs z fs (map (path_of w) q)))"
proof -
  let ?w = "w\<lparr>worker_running := False\<rparr>"
  have cells: "queue_cells ?w q" using assms(2) by (simp add: queue_cells_def)
  have paths: "path_of ?w = path_of w" by (simp add: path_of_def fun_eq_iff)
  have none: "queue_cells (emptied q ?w) []" by (simp add: emptied_def queue_cells_def)
  have "discard_jobs (emptied q ?w) = Some (emptied q ?w)"
    unfolding discard_jobs_cells [OF none] by (simp add: emptied_def)
  then show ?thesis
    unfolding compression_worker_shutdown_def using drain_processes [OF cells, of z fs err] assms(1) by (simp add: paths)
qed

text \<open>Shutting the worker down terminates and leaves nothing undone: on a well-formed queue the call
  returns, every file in the queue has been processed, in the order in which they were handed over, the
  cells of the queue are free and it is empty.\<close>

theorem shutdown_processes_queue:
  assumes "config_get_compression_enabled c" and "queue_cells w q"
  shows "compression_worker_shutdown c z (w, fs, err) =
    Some (emptied q (w\<lparr>worker_running := False\<rparr>), fst (run_jobs z fs (map (path_of w) q)),
      err @ snd (run_jobs z fs (map (path_of w) q)))"
  using assms by (rule shutdown_cells)

section \<open>Every schedule gives this result\<close>

text \<open>The worker's view once the job in its hands is done.\<close>

definition settled :: "zlib \<Rightarrow> compression_system \<Rightarrow> worker_view" where
  "settled z s =
     (case wpc s of
        W_Job a \<Rightarrow> (case process_job z (disk s) (path_of (worker s) a) of
            (fs, msg) \<Rightarrow> (free_job a (worker s), fs, err_log s @ msg))
      | _ \<Rightarrow> (worker s, disk s, err_log s))"

lemma settled_worker_step:
  assumes "worker_act z x s = Some s'" and "stopping s" and "system_inv s"
  shows "drain z (settled z s') = drain z (settled z s)"
proof (cases x)
  case Test
  then have pc: "wpc s = W_Test" using assms(1) by (simp split: if_splits)
  show ?thesis
  proof (cases "job_head (worker s) = None")
    case True
    then show ?thesis using assms(1) Test pc by (auto simp: settled_def split: if_splits)
  next
    case False
    obtain a w where t: "take_job (worker s) = (Some a, w)"
      using False by (auto simp: take_job_def Let_def split: option.split)
    have s': "s' = s\<lparr>worker := w, job_mutex := None, wpc := W_Job a\<rparr>"
      using assms(1) Test pc False t by simp
    have "drain z (settled z s) = drain z (worker_turn z (worker s, disk s, err_log s))"
      using False pc by (auto simp: settled_def drain.simps [of z "(worker s, disk s, err_log s)"])
    also have "worker_turn z (worker s, disk s, err_log s) = settled z s'"
      by (simp add: worker_turn_def t s' settled_def)
    finally show ?thesis by simp
  qed
qed (use assms(1) in \<open>auto simp: settled_def Let_def split: if_splits worker_pc.splits prod.splits\<close>)

lemma settled_caller_step:
  assumes "caller_act c x s = Some s'" and "stopping s" and "system_inv s"
  shows "\<exists>w. discard_jobs w = Some (worker s') \<and> drain z (settled z s) = Some (w, disk s', err_log s') \<and> cpc s' = C_Done"
proof -
  have x: "x = Join" "cpc s = C_Join" "wpc s = W_Exit"
    using assms(1,2) by (cases x; auto simp: stopping_def split: if_splits caller_pc.splits)+
  then obtain w where "discard_jobs (worker s) = Some w" and s': "s' = s\<lparr>worker := w, cpc := C_Done\<rparr>"
    using assms(1) by auto
  moreover have "job_head (worker s) = None"
    using assms(3) x(3) by (simp add: system_inv_def sleep_inv_def sleep_ok_def)
  ultimately show ?thesis using x(3) by (simp add: settled_def drain.simps)
qed

lemma done_stuck:
  assumes "cpc s = C_Done" and "system_inv s"
  shows "act c z a s = None"
proof -
  have pc: "wpc s = W_Exit" using assms by (simp add: system_inv_def sleep_inv_def sleep_ok_def)
  have "caller_act c x s = None" for x using assms(1) by (cases x) auto
  moreover have "worker_act z x s = None" for x using pc by (cases x) auto
  ultimately show ?thesis by (cases a) (simp_all add: act_def)
qed

lemma settled_run:
  assumes "run_actions c z as s = Some s'" and "system_inv s" and "cpc s = C_Join" and "cpc s' = C_Done"
  shows "\<exists>w. discard_jobs w = Some (worker s') \<and> drain z (settled z s) = Some (w, disk s', err_log s')"
  using assms
proof (induction as arbitrary: s)
  case (Cons a as)
  then obtain s1 where s1: "act c z a s = Some s1" "run_actions c z as s1 = Some s'"
    by (auto split: option.splits)
  have inv: "system_inv s1" using system_inv_step [OF s1(1) Cons.prems(2)] .
  have stop: "stopping s" using Cons.prems(3) by (simp add: stopping_def)
  show ?case
  proof (cases a)
    case (By_Worker x)
    then have step: "worker_act z x s = Some s1" using s1(1) by (simp add: act_def)
    then have "cpc s1 = C_Join" using Cons.prems(3)
      by (cases x) (auto simp: Let_def split: if_splits worker_pc.splits prod.splits option.splits)
    from Cons.IH [OF s1(2) inv this Cons.prems(4)] show ?thesis
      unfolding settled_worker_step [OF step stop Cons.prems(2)] .
  next
    case (By_Caller x)
    then have "caller_act c x s = Some s1" using s1(1) by (simp add: act_def)
    from settled_caller_step [OF this stop Cons.prems(2), of z] obtain w
      where w: "discard_jobs w = Some (worker s1)" "drain z (settled z s) = Some (w, disk s1, err_log s1)" "cpc s1 = C_Done"
      by blast
    have "as = []" using s1(2) done_stuck [OF w(3) inv] by (cases as) auto
    then show ?thesis using w s1(2) by simp
  qed
qed simp

text \<open>C19: Whatever the schedule of the two threads after the stop request, \<^verbatim>\<open>compression_worker_shutdown\<close>
  returns in one and the same state: that of the sequential account, in which the worker finishes the
  job in its hands and then the queued ones in order.\<close>

theorem shutdown_any_schedule:
  assumes "reachable c z fs s" and "cpc s = C_Join" and "config_get_compression_enabled c"
    and "run_actions c z as s = Some s'" and "cpc s' = C_Done"
  shows "compression_worker_shutdown c z (settled z s) = Some (worker s', disk s', err_log s')"
proof -
  have inv: "system_inv s" using assms(1) by (rule reachable_inv)
  obtain w where w: "discard_jobs w = Some (worker s')" "drain z (settled z s) = Some (w, disk s', err_log s')"
    using settled_run [OF assms(4) inv assms(2,5)] by blast
  have "\<not> worker_running (worker s)" using inv assms(2) by (auto simp: system_inv_def sleep_inv_def sleep_ok_def)
  then have "\<not> worker_running (fst (settled z s))"
    by (simp add: settled_def split: worker_pc.split prod.split)
  then have "(fst (settled z s))\<lparr>worker_running := False\<rparr> = fst (settled z s)" by simp
  then show ?thesis
    using w assms(3) by (cases "settled z s") (simp add: compression_worker_shutdown_def)
qed

section \<open>Concrete runs\<close>

theorem shutdown_processes_queue_witness:
  "\<exists>w fs err. compression_worker_shutdown compressing stored
      (link_job 0 (alloc_job 0 ''/o/p.log.1.9.0'' compression_worker_initial), rotated_fs, []) = Some (w, fs, err)
    \<and> jobs w 0 = None \<and> fs = fst (process_job stored rotated_fs ''/o/p.log.1.9.0'')"
proof -
  define w where "w = link_job 0 (alloc_job 0 ''/o/p.log.1.9.0'' compression_worker_initial)"
  have "queue_cells w [0]" "path_of w 0 = ''/o/p.log.1.9.0''"
    by (simp_all add: w_def link_job_def alloc_job_def new_job_def compression_worker_initial_def queue_cells_def path_of_def
        PATH_MAX_def)
  moreover have "config_get_compression_enabled compressing"
    by (simp add: config_get_compression_enabled_def compressing_def)
  ultimately show ?thesis
    using shutdown_processes_queue [of compressing w "[0]" stored rotated_fs "[]"]
    by (cases "process_job stored rotated_fs ''/o/p.log.1.9.0''") (simp add: w_def [symmetric] emptied_fields)
qed

theorem shutdown_any_schedule_witness:
  "compression_worker_shutdown compressing stored (settled stored (demo_system (demo_start @ demo_stop)))
    = Some (worker (demo_system (demo_start @ demo_stop @ demo_finish)), disk (demo_system (demo_start @ demo_stop @ demo_finish)),
        err_log (demo_system (demo_start @ demo_stop @ demo_finish)))"
  using shutdown_any_schedule [OF demo_reachable(1) demo_points(1) _ demo_runs(2) demo_points(6)]
  by (simp add: config_get_compression_enabled_def compressing_def)

end
