(* ===== verification/Process_Analyzer.thy ===== *)
theory Process_Analyzer
  imports Snapshot_Files Worker_Shutdown
begin

text \<open>
  The main program, \<^verbatim>\<open>src/code/process_analyzer.c\<close>: start-up, the timer loop with its bursts of
  snapshots, and the orderly end. What the system answers is in the environment records: signals arrive
  before the test of the flag, while the program waits for the timer or during a snapshot, and before
  every snapshot the worker thread has finished some number of jobs.
\<close>

section \<open>Timer and signals\<close>

record itimerspec =
  it_value :: "int \<times> int"
  it_interval :: "int \<times> int"

text \<open>The timer as armed (seconds, nanoseconds), or the message of the call that failed.\<close>

definition getTimeFd :: "bool \<Rightarrow> bool \<Rightarrow> u64 \<Rightarrow> string + itimerspec" where
  "getTimeFd create_ok settime_ok interval =
     (if \<not> create_ok then Inl (''getTimeFd: failed to create timer fd!'' @ nl)
      else let v = (uint (interval div 1000), uint ((interval mod 1000) * 1000000))
           in if \<not> settime_ok then Inl (''getTimeFd: timerfd_settime failed! '' @ nl)
              else Inr \<lparr>it_value = v, it_interval = v\<rparr>)"

record analyzer =
  gArguments :: ap_arguments
  g_stop_requested :: bool
  module :: snapshot_state

definition sigint_handler :: "analyzer \<Rightarrow> analyzer" where
  "sigint_handler a = a\<lparr>g_stop_requested := True\<rparr>"

definition signalled :: "bool \<Rightarrow> analyzer \<Rightarrow> analyzer" where
  "signalled sig a = (if sig then sigint_handler a else a)"

section \<open>The loop\<close>

text \<open>
  One snapshot: its environment, the uninitialised sample, the jobs finished before it, and whether a
  signal arrives while it is taken, which the handler only notes.
\<close>

record snapshot_turn =
  turn_env :: snapshot_env
  stack_sample :: process_state_input_t
  worker_jobs :: nat
  turn_signal :: bool

definition worker_runs :: "zlib \<Rightarrow> nat \<Rightarrow> snapshot_state \<Rightarrow> snapshot_state" where
  "worker_runs z n s =
     (case (worker_turn z ^^ n) (queue s, files s, err_out s) of
        (w, fs, err) \<Rightarrow> s\<lparr>queue := w, files := fs, err_out := err\<rparr>)"

definition run_snapshot_once :: "config_t \<Rightarrow> zlib \<Rightarrow> snapshot_turn \<Rightarrow> analyzer \<Rightarrow> c_fault + analyzer" where
  "run_snapshot_once c z t a =
     bind_fault (collect_snapshot c (turn_env t) (pid_whitelist (gArguments a)) (stack_sample t)
         (worker_runs z (worker_jobs t) (module a)))
       (\<lambda>s. Inr (signalled (turn_signal t) (a\<lparr>module := s\<rparr>)))"

text \<open>
  The inner loop \<^verbatim>\<open>while(expirations-- && noOfIterations < count)\<close>; \<open>turns k\<close> is the \<open>k\<close>th snapshot
  of the burst. It does not look at the flag the signal handler sets.
\<close>

fun burst ::
  "config_t \<Rightarrow> zlib \<Rightarrow> (nat \<Rightarrow> snapshot_turn) \<Rightarrow> int \<Rightarrow> nat \<Rightarrow> nat \<Rightarrow> analyzer \<Rightarrow> c_fault + analyzer" where
  "burst c z ts n k 0 a = Inr a"
| "burst c z ts n k (Suc expirations) a =
     (if n < count (gArguments a)
      then bind_fault (run_snapshot_once c z (ts k) a) (burst c z ts n (Suc k) expirations)
      else Inr a)"

text \<open>What \<^verbatim>\<open>read(tfd, ...)\<close> gives: the number of expirations, or a failure (was it \<^verbatim>\<open>EINTR\<close>?).\<close>

datatype timer_read = Expirations u64 | Read_Failed bool

record wake =
  signal_before :: bool
  signal_during :: bool
  answer :: timer_read
  turns :: "nat \<Rightarrow> snapshot_turn"

definition interrupted_text :: string where
  "interrupted_text = nl @ ''Program interrupted by user (CTRL+C) or terminated'' @ nl"

definition say :: "string \<Rightarrow> analyzer \<Rightarrow> analyzer" where
  "say t a = a\<lparr>module := (module a)\<lparr>console := console (module a) @ t\<rparr>\<rparr>"

definition complain :: "string \<Rightarrow> analyzer \<Rightarrow> analyzer" where
  "complain t a = a\<lparr>module := (module a)\<lparr>err_out := err_out (module a) @ t\<rparr>\<rparr>"

text \<open>
  The main loop over the answers of the timer; without a further answer it waits (\<open>None\<close>), unless a stop
  has been requested before.
\<close>

fun main_loop :: "config_t \<Rightarrow> zlib \<Rightarrow> wake list \<Rightarrow> int \<Rightarrow> analyzer \<Rightarrow> (c_fault + analyzer) option" where
  "main_loop c z [] n a =
     (if n < count (gArguments a)
      then if g_stop_requested a then Some (Inr (say interrupted_text a)) else None
      else Some (Inr a))"
| "main_loop c z (w # ws) n a =
     (if n < count (gArguments a)
      then let a1 = signalled (signal_before w) a
           in if g_stop_requested a1 then Some (Inr (say interrupted_text a1))
              else let a2 = signalled (signal_during w) a1
                   in case answer w of
                        Read_Failed eintr \<Rightarrow>
                          if eintr \<and> g_stop_requested a2 then Some (Inr (say interrupted_text a2))
                          else Some (Inr (complain ''failed to read expirations!'' a2))
                      | Expirations e \<Rightarrow>
                          (case burst c z (turns w) n 0 (unat e) a2 of
                             Inl f \<Rightarrow> Some (Inl f)
                           | Inr a3 \<Rightarrow> main_loop c z ws (n + 1) a3)
      else Some (Inr a))"

section \<open>The program\<close>

record main_env =
  config_path :: "string option"
  clock_ticks :: int
  cpu_count :: int
  memory :: ap_memory
  program :: string
  arguments :: "string list"
  old_files :: "errno + string list"
  proc_opens :: bool
  page_bytes :: int
  lock_answer :: flock_answer
  timer_created :: bool
  timer_set :: bool
  wakes :: "wake list"
  compressor :: zlib
  log_closes :: bool
  json_closes :: bool
  proc_closes :: bool
  reporting :: report_env

definition snapshot_state_initial :: "file_system \<Rightarrow> snapshot_state" where
  "snapshot_state_initial fs = \<lparr>files = fs, queue = compression_worker_initial, rotation_counter = 0, err_out = [],
     pfOutputFile = None, pfOutputJsonlFile = None, lock_fd = None, proc_open = False, page_size_kb = 0,
     stats = process_stats_initial, console = []\<rparr>"

definition analyzer_initial :: "file_system \<Rightarrow> analyzer" where
  "analyzer_initial fs = \<lparr>gArguments = zero_arguments, g_stop_requested = False, module = snapshot_state_initial fs\<rparr>"

text \<open>Leaving with a status after \<^verbatim>\<open>ap_free_arguments\<close>.\<close>

definition leave :: "int \<Rightarrow> analyzer \<Rightarrow> (c_fault + int \<times> analyzer) option" where
  "leave r a = Some (Inr (r, a\<lparr>gArguments := ap_free_arguments (gArguments a)\<rparr>))"

text \<open>\<^verbatim>\<open>process_snapshot_deinit\<close> and \<^verbatim>\<open>compression_worker_shutdown\<close>, in this order.\<close>

definition stop_modules :: "config_t \<Rightarrow> main_env \<Rightarrow> analyzer \<Rightarrow> analyzer option" where
  "stop_modules c e a =
     (let s = process_snapshot_deinit (log_closes e) (json_closes e) (proc_closes e) (module a)
      in map_option (\<lambda>(w, fs, err). a\<lparr>module := s\<lparr>queue := w, files := fs, err_out := err\<rparr>\<rparr>)
           (compression_worker_shutdown c (compressor e) (queue s, files s, err_out s)))"

definition print_report :: "config_t \<Rightarrow> report_env \<Rightarrow> analyzer \<Rightarrow> c_fault + analyzer" where
  "print_report c env a =
     (let s = module a; g = gArguments a
      in bind_fault (process_stats_print_metrics c env (end_metrics_args g) (interval_ms g)
             \<lparr>r_stats = stats s, r_files = files s, r_console = console s\<rparr>)
           (\<lambda>r. Inr (a\<lparr>module := s\<lparr>stats := r_stats r, files := r_files r, console := r_console r\<rparr>\<rparr>)))"

definition finish_run :: "config_t \<Rightarrow> main_env \<Rightarrow> analyzer \<Rightarrow> (c_fault + int \<times> analyzer) option" where
  "finish_run c e a =
     (case stop_modules c e a of
        None \<Rightarrow> None
      | Some a1 \<Rightarrow> (case print_report c (reporting e) a1 of Inl f \<Rightarrow> Some (Inl f) | Inr a2 \<Rightarrow> leave 0 a2))"

definition run_timer :: "config_t \<Rightarrow> main_env \<Rightarrow> analyzer \<Rightarrow> (c_fault + int \<times> analyzer) option" where
  "run_timer c e a =
     (case getTimeFd (timer_created e) (timer_set e) (interval_ms (gArguments a)) of
        Inl msg \<Rightarrow> (case stop_modules c e (complain msg a) of None \<Rightarrow> None | Some a1 \<Rightarrow> leave (-1) a1)
      | Inr _ \<Rightarrow>
          (case main_loop c (compressor e) (wakes e) 0 a of
             None \<Rightarrow> None
           | Some (Inl f) \<Rightarrow> Some (Inl f)
           | Some (Inr a1) \<Rightarrow> finish_run c e a1))"

definition start_modules :: "config_t \<Rightarrow> main_env \<Rightarrow> analyzer \<Rightarrow> (c_fault + int \<times> analyzer) option" where
  "start_modules c e a =
     (let (deleted, s1) = (if delete_old_files (gArguments a)
            then process_snapshot_delete_old_files c (old_files e) (module a)
            else (process_snapshot_success, module a))
      in if deleted \<noteq> process_snapshot_success then leave (-1) (a\<lparr>module := s1\<rparr>)
         else case process_snapshot_initialize c (proc_opens e) (page_bytes e) (lock_answer e) s1 of
             (process_snapshot_success, s2) \<Rightarrow>
               run_timer c e (a\<lparr>module := s2\<lparr>queue := compression_worker_init c (queue s2)\<rparr>\<rparr>)
           | (_, s2) \<Rightarrow> leave (-1) (a\<lparr>module := s2\<rparr>))"

definition main :: "main_env \<Rightarrow> file_system \<Rightarrow> (c_fault + int \<times> analyzer) option" where
  "main e fs =
     (case config_init fs (config_path e) configuration_zero of
        Inl f \<Rightarrow> Some (Inl f)
      | Inr (st, c, fs1) \<Rightarrow>
          (let a = analyzer_initial fs1
           in if st \<noteq> config_success then leave (-1) a
              else case ap_parse_args c (clock_ticks e) (cpu_count e) (memory e) (program e) (arguments e)
                     (gArguments a) (stats (module a)) of
                (parsed, g, st1, msg) \<Rightarrow>
                  (let a1 = complain (snd msg) (say (fst msg) (a\<lparr>gArguments := g, module := (module a)\<lparr>stats := st1\<rparr>\<rparr>))
                   in if parsed \<noteq> parse_args_ok then leave (-1) a1
                      else start_modules c e (say (config_print_banner c) a1))))"

end
