(* ===== verification/Analyzer_Loop.thy ===== *)
theory Analyzer_Loop
  imports Process_Analyzer
begin

text \<open>
  The timer loop: which snapshots it takes, that it ends after as many waits as the count says, and that
  a stop request ends it before the next wait, after the snapshots of the burst that is being worked off.
\<close>

section \<open>What a snapshot leaves alone\<close>

lemma read_stat_kb:
  assumes "read_proc_stat pr ps g p d = Inr (ok, kb, x)" and "0 < g"
  shows "kb = g"
proof -
  have "initialize_page_size_kb ps g = g" using assms(2) by (simp add: initialize_page_size_kb_def)
  then show ?thesis using assms(1)
    by (auto simp: read_proc_stat_def parse_stat_def Let_def split: option.splits prod.splits sum.splits if_splits)
qed

lemma snapshot_entry_keeps:
  assumes "snapshot_entry c env w de (d, s) = Inr (d', s')" and "0 < page_size_kb s"
  shows "page_size_kb s' = page_size_kb s \<and> proc_open s' = proc_open s"
  using assms read_stat_kb [OF _ assms(2)]
  by (cases de) (auto simp: snapshot_entry_def Let_def bind_fault_def split: if_splits sum.splits)

lemma snapshot_entries_keep:
  "snapshot_entries c env w des (d, s) = Inr (d', s') \<Longrightarrow> 0 < page_size_kb s
   \<Longrightarrow> page_size_kb s' = page_size_kb s \<and> proc_open s' = proc_open s"
proof (induction des arbitrary: d s)
  case (Cons de des)
  then obtain d1 s1 where "snapshot_entry c env w de (d, s) = Inr (d1, s1)" and rest: "snapshot_entries c env w des (d1, s1) = Inr (d', s')"
    by (auto simp: bind_fault_def split: sum.splits)
  from snapshot_entry_keeps [OF this(1) Cons.prems(2)] Cons.IH [OF rest] Cons.prems(2) show ?case by simp
qed simp

lemma collect_snapshot_keeps:
  assumes "collect_snapshot c env w d0 s = Inr s'" and "0 < page_size_kb s"
  shows "page_size_kb s' = page_size_kb s" and "proc_open s' = proc_open s"
proof -
  define s1 where "s1 = handle_rotations c env s"
  have s1: "page_size_kb s1 = page_size_kb s" "proc_open s1 = proc_open s"
    using handle_rotations_beyond [of c env s] by (simp_all add: s1_def beyond_rotation_def)
  define s3 where "s3 = log_data c (pfOutputFile s1) start_text
        (log_data c (pfOutputFile s1) (stamp_prefix (hr_timestamp (clock env))) s1)"
  obtain d4 s4 where "snapshot_entries c env w (proc_entries (proc env)) (stamped (clock env) d0, s3) = Inr (d4, s4)"
      and s': "page_size_kb s' = page_size_kb s4" "proc_open s' = proc_open s4"
    using assms(1) unfolding collect_snapshot_def
    by (auto simp: Let_def print_timestamp_def s1_def [symmetric] s3_def [symmetric] stamped_def [symmetric] bind_fault_def
        split: if_splits sum.splits prod.splits)
  from snapshot_entries_keep [OF this(1)] assms(2) s1 s' show "page_size_kb s' = page_size_kb s" "proc_open s' = proc_open s"
    by (simp_all add: s3_def)
qed

lemma worker_runs_keeps [simp]:
  "stats (worker_runs z n s) = stats s" "page_size_kb (worker_runs z n s) = page_size_kb s"
  "proc_open (worker_runs z n s) = proc_open s"
  by (simp_all add: worker_runs_def split: prod.split)

lemma signalled_keeps [simp]: "module (signalled b a) = module a" "gArguments (signalled b a) = gArguments a"
  by (simp_all add: signalled_def sigint_handler_def)

section \<open>Bursts\<close>

text \<open>One snapshot as the statistics see it: its samples, then the end of the snapshot.\<close>

definition turn_samples :: "config_t \<Rightarrow> ap_pid_whitelist \<Rightarrow> int \<Rightarrow> snapshot_turn \<Rightarrow> process_state_input_t list" where
  "turn_samples c w g t = snapshot_samples c (turn_env t) w g (stamped (clock (turn_env t)) (stack_sample t))"

definition feed_snapshot ::
  "config_t \<Rightarrow> ap_pid_whitelist \<Rightarrow> int \<Rightarrow> snapshot_turn \<Rightarrow> process_stats \<Rightarrow> process_stats" where
  "feed_snapshot c w g t st = process_stats_snapshot_end
     (fold (\<lambda>x. process_stats_update (record_alloc (turn_env t) (i_pid x)) x) (turn_samples c w g t) st)"

definition turn_safe :: "snapshot_turn \<Rightarrow> bool" where
  "turn_safe t = proc_safe (proc (turn_env t))"

text \<open>The module is ready for snapshots.\<close>

definition running :: "analyzer \<Rightarrow> bool" where
  "running a = (proc_open (module a) \<and> 0 < page_size_kb (module a))"

text \<open>What the loop leaves alone, and where it has got to in the statistics.\<close>

definition same_run :: "config_t \<Rightarrow> analyzer \<Rightarrow> snapshot_turn list \<Rightarrow> analyzer \<Rightarrow> bool" where
  "same_run c a ts a' = (running a' \<and> gArguments a' = gArguments a
     \<and> g_stop_requested a' = (g_stop_requested a \<or> list_ex turn_signal ts)
     \<and> page_size_kb (module a') = page_size_kb (module a)
     \<and> stats (module a') = fold (feed_snapshot c (pid_whitelist (gArguments a)) (page_size_kb (module a))) ts (stats (module a)))"

lemma same_run_trans: "same_run c a ts a' \<Longrightarrow> same_run c a' us a'' \<Longrightarrow> same_run c a (ts @ us) a''"
  by (simp add: same_run_def)

lemma run_snapshot_once_runs:
  assumes "running a" and "turn_safe t"
  shows "\<exists>a'. run_snapshot_once c z t a = Inr a' \<and> same_run c a [t] a'"
proof -
  let ?s = "worker_runs z (worker_jobs t) (module a)"
  have "proc_open ?s" "proc_safe (proc (turn_env t))" using assms by (simp_all add: running_def turn_safe_def)
  from collect_snapshot_returns [OF this] obtain s' where
      s': "collect_snapshot c (turn_env t) (pid_whitelist (gArguments a)) (stack_sample t) ?s = Inr s'" by blast
  have "0 < page_size_kb ?s" using assms(1) by (simp add: running_def)
  note keeps = collect_snapshot_keeps [OF s' this]
  show ?thesis
    using collect_snapshot_stats [OF s', of "stack_sample t"] keeps assms(1)
    by (simp add: run_snapshot_once_def s' bind_fault_def same_run_def running_def feed_snapshot_def turn_samples_def
        signalled_def sigint_handler_def)
qed

lemma burst_runs:
  assumes "running a" and "\<forall>i. turn_safe (ts i)" and "n < count (gArguments a)"
  shows "\<exists>a'. burst c z ts n k e a = Inr a' \<and> same_run c a (map ts [k..<k + e]) a'"
  using assms(1,3)
proof (induction e arbitrary: a k)
  case 0
  then show ?case by (simp add: same_run_def)
next
  case (Suc e)
  obtain a1 where a1: "run_snapshot_once c z (ts k) a = Inr a1" "same_run c a [ts k] a1"
    using run_snapshot_once_runs [OF Suc.prems(1)] assms(2) by blast
  then have "running a1" "n < count (gArguments a1)" using Suc.prems(2) by (simp_all add: same_run_def)
  from Suc.IH [OF this, of "Suc k"] obtain a' where
      a': "burst c z ts n (Suc k) e a1 = Inr a'" "same_run c a1 (map ts [Suc k..<Suc k + e]) a'" by blast
  have "map ts [k..<k + Suc e] = [ts k] @ map ts [Suc k..<Suc k + e]" by (simp add: upt_conv_Cons del: upt_Suc)
  with same_run_trans [OF a1(2) a'(2)] a'(1) a1(1) Suc.prems(2) show ?case by (simp add: bind_fault_def)
qed

section \<open>The loop\<close>

definition expirations :: "wake \<Rightarrow> nat" where
  "expirations w = (case answer w of Expirations e \<Rightarrow> unat e | Read_Failed _ \<Rightarrow> 0)"

definition wake_turns :: "wake \<Rightarrow> snapshot_turn list" where
  "wake_turns w = map (turns w) [0..<expirations w]"

text \<open>A wait that ends with expirations, and no signal before, during or after it.\<close>

definition quiet :: "wake \<Rightarrow> bool" where
  "quiet w = (\<not> signal_before w \<and> \<not> signal_during w \<and> \<not> list_ex turn_signal (wake_turns w)
     \<and> (case answer w of Expirations _ \<Rightarrow> True | Read_Failed _ \<Rightarrow> False))"

definition wake_safe :: "wake \<Rightarrow> bool" where
  "wake_safe w = (\<forall>i. turn_safe (turns w i))"

lemma main_loop_quiet:
  assumes "list_all quiet ws" and "list_all wake_safe ws" and "running a" and "\<not> g_stop_requested a"
    and "n + int (length ws) \<le> count (gArguments a)"
  shows "\<exists>a'. (\<forall>rest. main_loop c z (ws @ rest) n a = main_loop c z rest (n + int (length ws)) a')
    \<and> same_run c a (concat (map wake_turns ws)) a' \<and> \<not> g_stop_requested a'"
  using assms
proof (induction ws arbitrary: n a)
  case Nil
  then show ?case by (auto simp: same_run_def)
next
  case (Cons w ws)
  then obtain e where e: "answer w = Expirations e" "\<not> signal_before w" "\<not> signal_during w"
    by (auto simp: quiet_def split: timer_read.splits)
  have n: "n < count (gArguments a)" using Cons.prems(5) by simp
  obtain a1 where a1: "burst c z (turns w) n 0 (unat e) a = Inr a1" "same_run c a (wake_turns w) a1"
    using burst_runs [OF Cons.prems(3) _ n, of "turns w" c z 0 "unat e"] Cons.prems(2)
    by (auto simp: wake_turns_def expirations_def e wake_safe_def)
  then have "running a1" "\<not> g_stop_requested a1" "gArguments a1 = gArguments a"
    using Cons.prems(1,4) by (simp_all add: same_run_def quiet_def)
  with Cons.IH [of a1 "n + 1"] Cons.prems obtain a' where
      a': "\<And>rest. main_loop c z (ws @ rest) (n + 1) a1 = main_loop c z rest (n + 1 + int (length ws)) a'"
        "same_run c a1 (concat (map wake_turns ws)) a'" "\<not> g_stop_requested a'" by auto
  from same_run_trans [OF a1(2) a'(2)] a'(1,3) a1(1) e n Cons.prems(4) show ?case
    by (intro exI [of _ a']) (simp add: signalled_def algebra_simps)
qed

lemma update_counts [simp]:
  "g_number_of_snapshots (process_stats_update ok i st) = g_number_of_snapshots st"
  "is_module_initialized (process_stats_update ok i st) = is_module_initialized st"
  by (simp_all add: process_stats_update_def Let_def split: prod.split option.split)

lemma fold_update_counts:
  "g_number_of_snapshots (fold (\<lambda>x. process_stats_update (ok x) x) xs st) = g_number_of_snapshots st"
  "is_module_initialized (fold (\<lambda>x. process_stats_update (ok x) x) xs st) = is_module_initialized st"
  by (induction xs arbitrary: st) simp_all

lemma feed_counts:
  "is_module_initialized (feed_snapshot c w g t st) = is_module_initialized st"
  "is_module_initialized st \<Longrightarrow> g_number_of_snapshots (feed_snapshot c w g t st) = g_number_of_snapshots st + 1"
  by (simp_all add: feed_snapshot_def process_stats_snapshot_end_def fold_update_counts)

lemma fold_feed_counts:
  "is_module_initialized st \<Longrightarrow>
     g_number_of_snapshots (fold (feed_snapshot c w g) ts st) = g_number_of_snapshots st + of_nat (length ts)"
  by (induction ts arbitrary: st) (simp_all add: feed_counts)

lemma length_wake_turns: "length (concat (map wake_turns ws)) = sum_list (map expirations ws)"
  by (induction ws) (simp_all add: wake_turns_def)

text \<open>C18: The timer loop, undisturbed, waits for the timer as many times as the count says and then ends.
  It takes one snapshot for every expiration reported, in order, each feeding its samples into the
  statistics, whatever the worker does to the disk in between. The number of snapshots is therefore the
  sum of the expirations: the count when no expiration is missed, and more than that when the program
  was late, since the count is not tested against the snapshots of a burst.\<close>

theorem loop_takes_snapshots:
  assumes "list_all quiet ws" and "list_all wake_safe ws" and "running a" and "\<not> g_stop_requested a"
    and "int (length ws) = count (gArguments a)" and "ts = concat (map wake_turns ws)"
  shows "\<exists>a'. main_loop c z (ws @ rest) 0 a = Some (Inr a') \<and> gArguments a' = gArguments a
    \<and> stats (module a') = fold (feed_snapshot c (pid_whitelist (gArguments a)) (page_size_kb (module a))) ts (stats (module a))
    \<and> (is_module_initialized (stats (module a)) \<longrightarrow> g_number_of_snapshots (stats (module a')) =
          g_number_of_snapshots (stats (module a)) + of_nat (sum_list (map expirations ws)))"
proof -
  obtain a' where a': "main_loop c z (ws @ rest) 0 a = main_loop c z rest (int (length ws)) a'" "same_run c a ts a'"
    using main_loop_quiet [OF assms(1-4), of 0 c z] assms(5,6) by auto
  moreover have "main_loop c z rest (int (length ws)) a' = Some (Inr a')"
    using a'(2) assms(5) by (cases rest) (simp_all add: same_run_def)
  ultimately show ?thesis
    using length_wake_turns [of ws] by (auto simp: same_run_def fold_feed_counts assms(6))
qed

lemma signalled_stopped: "g_stop_requested a \<Longrightarrow> signalled b a = a"
  by (cases a) (simp add: signalled_def sigint_handler_def)

lemma main_loop_enough: "main_loop c z ws n a = Some r \<Longrightarrow> main_loop c z (ws @ rest) n a = Some r"
proof (induction ws arbitrary: n a)
  case Nil
  then show ?case by (cases rest) (auto simp: signalled_stopped split: if_splits)
next
  case (Cons w ws)
  then show ?case by (auto simp: Let_def split: if_splits timer_read.splits sum.splits)
qed

lemma loop_ends:
  assumes "list_all wake_safe ws" and "running a" and "count (gArguments a) \<le> int (length ws)"
  shows "\<exists>a'. main_loop c z ws 0 a = Some (Inr a') \<and> gArguments a' = gArguments a"
proof -
  have "\<exists>a'. main_loop c z ws n a = Some (Inr a') \<and> gArguments a' = gArguments a"
    if "count (gArguments a) \<le> n + int (length ws)" for n
    using assms(1,2) that
  proof (induction ws arbitrary: n a)
    case (Cons w ws)
    let ?a1 = "signalled (signal_before w) a"
    let ?a2 = "signalled (signal_during w) ?a1"
    have sig: "gArguments ?a1 = gArguments a" "gArguments ?a2 = gArguments a" "running ?a2"
      using Cons.prems(2) by (simp_all add: signalled_def sigint_handler_def running_def)
    show ?case
    proof (cases "n < count (gArguments a) \<and> \<not> g_stop_requested ?a1 \<and> (\<exists>e. answer w = Expirations e)")
      case True
      then obtain e where e: "answer w = Expirations e" by blast
      obtain a3 where a3: "burst c z (turns w) n 0 (unat e) ?a2 = Inr a3" "gArguments a3 = gArguments a" "running a3"
        using burst_runs [OF sig(3), of "turns w" n c z 0 "unat e"] Cons.prems(1) True sig
        by (auto simp: wake_safe_def same_run_def)
      then show ?thesis using True e Cons.IH [of a3 "n + 1"] Cons.prems by (simp add: Let_def)
    next
      case False
      then show ?thesis using sig
        by (auto simp: Let_def say_def complain_def split: timer_read.split)
    qed
  qed (simp add: signalled_def)
  then show ?thesis using assms(3) by simp
qed

text \<open>The loop always ends. With the processes readable, after at most as many waits as the count
  says, whatever signals arrive and whatever the timer answers, the loop is left without a fault, and
  it looks at no further answer of the timer.\<close>

theorem loop_returns:
  assumes "list_all wake_safe ws" and "running a" and "count (gArguments a) \<le> int (length ws)"
  shows "\<exists>a'. main_loop c z ws 0 a = Some (Inr a') \<and> gArguments a' = gArguments a
    \<and> main_loop c z (ws @ rest) 0 a = Some (Inr a')"
  using loop_ends [OF assms] main_loop_enough by blast

text \<open>
  A stop request that the loop gets to see at this wait: before it, during it (when the call is
  interrupted or still answers), or during one of the snapshots that follow.
\<close>

definition stop_request :: "wake \<Rightarrow> bool" where
  "stop_request w = (signal_before w \<or> signal_during w \<and> answer w \<noteq> Read_Failed False \<or> list_ex turn_signal (wake_turns w))"

lemma main_loop_stopped:
  "g_stop_requested a \<Longrightarrow> n < count (gArguments a) \<Longrightarrow> main_loop c z ws n a = Some (Inr (say interrupted_text a))"
  by (cases ws) (simp_all add: signalled_stopped)

lemma main_loop_done: "count (gArguments a) \<le> n \<Longrightarrow> main_loop c z ws n a = Some (Inr a)"
  by (cases ws) simp_all

lemma stop_in_burst:
  assumes "wake_safe w" and "running a" and "\<not> g_stop_requested a" and "n < count (gArguments a)"
    and "stop_request w" and "\<not> signal_before w" and "answer w = Expirations e"
  shows "\<exists>a'. (\<forall>rest. main_loop c z (w # rest) n a = main_loop c z rest (n + 1) a') \<and> g_stop_requested a'
    \<and> gArguments a' = gArguments a \<and> stats (module a') =
      fold (feed_snapshot c (pid_whitelist (gArguments a)) (page_size_kb (module a))) (wake_turns w) (stats (module a))"
proof -
  let ?a = "signalled (signal_during w) a"
  have keep: "running ?a" "gArguments ?a = gArguments a" "module ?a = module a" "g_stop_requested ?a = signal_during w"
    using assms(2,3) by (simp_all add: signalled_def sigint_handler_def running_def)
  obtain a' where a': "burst c z (turns w) n 0 (unat e) ?a = Inr a'" "same_run c ?a (wake_turns w) a'"
    using burst_runs [OF keep(1), of "turns w" n c z 0 "unat e"] assms(1,4,7) keep(2)
    by (auto simp: wake_turns_def expirations_def wake_safe_def)
  then have "main_loop c z (w # rest) n a = main_loop c z rest (n + 1) a'" for rest
    using assms(3,4,6,7) by (simp add: signalled_def Let_def)
  with a'(2) keep assms(5-7) show ?thesis by (auto simp: same_run_def stop_request_def)
qed

text \<open>C23: A stop request (an interrupt or a termination signal) ends the loop. Seen before a wait, or
  interrupting it, it ends the loop at once: the snapshots are those of the waits before. When it arrives
  while the wait still returns expirations, or in the middle of a burst, all the remaining snapshots of that
  burst are taken first, since the inner loop does not test the flag; then no further wait begins. The loop
  looks at no later answer of the timer, and it prints its message unless the count has been reached with
  that burst.\<close>

theorem loop_stops_on_signal:
  assumes "list_all quiet ws" and "list_all wake_safe ws" and "running a" and "\<not> g_stop_requested a"
    and "int (length ws) < count (gArguments a)" and "wake_safe w" and "stop_request w"
  shows "\<exists>a'. (\<forall>rest. main_loop c z (ws @ w # rest) 0 a = Some (Inr a')) \<and> g_stop_requested a'
    \<and> stats (module a') = fold (feed_snapshot c (pid_whitelist (gArguments a)) (page_size_kb (module a)))
        (concat (map wake_turns ws) @ (if signal_before w then [] else wake_turns w)) (stats (module a))
    \<and> (signal_before w \<or> answer w = Read_Failed True \<or> int (length ws) + 1 < count (gArguments a)
        \<longrightarrow> (\<exists>before. console (module a') = before @ interrupted_text))"
proof -
  let ?n = "int (length ws)"
  obtain b where b: "\<And>rest. main_loop c z (ws @ rest) 0 a = main_loop c z rest ?n b"
      "same_run c a (concat (map wake_turns ws)) b" "\<not> g_stop_requested b"
    using main_loop_quiet [OF assms(1-4), of 0 c z] assms(5) by auto
  have run: "running b" "?n < count (gArguments b)" "gArguments b = gArguments a" "page_size_kb (module b) = page_size_kb (module a)"
    using b(2) assms(5) by (simp_all add: same_run_def)
  consider "signal_before w" | "\<not> signal_before w" "answer w = Read_Failed True" "signal_during w"
    | e where "\<not> signal_before w" "answer w = Expirations e"
    using assms(7) by (cases "answer w") (auto simp: stop_request_def wake_turns_def expirations_def)
  then show ?thesis
  proof cases
    case 3
    obtain a' where a': "\<And>rest. main_loop c z (w # rest) ?n b = main_loop c z rest (?n + 1) a'" "g_stop_requested a'"
        "gArguments a' = gArguments a" "stats (module a') = fold (feed_snapshot c (pid_whitelist (gArguments a))
          (page_size_kb (module a))) (wake_turns w) (stats (module b))"
      using stop_in_burst [OF assms(6) run(1) b(3) run(2) assms(7) 3, of c z] run(3,4) by auto
    show ?thesis
    proof (cases "?n + 1 < count (gArguments a)")
      case True
      with a' b(1,2) 3 show ?thesis
        by (intro exI [of _ "say interrupted_text a'"]) (simp add: main_loop_stopped same_run_def say_def)
    next
      case False
      with a' b(1,2) 3 show ?thesis by (intro exI [of _ a']) (simp add: main_loop_done same_run_def)
    qed
  qed (use b run in \<open>auto simp: same_run_def signalled_def sigint_handler_def say_def Let_def wake_turns_def expirations_def\<close>)
qed

section \<open>The timer\<close>

text \<open>C39: The interval is programmed exactly: whole seconds and the rest in nanoseconds add up to it,
  the nanoseconds are in the range the system accepts, the period equals the first expiration, and the
  timer is disarmed only for an interval of 0.\<close>

theorem getTimeFd_interval:
  "\<exists>sec nsec. getTimeFd True True interval = Inr \<lparr>it_value = (sec, nsec), it_interval = (sec, nsec)\<rparr>
    \<and> 1000000000 * sec + nsec = 1000000 * uint interval \<and> 0 \<le> sec \<and> 0 \<le> nsec \<and> nsec < 1000000000
    \<and> ((sec, nsec) = (0, 0) \<longleftrightarrow> interval = 0)"
proof -
  have "uint interval mod 1000 < 1000" by simp
  then have small: "uint interval mod 1000 * 1000000 < 2 ^ 64" by simp
  have nsec: "uint ((interval mod 1000) * 1000000) = uint interval mod 1000 * 1000000"
    using small by (simp add: uint_mult_lem [THEN iffD1] uint_mod)
  have sec: "uint (interval div 1000) = uint interval div 1000" by (simp add: uint_div)
  have "1000 * (uint interval div 1000) + uint interval mod 1000 = uint interval" by simp
  then have sum: "1000000000 * (uint interval div 1000) + uint interval mod 1000 * 1000000 = 1000000 * uint interval"
    by linarith
  have zero: "interval = 0 \<longleftrightarrow> uint interval div 1000 = 0 \<and> uint interval mod 1000 * 1000000 = 0"
    using sum by (auto simp: word_uint_eq_iff)
  have "0 \<le> uint interval div 1000" by (simp add: pos_imp_zdiv_nonneg_iff)
  then show ?thesis
    unfolding getTimeFd_def Let_def nsec sec using sum zero by auto
qed

section \<open>Concrete runs\<close>

definition demo_turn :: snapshot_turn where
  "demo_turn = \<lparr>turn_env = demo_snapshot_env, stack_sample = undefined\<lparr>i_pid := 0\<rparr>, worker_jobs = 1, turn_signal = False\<rparr>"

definition demo_wake :: "bool \<Rightarrow> nat \<Rightarrow> wake" where
  "demo_wake sig e = \<lparr>signal_before = sig, signal_during = False, answer = Expirations (of_nat e), turns = (\<lambda>_. demo_turn)\<rparr>"

definition demo_analyzer :: analyzer where
  "demo_analyzer = \<lparr>gArguments = zero_arguments\<lparr>count := 2\<rparr>, g_stop_requested = False, module = demo_snapshot_state\<rparr>"

lemma demo_wakes: "wake_safe (demo_wake sig e)" "quiet (demo_wake False e)" "running demo_analyzer"
    "\<not> g_stop_requested demo_analyzer" "count (gArguments demo_analyzer) = 2" "stop_request (demo_wake True e)"
  by (simp_all add: wake_safe_def turn_safe_def demo_wake_def demo_turn_def demo_safe quiet_def running_def demo_analyzer_def
      stop_request_def wake_turns_def list_ex_iff)

lemma demo_initialized: "is_module_initialized (stats (module demo_analyzer))"
    "g_number_of_snapshots (stats (module demo_analyzer)) = 0"
  by (simp_all add: demo_analyzer_def demo_snapshot_state_def initialize_fields process_stats_initialize_def
      process_stats_initial_def Let_def)

theorem loop_takes_snapshots_witness:
  "\<exists>a'. main_loop demo_config stored [demo_wake False 1, demo_wake False 2] 0 demo_analyzer = Some (Inr a')
    \<and> g_number_of_snapshots (stats (module a')) = 3"
proof -
  let ?ws = "[demo_wake False 1, demo_wake False 2]"
  have ws: "list_all quiet ?ws" "list_all wake_safe ?ws" "int (length ?ws) = count (gArguments demo_analyzer)"
    by (simp_all add: demo_wakes)
  have "of_nat (sum_list (map expirations ?ws)) = (3 :: u64)" by (simp add: expirations_def demo_wake_def)
  then show ?thesis
    using loop_takes_snapshots [OF ws(1,2) demo_wakes(3,4) ws(3) refl, of demo_config stored "[]"] demo_initialized
    unfolding append_Nil2 by (metis add_0)
qed

theorem loop_returns_witness:
  "\<exists>a'. main_loop demo_config stored [demo_wake False 1, demo_wake True 2] 0 demo_analyzer = Some (Inr a')"
proof -
  let ?ws = "[demo_wake False 1, demo_wake True 2]"
  have ws: "list_all wake_safe ?ws" "count (gArguments demo_analyzer) \<le> int (length ?ws)"
    by (simp_all add: demo_wakes)
  show ?thesis using loop_returns [OF ws(1) demo_wakes(3) ws(2)] by blast
qed

text \<open>A signal in the middle of a burst of three snapshots: all three are taken, and then the loop is left.\<close>

theorem loop_stops_on_signal_witness:
  "\<exists>a'. main_loop demo_config stored [(demo_wake False 3)\<lparr>turns := (\<lambda>i. demo_turn\<lparr>turn_signal := (i = 0)\<rparr>)\<rparr>] 0 demo_analyzer
      = Some (Inr a')
    \<and> g_stop_requested a' \<and> g_number_of_snapshots (stats (module a')) = 3
    \<and> (\<exists>before. console (module a') = before @ interrupted_text)"
proof -
  let ?w = "(demo_wake False 3)\<lparr>turns := (\<lambda>i. demo_turn\<lparr>turn_signal := (i = 0)\<rparr>)\<rparr>"
  have w: "list_all quiet []" "list_all wake_safe []" "int (length ([] :: wake list)) < count (gArguments demo_analyzer)"
      "wake_safe ?w" "stop_request ?w" "\<not> signal_before ?w" "length (wake_turns ?w) = 3"
    using demo_wakes(1,5) by (simp_all add: wake_safe_def turn_safe_def stop_request_def wake_turns_def expirations_def demo_wake_def
        demo_turn_def list_ex_iff demo_safe)
  obtain a' where "main_loop demo_config stored [?w] 0 demo_analyzer = Some (Inr a')" "g_stop_requested a'"
      "stats (module a') = fold (feed_snapshot demo_config (pid_whitelist (gArguments demo_analyzer))
         (page_size_kb (module demo_analyzer))) (wake_turns ?w) (stats (module demo_analyzer))"
      "\<exists>before. console (module a') = before @ interrupted_text"
    using loop_stops_on_signal [OF w(1,2) demo_wakes(3,4) w(3,4,5), of demo_config stored] demo_wakes(5) w(6) by auto
  then show ?thesis using fold_feed_counts [OF demo_initialized(1)] demo_initialized(2) w(7) by auto
qed

end
