(* ===== verification/Analyzer_Run.thy ===== *)
theory Analyzer_Run
  imports Analyzer_Loop
begin

text \<open>
  A whole run: the samples of all its snapshots as one sequence, and the queue of the compression worker,
  which stays well formed through every snapshot, so that shutting the worker down ends.
\<close>

section \<open>All samples of a run\<close>

lemma update_number:
  "process_stats_update ok i (st\<lparr>g_number_of_snapshots := k\<rparr>) = (process_stats_update ok i st)\<lparr>g_number_of_snapshots := k\<rparr>"
  by (simp add: process_stats_update_def Let_def split: prod.split option.split)

lemma feed_number:
  "stats_feed is (st\<lparr>g_number_of_snapshots := k\<rparr>) = (stats_feed is st)\<lparr>g_number_of_snapshots := k\<rparr>"
  by (induction "is" arbitrary: st) (simp_all add: stats_feed_def update_number)

lemma feed_initialized [simp]: "is_module_initialized (stats_feed is st) = is_module_initialized st"
  by (induction "is" arbitrary: st) (simp_all add: stats_feed_def)

lemma feed_number_same [simp]: "g_number_of_snapshots (stats_feed is st) = g_number_of_snapshots st"
  by (induction "is" arbitrary: st) (simp_all add: stats_feed_def)

lemma fold_feed_snapshot:
  assumes "is_module_initialized st" and "list_all (\<lambda>t. \<forall>p. record_alloc (turn_env t) p) ts"
  shows "fold (feed_snapshot c w g) ts st =
    (stats_feed (concat (map (turn_samples c w g) ts)) st)\<lparr>g_number_of_snapshots := g_number_of_snapshots st + of_nat (length ts)\<rparr>"
  using assms
proof (induction ts arbitrary: st)
  case Nil
  then show ?case by (simp add: stats_feed_def)
next
  case (Cons t ts)
  let ?s1 = "stats_feed (turn_samples c w g t) st"
  have "(\<lambda>x. process_stats_update (record_alloc (turn_env t) (i_pid x)) x) = process_stats_update True"
    using Cons.prems(2) by auto
  then have one: "feed_snapshot c w g t st = ?s1\<lparr>g_number_of_snapshots := g_number_of_snapshots st + 1\<rparr>"
    using Cons.prems(1) by (simp add: feed_snapshot_def process_stats_snapshot_end_def stats_feed_def [symmetric])
  have "fold (feed_snapshot c w g) (t # ts) st = fold (feed_snapshot c w g) ts (feed_snapshot c w g t st)" by simp
  also have "\<dots> = (stats_feed (concat (map (turn_samples c w g) ts)) (feed_snapshot c w g t st))
      \<lparr>g_number_of_snapshots := g_number_of_snapshots (feed_snapshot c w g t st) + of_nat (length ts)\<rparr>"
    using Cons.prems one by (intro Cons.IH) simp_all
  finally show ?case
    unfolding one feed_number by (simp add: stats_feed_def algebra_simps)
qed

section \<open>The worker's queue during a run\<close>

text \<open>The queue is a list whose cells, and all that is allocated, are among those handed out so far.\<close>

definition queue_inv :: "nat set \<Rightarrow> compression_worker \<Rightarrow> bool" where
  "queue_inv used w = (\<exists>q. queue_cells w q \<and> {a. jobs w a \<noteq> None} \<subseteq> used)"

lemma queue_inv_initial: "queue_inv {} compression_worker_initial"
  by (auto simp: queue_inv_def queue_cells_def compression_worker_initial_def)

lemma queue_inv_running [simp]: "queue_inv used (w\<lparr>worker_running := b\<rparr>) = queue_inv used w"
  by (simp add: queue_inv_def queue_cells_def)

lemma queue_inv_mono: "queue_inv used w \<Longrightarrow> used \<subseteq> used' \<Longrightarrow> queue_inv used' w"
  by (auto simp: queue_inv_def)

lemma queue_inv_turn:
  assumes "queue_inv used w"
  shows "queue_inv used (fst (worker_turn z (w, fs, err)))"
proof -
  obtain q where q: "queue_cells w q" "{a. jobs w a \<noteq> None} \<subseteq> used" using assms by (auto simp: queue_inv_def)
  show ?thesis
  proof (cases q)
    case Nil
    then show ?thesis using q assms take_job_Nil by (simp add: worker_turn_def)
  next
    case (Cons a as)
    then show ?thesis
      using worker_turn_Cons [of w a as] q by (auto simp: queue_inv_def free_job_def)
  qed
qed

lemma queue_inv_worker: "queue_inv used (queue s) \<Longrightarrow> queue_inv used (queue (worker_runs z n s))"
proof -
  assume "queue_inv used (queue s)"
  then have "queue_inv used (fst ((worker_turn z ^^ n) (queue s, files s, err_out s)))"
    by (induction n) (use queue_inv_turn prod.collapse in \<open>auto, metis\<close>)
  then show ?thesis
    by (cases "(worker_turn z ^^ n) (queue s, files s, err_out s)") (simp add: worker_runs_def)
qed

lemma queue_inv_enqueue:
  assumes "queue_inv used w" and "\<forall>a. cell = Some a \<longrightarrow> a \<notin> used"
  shows "queue_inv (used \<union> set_option cell) (fst (compression_enqueue_file c cell p w))"
proof -
  obtain q where q: "queue_cells w q" "{a. jobs w a \<noteq> None} \<subseteq> used" using assms by (auto simp: queue_inv_def)
  have "queue_inv (insert a used) (link_job a (alloc_job a t w))" if "a \<notin> used" for a t
  proof -
    have "set q \<subseteq> {b. jobs w b \<noteq> None}" using q(1) linked_alloc by (fastforce simp: queue_cells_def)
    then have "a \<notin> set q" using q(2) that by blast
    then have "queue_cells (alloc_job a t w) q" using q(1) by (simp add: queue_cells_def alloc_job_def)
    moreover have "ready_job (alloc_job a t w) a" by (simp add: ready_job_def alloc_job_def new_job_def)
    ultimately have "queue_cells (link_job a (alloc_job a t w)) (q @ [a])" using link_job_cells \<open>a \<notin> set q\<close> by blast
    moreover have "{b. jobs (link_job a (alloc_job a t w)) b \<noteq> None} \<subseteq> insert a used"
      using q(2) by (auto simp: alloc_job_def)
    ultimately show ?thesis by (auto simp: queue_inv_def)
  qed
  then have "queue_inv (insert a used) (fst (compression_enqueue_file c (Some a) p w))" if "a \<notin> used" for a
    using that queue_inv_mono [OF assms(1), of "insert a used"]
    by (cases p) (auto simp: compression_enqueue_file_def)
  moreover have "fst (compression_enqueue_file c None p w) = w" by (simp add: compression_enqueue_file_def split: option.split)
  ultimately show ?thesis using assms by (cases cell) auto
qed

text \<open>The cells \<^verbatim>\<open>malloc\<close> hands out for the jobs of one snapshot.\<close>

definition turn_cells :: "snapshot_turn \<Rightarrow> nat list" where
  "turn_cells t = (case job_cell (log_rotation (turn_env t)) of None \<Rightarrow> [] | Some a \<Rightarrow> [a])
     @ (case job_cell (json_rotation (turn_env t)) of None \<Rightarrow> [] | Some a \<Rightarrow> [a])"

lemma rotate_logs_queue:
  "\<exists>p. queue (rotate_logs c e f s) = (if config_get_compression_enabled c
     then fst (compression_enqueue_file c (job_cell e) p (queue s)) else queue s)"
  by (auto simp: rotate_logs_def Let_def remove_file_def split: prod.split) (metis fst_conv)

lemma rotate_and_reopen_queue: "queue (snd (rotate_and_reopen c e f s)) = queue (rotate_logs c e f s)"
  by (simp add: rotate_and_reopen_def Let_def split: prod.split option.split)

lemma queue_inv_rotate:
  assumes "queue_inv used (queue s)" and "\<forall>a. job_cell e = Some a \<longrightarrow> a \<notin> used"
  shows "queue_inv (used \<union> set_option (job_cell e)) (queue (snd (rotate_and_reopen c e f s)))"
  using rotate_logs_queue [of c e f s] queue_inv_enqueue [OF assms] queue_inv_mono [OF assms(1)]
  by (auto simp: rotate_and_reopen_queue)

lemma queue_inv_rotations:
  assumes "queue_inv used (queue s)" and "distinct (turn_cells t)" and "set (turn_cells t) \<inter> used = {}"
  shows "queue_inv (used \<union> set (turn_cells t)) (queue (handle_rotations c (turn_env t) s))"
proof -
  let ?log = "job_cell (log_rotation (turn_env t))" and ?json = "job_cell (json_rotation (turn_env t))"
  have cells: "set (turn_cells t) = set_option ?log \<union> set_option ?json"
    by (auto simp: turn_cells_def split: option.splits)
  have fresh: "\<forall>a. ?log = Some a \<longrightarrow> a \<notin> used" "\<forall>a. ?json = Some a \<longrightarrow> a \<notin> used \<union> set_option ?log"
    using assms(2,3) by (auto simp: turn_cells_def split: option.splits)
  define s1 where "s1 = (if config_get_raw_log_enabled c then rotate_raw_log c (turn_env t) s else s)"
  have log: "queue_inv (used \<union> set_option ?log) (queue s1)"
    using queue_inv_rotate [OF assms(1) fresh(1), of c "output_path c CONFIG_LOG_FILE"]
      queue_inv_mono [OF assms(1), of "used \<union> set_option ?log"]
    by (auto simp: s1_def rotate_raw_log_def Let_def split: prod.split)
  have json: "queue_inv (used \<union> set_option ?log \<union> set_option ?json) (queue (rotate_jsonl c (turn_env t) s1))"
    using queue_inv_rotate [OF log fresh(2), of c "output_path c CONFIG_JSON_FILE"]
      queue_inv_mono [OF log, of "used \<union> set_option ?log \<union> set_option ?json"]
    by (auto simp: rotate_jsonl_def Let_def split: prod.split)
  have "handle_rotations c (turn_env t) s = s \<or> handle_rotations c (turn_env t) s = s1
      \<or> handle_rotations c (turn_env t) s = rotate_jsonl c (turn_env t) s1"
    by (simp add: handle_rotations_def s1_def Let_def)
  then show ?thesis
    unfolding cells using json log queue_inv_mono [OF assms(1)] queue_inv_mono [OF log]
    by (metis Un_assoc Un_upper1)
qed

lemma collect_snapshot_queue:
  assumes "collect_snapshot c env w d0 s = Inr s'"
  shows "queue s' = queue (handle_rotations c env s)"
  using collect_snapshot_recorded [OF assms refl refl] by (auto simp: Let_def)

lemma queue_inv_burst:
  assumes "burst c z ts n k e a = Inr a'" and "queue_inv used (queue (module a))"
    and "distinct (concat (map (turn_cells \<circ> ts) [k..<k + e]))"
    and "used \<inter> set (concat (map (turn_cells \<circ> ts) [k..<k + e])) = {}"
  shows "queue_inv (used \<union> set (concat (map (turn_cells \<circ> ts) [k..<k + e]))) (queue (module a'))"
  using assms
proof (induction e arbitrary: k a used)
  case (Suc e)
  have upt: "[k..<k + Suc e] = k # [Suc k..<Suc k + e]" by (simp add: upt_conv_Cons del: upt_Suc)
  note cells = Suc.prems(3,4) [unfolded upt]
  show ?case
  proof (cases "n < count (gArguments a)")
    case True
    then obtain a1 where a1: "run_snapshot_once c z (ts k) a = Inr a1" "burst c z ts n (Suc k) e a1 = Inr a'"
      using Suc.prems(1) by (auto simp: bind_fault_def split: sum.splits)
    then obtain s' where s': "collect_snapshot c (turn_env (ts k)) (pid_whitelist (gArguments a)) (stack_sample (ts k))
        (worker_runs z (worker_jobs (ts k)) (module a)) = Inr s'" "module a1 = s'"
      by (auto simp: run_snapshot_once_def bind_fault_def split: sum.splits)
    have "queue_inv (used \<union> set (turn_cells (ts k))) (queue (module a1))"
      unfolding s'(2) collect_snapshot_queue [OF s'(1)]
      using Suc.prems(2) cells by (intro queue_inv_rotations queue_inv_worker) auto
    from Suc.IH [OF a1(2) this] cells show ?thesis
      unfolding upt by (simp add: Un_assoc Int_Un_distrib Int_Un_distrib2 del: upt_Suc)
  next
    case False
    then show ?thesis using Suc.prems(1) queue_inv_mono [OF Suc.prems(2)] by auto
  qed
qed simp

definition wake_cells :: "wake \<Rightarrow> nat list" where
  "wake_cells w = concat (map turn_cells (wake_turns w))"

lemma module_of_steps [simp]:
  "module (signalled sig a) = module a" "queue (module (say t a)) = queue (module a)"
  "queue (module (complain t a)) = queue (module a)"
  by (simp_all add: signalled_def sigint_handler_def say_def complain_def)

lemma queue_inv_loop:
  assumes "main_loop c z ws n a = Some (Inr a')" and "queue_inv used (queue (module a))"
    and "distinct (concat (map wake_cells ws))" and "used \<inter> set (concat (map wake_cells ws)) = {}"
  shows "\<exists>used'. queue_inv used' (queue (module a'))"
  using assms
proof (induction ws arbitrary: n a used)
  case Nil
  then show ?case by (auto split: if_splits)
next
  case (Cons w ws)
  let ?a2 = "signalled (signal_during w) (signalled (signal_before w) a)"
  show ?case
  proof (cases "n < count (gArguments a) \<and> \<not> g_stop_requested (signalled (signal_before w) a) \<and> (\<exists>e. answer w = Expirations e)")
    case True
    then obtain e where e: "answer w = Expirations e" by blast
    then obtain a3 where a3: "burst c z (turns w) n 0 (unat e) ?a2 = Inr a3" "main_loop c z ws (n + 1) a3 = Some (Inr a')"
      using Cons.prems(1) True by (auto simp: Let_def split: sum.splits)
    have cells: "wake_cells w = concat (map (turn_cells \<circ> turns w) [0..<0 + unat e])"
      by (simp add: wake_cells_def wake_turns_def expirations_def e)
    have "queue_inv (used \<union> set (wake_cells w)) (queue (module a3))"
      unfolding cells by (rule queue_inv_burst [OF a3(1)]) (use Cons.prems(2-4) cells in auto)
    from Cons.IH [OF a3(2) this] Cons.prems(3,4) show ?thesis by auto
  next
    case False
    then show ?thesis using Cons.prems(1,2)
      by (auto simp: Let_def split: if_splits timer_read.splits)
  qed
qed

section \<open>Starting and stopping\<close>

lemma delete_entries_keep:
  "delete_entries c ns s = (b, s') \<Longrightarrow> stats s' = stats s \<and> queue s' = queue s \<and> page_size_kb s' = page_size_kb s"
  by (induction c ns s arbitrary: b s' rule: delete_entries.induct) (auto split: if_splits prod.splits option.splits)

lemma delete_old_files_keeps:
  "process_snapshot_delete_old_files c l s = (r, s')
   \<Longrightarrow> stats s' = stats s \<and> queue s' = queue s \<and> page_size_kb s' = page_size_kb s"
  by (auto simp: process_snapshot_delete_old_files_def dest: delete_entries_keep
      split: sum.splits prod.splits bool.splits if_splits)

lemma acquire_lock_keeps:
  "acquire_lock fl p s = (r, s')
   \<Longrightarrow> stats s' = stats s \<and> queue s' = queue s \<and> page_size_kb s' = page_size_kb s \<and> proc_open s' = proc_open s"
  by (auto simp: acquire_lock_def split: prod.splits option.splits flock_answer.splits)

lemma open_raw_keep:
  "stats (snd (open_raw_log c rs)) = stats (snd rs)" "queue (snd (open_raw_log c rs)) = queue (snd rs)"
  "page_size_kb (snd (open_raw_log c rs)) = page_size_kb (snd rs)" "proc_open (snd (open_raw_log c rs)) = proc_open (snd rs)"
  "stats (snd (open_raw_jsonl c rs)) = stats (snd rs)" "queue (snd (open_raw_jsonl c rs)) = queue (snd rs)"
  "page_size_kb (snd (open_raw_jsonl c rs)) = page_size_kb (snd rs)" "proc_open (snd (open_raw_jsonl c rs)) = proc_open (snd rs)"
  by (simp_all add: open_raw_log_def open_raw_jsonl_def split: prod.split option.split)

lemma initialize_started:
  assumes "process_snapshot_initialize c ok pb fl s = (process_snapshot_success, s')"
  shows "proc_open s' \<and> page_size_kb s' = initialize_page_size_kb pb (page_size_kb s) \<and> stats s' = stats s \<and> queue s' = queue s"
proof -
  let ?s1 = "s\<lparr>proc_open := True, page_size_kb := initialize_page_size_kb pb (page_size_kb s)\<rparr>"
  have ok: "ok" using assms by (auto simp: process_snapshot_initialize_def split: if_splits)
  show ?thesis
  proof (cases "\<not> config_get_raw_log_enabled c \<and> \<not> config_get_raw_jsonl_enabled c")
    case True
    then show ?thesis using assms ok by (auto simp: process_snapshot_initialize_def Let_def)
  next
    case False
    obtain r s2 where lock: "acquire_lock fl (output_path c CONFIG_LOCK_FILE) ?s1 = (r, s2)" by fastforce
    have r: "r = process_snapshot_success" and s': "s' = snd (open_raw_jsonl c (open_raw_log c (r, s2)))"
      using assms ok False lock by (cases r; simp add: process_snapshot_initialize_def Let_def)+
    show ?thesis using acquire_lock_keeps [OF lock] by (simp add: s' open_raw_keep)
  qed
qed

lemma deinit_keeps [simp]:
  "stats (process_snapshot_deinit x y v s) = stats s" "queue (process_snapshot_deinit x y v s) = queue s"
  "lock_fd (process_snapshot_deinit x y v s) = None"
  by (simp_all add: process_snapshot_deinit_def Let_def)

lemma stop_modules_keeps:
  assumes "stop_modules c e a = Some a'"
  shows "stats (module a') = stats (module a)" "gArguments a' = gArguments a" "lock_fd (module a') = None"
  using assms by (auto simp: stop_modules_def Let_def)

lemma stop_modules_returns:
  assumes "queue_inv used (queue (module a))"
  shows "\<exists>a'. stop_modules c e a = Some a'"
proof -
  obtain q where q: "queue_cells (queue (module a)) q" using assms by (auto simp: queue_inv_def)
  have "\<exists>v. compression_worker_shutdown c z (queue (module a), fs, err) = Some v" for z fs err
  proof (cases "config_get_compression_enabled c")
    case True
    from shutdown_cells [OF this q] show ?thesis by blast
  qed (simp add: compression_worker_shutdown_def)
  then show ?thesis by (simp add: stop_modules_def Let_def)
qed

section \<open>The parts of the program\<close>

text \<open>The state in which the modules are started.\<close>

definition configured :: "config_t \<Rightarrow> file_system \<Rightarrow> ap_arguments \<Rightarrow> process_stats \<Rightarrow> messages \<Rightarrow> analyzer" where
  "configured c fs g st msg = say (config_print_banner c) (complain (snd msg) (say (fst msg) ((analyzer_initial fs)
     \<lparr>gArguments := g, module := (module (analyzer_initial fs))\<lparr>stats := st\<rparr>\<rparr>)))"

lemma configured_fields [simp]:
  "gArguments (configured c fs g st msg) = g" "stats (module (configured c fs g st msg)) = st"
  "queue (module (configured c fs g st msg)) = compression_worker_initial" "\<not> g_stop_requested (configured c fs g st msg)"
  "page_size_kb (module (configured c fs g st msg)) = 0"
  by (simp_all add: configured_def say_def complain_def analyzer_initial_def snapshot_state_initial_def)

lemma main_configured:
  assumes "config_init fs (config_path e) configuration_zero = Inr (config_success, c, fs1)"
    and "ap_parse_args c (clock_ticks e) (cpu_count e) (memory e) (program e) (arguments e) zero_arguments process_stats_initial
      = (parse_args_ok, g, st, msg)"
  shows "main e fs = start_modules c e (configured c fs1 g st msg)"
  using assms by (simp add: main_def Let_def configured_def analyzer_initial_def snapshot_state_initial_def)

lemma main_cases:
  "(\<exists>f. main e fs = Some (Inl f)) \<or> (\<exists>a. main e fs = leave (-1) a)
   \<or> (\<exists>c g st msg fs1. ap_parse_args c (clock_ticks e) (cpu_count e) (memory e) (program e) (arguments e)
        zero_arguments process_stats_initial = (parse_args_ok, g, st, msg)
      \<and> main e fs = start_modules c e (configured c fs1 g st msg))"
proof (cases "config_init fs (config_path e) configuration_zero")
  case (Inr x)
  obtain st c fs1 where x: "x = (st, c, fs1)" by (cases x)
  obtain parsed g st1 msg where p: "ap_parse_args c (clock_ticks e) (cpu_count e) (memory e) (program e) (arguments e)
      zero_arguments process_stats_initial = (parsed, g, st1, msg)" by (metis prod_cases4)
  show ?thesis
  proof (cases "st = config_success \<and> parsed = parse_args_ok")
    case True
    with Inr x p main_configured [of fs e c fs1 g st1 msg] show ?thesis by blast
  next
    case False
    with Inr x p have "\<exists>a. main e fs = leave (-1) a"
      by (auto simp: main_def Let_def analyzer_initial_def snapshot_state_initial_def)
    then show ?thesis by blast
  qed
qed (simp add: main_def)

lemma leave_not_None [simp]: "\<exists>y. leave r a = Some y"
  by (simp add: leave_def)

lemma finish_run_returns: "queue_inv used (queue (module a)) \<Longrightarrow> finish_run c e a \<noteq> None"
  using stop_modules_returns [of used a c e] by (auto simp: finish_run_def split: sum.split)

lemma run_timer_returns:
  assumes "list_all wake_safe (wakes e)" and "distinct (concat (map wake_cells (wakes e)))" and "running a"
    and "count (gArguments a) \<le> int (length (wakes e))" and "queue_inv {} (queue (module a))"
  shows "run_timer c e a \<noteq> None"
proof (cases "getTimeFd (timer_created e) (timer_set e) (interval_ms (gArguments a))")
  case (Inl msg)
  then show ?thesis
    using stop_modules_returns [of "{}" "complain msg a" c e] assms(5) by (auto simp: run_timer_def)
next
  case (Inr ts)
  obtain a' where a': "main_loop c (compressor e) (wakes e) 0 a = Some (Inr a')"
    using loop_ends [OF assms(1,3,4)] by blast
  obtain used where "queue_inv used (queue (module a'))"
    using queue_inv_loop [OF a' assms(5,2)] by auto
  from finish_run_returns [OF this] show ?thesis by (simp add: run_timer_def Inr a')
qed

lemma start_modules_cases:
  "(\<exists>a'. start_modules c e a = leave (-1) a') \<or>
   (\<exists>a'. start_modules c e a = run_timer c e a' \<and> running a' \<and> gArguments a' = gArguments a
      \<and> stats (module a') = stats (module a) \<and> queue (module a') = compression_worker_init c (queue (module a)))"
proof -
  obtain r1 s1 where del: "(if delete_old_files (gArguments a) then process_snapshot_delete_old_files c (old_files e) (module a)
      else (process_snapshot_success, module a)) = (r1, s1)" by fastforce
  then have keeps: "stats s1 = stats (module a)" "queue s1 = queue (module a)"
    using delete_old_files_keeps [of c "old_files e" "module a" r1 s1] by (auto split: if_splits)
  obtain r2 s2 where init: "process_snapshot_initialize c (proc_opens e) (page_bytes e) (lock_answer e) s1 = (r2, s2)" by fastforce
  show ?thesis
  proof (cases "r1 = process_snapshot_success \<and> r2 = process_snapshot_success")
    case True
    then have "start_modules c e a = run_timer c e (a\<lparr>module := s2\<lparr>queue := compression_worker_init c (queue s2)\<rparr>\<rparr>)"
      using del init by (simp add: start_modules_def)
    moreover have "proc_open s2 \<and> page_size_kb s2 = initialize_page_size_kb (page_bytes e) (page_size_kb s1)
        \<and> stats s2 = stats s1 \<and> queue s2 = queue s1"
      using init True by (intro initialize_started) simp
    ultimately show ?thesis
      using keeps page_size_positive [of "page_bytes e" "page_size_kb s1"]
      by (intro disjI2 exI [of _ "a\<lparr>module := s2\<lparr>queue := compression_worker_init c (queue s2)\<rparr>\<rparr>"])
        (simp add: running_def)
  next
    case False
    then show ?thesis using del init
      by (cases r2) (auto simp: start_modules_def)
  qed
qed

lemma queue_inv_init: "queue_inv {} (compression_worker_init c compression_worker_initial)"
  by (simp add: compression_worker_init_def queue_inv_initial)

text \<open>The state in which the timer loop begins: the snapshot module has started, then the worker.\<close>

definition started :: "config_t \<Rightarrow> analyzer \<Rightarrow> snapshot_state \<Rightarrow> analyzer" where
  "started c a s = a\<lparr>module := s\<lparr>queue := compression_worker_init c (queue s)\<rparr>\<rparr>"

lemma start_modules_runs:
  assumes "(if delete_old_files (gArguments a) then process_snapshot_delete_old_files c (old_files e) (module a)
      else (process_snapshot_success, module a)) = (process_snapshot_success, s1)"
    and "process_snapshot_initialize c (proc_opens e) (page_bytes e) (lock_answer e) s1 = (process_snapshot_success, s2)"
    and "a' = started c a s2"
  shows "start_modules c e a = run_timer c e a' \<and> running a' \<and> gArguments a' = gArguments a
      \<and> g_stop_requested a' = g_stop_requested a \<and> stats (module a') = stats (module a)
      \<and> queue (module a') = compression_worker_init c (queue (module a))
      \<and> page_size_kb (module a') = initialize_page_size_kb (page_bytes e) (page_size_kb (module a))"
proof -
  have "start_modules c e a = run_timer c e a'"
    by (simp add: start_modules_def assms started_def)
  moreover have "stats s1 = stats (module a) \<and> queue s1 = queue (module a) \<and> page_size_kb s1 = page_size_kb (module a)"
    using assms(1) delete_old_files_keeps [of c "old_files e" "module a"] by (auto split: if_splits)
  ultimately show ?thesis
    using initialize_started [OF assms(2)] page_size_positive [of "page_bytes e" "page_size_kb s1"]
    by (simp add: running_def assms(3) started_def)
qed

lemma run_timer_reports:
  assumes "running a" and "\<not> g_stop_requested a" and "timer_created e" and "timer_set e" and "wakes e = ws @ rest"
    and "list_all quiet ws" and "list_all wake_safe ws" and "int (length ws) = count (gArguments a)"
    and "distinct (concat (map wake_cells (wakes e)))" and "queue_inv {} (queue (module a))"
  shows "\<exists>a1 a'. main_loop c (compressor e) (wakes e) 0 a = Some (Inr a1) \<and> stop_modules c e a1 = Some a'
    \<and> run_timer c e a = (case print_report c (reporting e) a' of Inl f \<Rightarrow> Some (Inl f) | Inr a'' \<Rightarrow> leave 0 a'')
    \<and> gArguments a' = gArguments a \<and> stats (module a') =
      fold (feed_snapshot c (pid_whitelist (gArguments a)) (page_size_kb (module a))) (concat (map wake_turns ws)) (stats (module a))"
proof -
  obtain spec where timer: "getTimeFd (timer_created e) (timer_set e) (interval_ms (gArguments a)) = Inr spec"
    using assms(3,4) by (simp add: getTimeFd_def Let_def)
  obtain a1 where a1: "main_loop c (compressor e) (ws @ rest) 0 a = main_loop c (compressor e) rest (int (length ws)) a1"
      "same_run c a (concat (map wake_turns ws)) a1"
    using main_loop_quiet [OF assms(6,7,1,2), of 0 c "compressor e"] assms(8) by auto
  have loop: "main_loop c (compressor e) (wakes e) 0 a = Some (Inr a1)"
    unfolding assms(5) a1(1) using a1(2) assms(8) by (cases rest) (simp_all add: same_run_def)
  obtain used where "queue_inv used (queue (module a1))" using queue_inv_loop [OF loop assms(10,9)] by auto
  then obtain a' where stop: "stop_modules c e a1 = Some a'" using stop_modules_returns by blast
  show ?thesis
    using stop_modules_keeps [OF stop] a1(2) by (auto simp: run_timer_def timer loop finish_run_def stop same_run_def)
qed

lemma print_report_keeps: "print_report c env a = Inr a' \<Longrightarrow> lock_fd (module a') = lock_fd (module a)"
  by (auto simp: print_report_def Let_def bind_fault_def split: sum.splits)

lemma finish_run_exit:
  assumes "finish_run c e a = Some (Inr (r, a'))"
  shows "r = 0 \<and> pid_whitelist (gArguments a') = empty_whitelist \<and> lock_fd (module a') = None"
  using assms stop_modules_keeps(3) [of c e a] print_report_keeps [of c "reporting e"]
  by (auto simp: finish_run_def leave_def ap_free_arguments_def split: option.splits sum.splits)

lemma run_timer_exit:
  assumes "run_timer c e a = Some (Inr (r, a'))"
  shows "(r = 0 \<or> r = -1) \<and> pid_whitelist (gArguments a') = empty_whitelist \<and> lock_fd (module a') = None"
  using assms finish_run_exit [of c e _ r a'] stop_modules_keeps(3) [of c e]
  by (auto simp: run_timer_def leave_def ap_free_arguments_def split: option.splits sum.splits)

lemma leave_exit: "leave r a = Some (Inr (r', a')) \<Longrightarrow> r' = r \<and> pid_whitelist (gArguments a') = empty_whitelist"
  by (auto simp: leave_def ap_free_arguments_def)

end
