(* ===== verification/Snapshot_Log.thy ===== *)
theory Snapshot_Log
  imports Snapshot_Samples
begin

text \<open>
  The plain-text log of a snapshot: what \<^verbatim>\<open>log_data\<close> appends to the log file and, when the console
  is enabled, prints, over the whole of one \<^verbatim>\<open>collect_snapshot\<close>.
\<close>

section \<open>What a snapshot writes\<close>

definition snapshot_text :: "snapshot_clock \<Rightarrow> process_state_input_t list \<Rightarrow> string" where
  "snapshot_text k xs = stamp_prefix (hr_timestamp k) @ start_text @ concat (map log_line xs) @ end_text"

definition printed :: "config_t \<Rightarrow> string \<Rightarrow> string" where
  "printed c t = (if config_get_raw_console_enabled c then t else [])"

lemma printed_append: "printed c (t @ u) = printed c t @ printed c u"
  by (simp add: printed_def)

lemma log_data_console: "console (log_data c f t s) = console s @ printed c t"
  by (simp add: log_data_def printed_def Let_def split: option.split)

lemma log_data_this:
  "node_at (files s) p = Some (File t) \<Longrightarrow> node_at (files (log_data c (Some p) u s)) p = Some (File (t @ u))"
  by (simp add: log_data_def Let_def append_this)

lemma write_json_other:
  "pfOutputJsonlFile s \<noteq> Some p \<Longrightarrow> node_at (files (write_output_to_json d s)) p = node_at (files s) p"
  by (auto simp: write_output_to_json_def append_other split: option.split)

lemma record_process_log:
  assumes "pfOutputFile s = Some p" and "pfOutputJsonlFile s \<noteq> Some p" and "node_at (files s) p = Some (File t)"
  shows "node_at (files (record_process c env d s)) p = Some (File (t @ log_line d))"
  using assms by (simp add: record_process_def Let_def write_json_other log_data_this)

lemma record_process_console:
  "console (record_process c env d s) = console s @ printed c (log_line d)"
  by (simp add: record_process_def Let_def write_output_to_json_def log_data_console split: option.split)

lemma recorded_log:
  assumes "pfOutputFile s = Some p" and "pfOutputJsonlFile s \<noteq> Some p" and "node_at (files s) p = Some (File t)"
  shows "node_at (files (recorded c env xs s)) p = Some (File (t @ concat (map log_line xs)))"
  using assms
proof (induction xs arbitrary: s t)
  case (Cons x xs)
  with record_process_log [OF Cons.prems] Cons.IH [of "record_process c env x s" "t @ log_line x"] show ?case
    by (simp add: recorded_def)
qed (simp add: recorded_def)

lemma recorded_console:
  "console (recorded c env xs s) = console s @ printed c (concat (map log_line xs))"
  by (induction xs arbitrary: s)
    (simp_all add: recorded_def record_process_console printed_append, simp add: printed_def)

lemma log_text_appended:
  assumes "collect_snapshot c env w d0 s = Inr s'" and "s1 = handle_rotations c env s"
    and "pfOutputFile s1 = Some p" and "pfOutputJsonlFile s1 \<noteq> Some p" and "node_at (files s1) p = Some (File t)"
    and "xs = snapshot_samples c env w (page_size_kb s) (stamped (clock env) d0)"
  shows "node_at (files s') p = Some (File (t @ snapshot_text (clock env) xs))"
proof -
  define s3 where "s3 = log_data c (Some p) start_text
      (log_data c (Some p) (stamp_prefix (hr_timestamp (clock env))) s1)"
  have "node_at (files s3) p = Some (File ((t @ stamp_prefix (hr_timestamp (clock env))) @ start_text))"
    unfolding s3_def by (intro log_data_this assms(5))
  then have "node_at (files (recorded c env xs s3)) p
      = Some (File (((t @ stamp_prefix (hr_timestamp (clock env))) @ start_text) @ concat (map log_line xs)))"
    using assms(3,4) by (intro recorded_log) (simp_all add: s3_def)
  from log_data_this [OF this, of c end_text]
  have "node_at (files (log_data c (Some p) end_text (recorded c env xs s3))) p
      = Some (File (t @ snapshot_text (clock env) xs))" by (simp add: snapshot_text_def)
  with collect_snapshot_recorded [OF assms(1,2,6)] show ?thesis
    unfolding assms(3) s3_def [symmetric] by (auto simp: Let_def)
qed

lemma console_text_appended:
  assumes "collect_snapshot c env w d0 s = Inr s'"
    and "xs = snapshot_samples c env w (page_size_kb s) (stamped (clock env) d0)"
  shows "console s' = console s @ printed c (snapshot_text (clock env) xs)"
proof -
  have "console (handle_rotations c env s) = console s"
    using handle_rotations_beyond [of c env s] by (simp add: beyond_rotation_def)
  with collect_snapshot_recorded [OF assms(1) refl assms(2)] show ?thesis
    by (auto simp: Let_def log_data_console recorded_console snapshot_text_def printed_append)
qed

text \<open>C14: A snapshot appends one block to the log and nothing that was in it is lost: the time stamp
  and the start marker, one line per sample in the order they are fed into the statistics, the
  end marker. The console gets the same block when it is enabled, and nothing otherwise.\<close>

theorem snapshot_log_text:
  assumes "proc_open s" and "proc_safe (proc env)" and "s1 = handle_rotations c env s"
    and "pfOutputFile s1 = Some p" and "pfOutputJsonlFile s1 \<noteq> Some p" and "node_at (files s1) p = Some (File t)"
    and "xs = snapshot_samples c env w (page_size_kb s) (stamped (clock env) d0)"
  shows "\<exists>s'. collect_snapshot c env w d0 s = Inr s'
    \<and> node_at (files s') p = Some (File (t @ snapshot_text (clock env) xs))
    \<and> console s' = console s @ printed c (snapshot_text (clock env) xs)"
  using collect_snapshot_returns [OF assms(1,2)] log_text_appended [OF _ assms(3-7)]
    console_text_appended [OF _ assms(7)] by blast

theorem snapshot_log_text_witness:
  "\<exists>s' x. collect_snapshot demo_config demo_snapshot_env empty_whitelist (undefined\<lparr>i_pid := 0\<rparr>) demo_snapshot_state = Inr s'
    \<and> node_at (files s') [''o'', ''ptime.log''] = Some (File (''first'' @ snapshot_text demo_clock [x]))"
proof -
  have start: "pfOutputFile demo_snapshot_state = Some [''o'', ''ptime.log'']"
      "pfOutputJsonlFile demo_snapshot_state \<noteq> Some [''o'', ''ptime.log'']"
      "node_at (files demo_snapshot_state) [''o'', ''ptime.log''] = Some (File ''first'')"
    by (simp_all add: demo_snapshot_state_def demo_disk_def)
  have safe: "proc_safe (proc demo_snapshot_env)" by (simp add: demo_safe)
  obtain x where x: "snapshot_samples demo_config demo_snapshot_env empty_whitelist 4 (stamped demo_clock (undefined\<lparr>i_pid := 0\<rparr>)) = [x]"
    using demo_samples by blast
  from snapshot_log_text [OF demo_safe(2) safe demo_no_rotation [symmetric] start refl, of empty_whitelist "undefined\<lparr>i_pid := 0\<rparr>"]
  show ?thesis unfolding demo_safe(3,5) x by blast
qed

end
