(* ===== verification/Output_Buffer.thy ===== *)
theory Output_Buffer
  imports Snapshot_Log
begin

text \<open>
  The output streams of \<^verbatim>\<open>process_snapshot.c\<close> are fully buffered (\<^verbatim>\<open>configure_output_buffer\<close>) and
  flushed once per snapshot (\<^verbatim>\<open>flush_output_files\<close>), while the model of a snapshot writes at once. Here
  the buffers are modelled, with the moments at which the C library writes out on its own left open,
  and both accounts are shown to agree after every snapshot.
\<close>

section \<open>Streams\<close>

text \<open>A stream: the file it appends to and the bytes still in its buffer; \<open>None\<close> is the null pointer.\<close>

type_synonym stream = "(fpath \<times> string) option"

record out_streams =
  disk :: file_system
  log_stream :: stream
  json_stream :: stream

text \<open>A stream that was just opened, after \<^verbatim>\<open>setvbuf\<close>.\<close>

definition configure_output_buffer :: "fpath option \<Rightarrow> stream" where
  "configure_output_buffer f = (case f of None \<Rightarrow> None | Some p \<Rightarrow> Some (p, []))"

text \<open>Printing to a stream; \<open>k\<close> bytes of what is then buffered are written out by the library.\<close>

definition stream_print :: "nat \<Rightarrow> string \<Rightarrow> stream \<times> file_system \<Rightarrow> stream \<times> file_system" where
  "stream_print k t ffs = (case ffs of
     (None, fs) \<Rightarrow> (None, fs)
   | (Some (p, b), fs) \<Rightarrow> (Some (p, drop k (b @ t)), append_file p (take k (b @ t)) fs))"

definition c_fflush :: "stream \<times> file_system \<Rightarrow> stream \<times> file_system" where
  "c_fflush ffs = (case ffs of (None, fs) \<Rightarrow> (None, fs) | (Some (p, b), fs) \<Rightarrow> (Some (p, []), append_file p b fs))"

definition flush_output_files :: "out_streams \<Rightarrow> out_streams" where
  "flush_output_files q =
     (let q1 = (if log_stream q \<noteq> None
            then case c_fflush (log_stream q, disk q) of (f, fs) \<Rightarrow> q\<lparr>log_stream := f, disk := fs\<rparr> else q)
      in if json_stream q1 \<noteq> None
         then case c_fflush (json_stream q1, disk q1) of (f, fs) \<Rightarrow> q1\<lparr>json_stream := f, disk := fs\<rparr> else q1)"

section \<open>The writes of a snapshot\<close>

datatype print_call = To_Log string | To_Json string

fun buffered_write :: "nat \<times> print_call \<Rightarrow> out_streams \<Rightarrow> out_streams" where
  "buffered_write (k, To_Log t) q =
     (case stream_print k t (log_stream q, disk q) of (f, fs) \<Rightarrow> q\<lparr>log_stream := f, disk := fs\<rparr>)"
| "buffered_write (k, To_Json t) q =
     (case stream_print k t (json_stream q, disk q) of (f, fs) \<Rightarrow> q\<lparr>json_stream := f, disk := fs\<rparr>)"

definition append_to :: "fpath option \<Rightarrow> string \<Rightarrow> file_system \<Rightarrow> file_system" where
  "append_to f t fs = (case f of None \<Rightarrow> fs | Some p \<Rightarrow> append_file p t fs)"

fun direct_write :: "fpath option \<Rightarrow> fpath option \<Rightarrow> print_call \<Rightarrow> file_system \<Rightarrow> file_system" where
  "direct_write pl pj (To_Log t) fs = append_to pl t fs"
| "direct_write pl pj (To_Json t) fs = append_to pj t fs"

definition snapshot_writes :: "snapshot_clock \<Rightarrow> process_state_input_t list \<Rightarrow> print_call list" where
  "snapshot_writes k xs = [To_Log (stamp_prefix (hr_timestamp k)), To_Log start_text]
     @ concat (map (\<lambda>x. [To_Log (log_line x), To_Json (json_line x)]) xs) @ [To_Log end_text]"

text \<open>The model of a snapshot performs exactly these writes.\<close>

lemma log_data_files: "files (log_data c f t s) = append_to f t (files s)"
  by (simp add: log_data_def append_to_def Let_def split: option.split)

lemma record_process_files:
  "files (record_process c env x s) = append_to (pfOutputJsonlFile s) (json_line x)
     (append_to (pfOutputFile s) (log_line x) (files s))"
proof -
  have "pfOutputJsonlFile (log_data c (pfOutputFile s) (log_line x) s) = pfOutputJsonlFile s" by simp
  then show ?thesis
    by (cases "pfOutputJsonlFile s")
      (simp_all add: record_process_def Let_def write_output_to_json_def log_data_files append_to_def [of None]
        append_to_def [of "Some _" "json_line x"])
qed

lemma recorded_files:
  "files (recorded c env xs s) = fold (direct_write (pfOutputFile s) (pfOutputJsonlFile s))
     (concat (map (\<lambda>x. [To_Log (log_line x), To_Json (json_line x)]) xs)) (files s)"
  by (induction xs arbitrary: s) (simp_all add: recorded_def record_process_files)

lemma snapshot_files:
  assumes "collect_snapshot c env w d0 s = Inr s'" and "s1 = handle_rotations c env s"
    and "xs = snapshot_samples c env w (page_size_kb s) (stamped (clock env) d0)"
  shows "files s' = fold (direct_write (pfOutputFile s1) (pfOutputJsonlFile s1)) (snapshot_writes (clock env) xs) (files s1)"
  using collect_snapshot_recorded [OF assms]
  by (auto simp: Let_def log_data_files recorded_files snapshot_writes_def)

section \<open>What is on its way to the disk\<close>

definition pending :: "stream \<Rightarrow> file_system \<Rightarrow> file_system" where
  "pending f fs = snd (c_fflush (f, fs))"

definition flushed :: "out_streams \<Rightarrow> file_system" where
  "flushed q = pending (json_stream q) (pending (log_stream q) (disk q))"

definition stream_path :: "stream \<Rightarrow> fpath option" where
  "stream_path f = map_option fst f"

definition separate :: "fpath option \<Rightarrow> fpath option \<Rightarrow> bool" where
  "separate pl pj = (pl = None \<or> pl \<noteq> pj)"

lemma append_append: "append_file p u (append_file p t fs) = append_file p (t @ u) fs"
  by (cases fs) (auto simp: append_file_def split: option.split node.split)

lemma append_commute: "p \<noteq> q \<Longrightarrow> append_file p t (append_file q u fs) = append_file q u (append_file p t fs)"
  by (cases fs) (auto simp: append_file_def fun_upd_twist split: option.split node.split)

lemma append_empty [simp]: "append_file p [] fs = fs"
  by (cases fs) (auto simp: append_file_def fun_upd_idem split: option.split node.split)

lemma print_pending:
  "stream_print k t (f, fs) = (f', fs') \<Longrightarrow> stream_path f' = stream_path f
     \<and> pending f' fs' = append_to (stream_path f) t (pending f fs)"
  by (auto simp: stream_print_def pending_def c_fflush_def append_to_def stream_path_def append_append
      simp del: take_append drop_append split: option.splits)

lemma pending_commute:
  "separate (stream_path f) g \<Longrightarrow> pending f (append_to g t fs) = append_to g t (pending f fs)"
  by (cases f; cases g) (auto simp: pending_def c_fflush_def append_to_def separate_def stream_path_def append_commute)

lemma print_other:
  assumes "stream_print k t (f, fs) = (f', fs')" and "separate (stream_path g) (stream_path f)"
  shows "pending g (pending f' fs') = append_to (stream_path f) t (pending g (pending f fs))"
  using print_pending [OF assms(1)] pending_commute [OF assms(2)] by simp

lemma pending_swap:
  "separate (stream_path f) (stream_path g) \<Longrightarrow> pending f (pending g fs) = pending g (pending f fs)"
  by (cases f; cases g) (auto simp: pending_def c_fflush_def separate_def stream_path_def append_commute)

lemma separate_sym: "separate pl pj \<Longrightarrow> separate pj pl"
  by (auto simp: separate_def)

lemma write_flushed:
  assumes "separate (stream_path (log_stream q)) (stream_path (json_stream q))"
  shows "flushed (buffered_write (k, ev) q)
      = direct_write (stream_path (log_stream q)) (stream_path (json_stream q)) ev (flushed q)
    \<and> stream_path (log_stream (buffered_write (k, ev) q)) = stream_path (log_stream q)
    \<and> stream_path (json_stream (buffered_write (k, ev) q)) = stream_path (json_stream q)"
proof (cases ev)
  case (To_Log t)
  obtain f fs where p: "stream_print k t (log_stream q, disk q) = (f, fs)" by fastforce
  have "separate (stream_path (json_stream q)) (stream_path (log_stream q))" using assms by (rule separate_sym)
  from print_other [OF p this] print_pending [OF p] p show ?thesis by (simp add: To_Log flushed_def)
next
  case (To_Json t)
  obtain f fs where p: "stream_print k t (json_stream q, disk q) = (f, fs)" by fastforce
  have f: "stream_path f = stream_path (json_stream q)" using print_pending [OF p] by simp
  have "pending f (pending (log_stream q) fs) = pending (log_stream q) (pending f fs)"
    using assms f by (intro pending_swap) (simp add: separate_sym)
  also have "\<dots> = append_to (stream_path (json_stream q)) t (pending (log_stream q) (pending (json_stream q) (disk q)))"
    using assms by (rule print_other [OF p])
  also have "pending (log_stream q) (pending (json_stream q) (disk q)) = flushed q"
    unfolding flushed_def using assms by (rule pending_swap)
  finally show ?thesis using f by (simp add: To_Json p flushed_def)
qed

lemma writes_flushed:
  assumes "separate (stream_path (log_stream q)) (stream_path (json_stream q))"
  shows "flushed (fold buffered_write ws q)
      = fold (direct_write (stream_path (log_stream q)) (stream_path (json_stream q))) (map snd ws) (flushed q)
    \<and> stream_path (log_stream (fold buffered_write ws q)) = stream_path (log_stream q)
    \<and> stream_path (json_stream (fold buffered_write ws q)) = stream_path (json_stream q)"
  using assms
proof (induction ws arbitrary: q)
  case (Cons w ws)
  obtain k ev where w: "w = (k, ev)" by (cases w)
  with write_flushed [OF Cons.prems, of k ev] Cons.IH [of "buffered_write w q"] Cons.prems show ?case by simp
qed simp

lemma flush_all:
  "disk (flush_output_files q) = flushed q"
  "log_stream (flush_output_files q) = configure_output_buffer (stream_path (log_stream q))"
  "json_stream (flush_output_files q) = configure_output_buffer (stream_path (json_stream q))"
  by (auto simp: flush_output_files_def flushed_def pending_def c_fflush_def configure_output_buffer_def stream_path_def
      Let_def split: option.split)

section \<open>Properties\<close>

text \<open>Appending never shortens a file and never makes one.\<close>

lemma append_back:
  "node_at (append_file q u fs) p = Some (File t) \<Longrightarrow> \<exists>v. node_at fs p = Some (File v) \<and> prefix v t"
  by (auto simp: append_file_def split: option.splits node.splits if_splits)

lemma pending_back:
  "node_at (pending f fs) p = Some (File t) \<Longrightarrow> \<exists>v. node_at fs p = Some (File v) \<and> prefix v t"
  by (auto simp: pending_def c_fflush_def append_back split: option.splits)

lemma flushed_back:
  "node_at (flushed q) p = Some (File t) \<Longrightarrow> \<exists>v. node_at (disk q) p = Some (File v) \<and> prefix v t"
  unfolding flushed_def using pending_back prefix_order.trans by blast

lemma direct_back:
  "node_at (fold (direct_write pl pj) evs fs) p = Some (File t) \<Longrightarrow> \<exists>v. node_at fs p = Some (File v) \<and> prefix v t"
proof (induction evs arbitrary: fs)
  case (Cons ev evs)
  then obtain v where v: "node_at (direct_write pl pj ev fs) p = Some (File v)" "prefix v t" by auto
  then have "\<exists>u. node_at fs p = Some (File u) \<and> prefix u v"
    by (cases ev) (auto simp: append_to_def append_back split: option.splits)
  with v(2) show ?case using prefix_order.trans by blast
qed simp

lemma writes_on_disk:
  assumes "separate (stream_path (log_stream q)) (stream_path (json_stream q))"
    and "node_at (flushed (fold buffered_write ws q)) p = Some (File t)"
  shows "\<exists>v. node_at (disk (fold buffered_write (take n ws) q)) p = Some (File v) \<and> prefix v t"
proof -
  let ?q = "fold buffered_write (take n ws) q"
  have "fold buffered_write ws q = fold buffered_write (drop n ws) ?q"
    by (metis append_take_drop_id comp_apply fold_append)
  moreover have "separate (stream_path (log_stream ?q)) (stream_path (json_stream ?q))"
    using writes_flushed [OF assms(1), of "take n ws"] assms(1) by simp
  ultimately obtain u where "node_at (flushed ?q) p = Some (File u)" "prefix u t"
    using writes_flushed [of ?q "drop n ws"] assms(2) direct_back by metis
  then show ?thesis using flushed_back prefix_order.trans by blast
qed

text \<open>C15: Buffering cannot be seen after a snapshot. Whenever the C library writes out on its own (\<open>k\<close>
  bytes at each call, any \<open>k\<close>), the buffered writes of a snapshot followed by \<^verbatim>\<open>flush_output_files\<close> leave
  exactly the files of the snapshot that writes at once, and both buffers empty, so that the next
  rotation sees all that was written. At every moment before, each file on the disk is a prefix of
  what it will be: an interrupted snapshot loses only the end of it.\<close>

theorem buffering_invisible:
  assumes "proc_open s" and "proc_safe (proc env)" and "s1 = handle_rotations c env s"
    and "separate (pfOutputFile s1) (pfOutputJsonlFile s1)"
    and "q = \<lparr>disk = files s1, log_stream = configure_output_buffer (pfOutputFile s1),
      json_stream = configure_output_buffer (pfOutputJsonlFile s1)\<rparr>"
    and "map snd ws = snapshot_writes (clock env) (snapshot_samples c env w (page_size_kb s) (stamped (clock env) d0))"
  shows "\<exists>s'. collect_snapshot c env w d0 s = Inr s'
    \<and> flush_output_files (fold buffered_write ws q) = q\<lparr>disk := files s'\<rparr>
    \<and> (\<forall>n p t. node_at (files s') p = Some (File t) \<longrightarrow>
        (\<exists>v. node_at (disk (fold buffered_write (take n ws) q)) p = Some (File v) \<and> prefix v t))"
proof -
  obtain s' where s': "collect_snapshot c env w d0 s = Inr s'" using collect_snapshot_returns [OF assms(1,2)] by blast
  have path: "stream_path (configure_output_buffer f) = f" for f
    by (cases f) (simp_all add: configure_output_buffer_def stream_path_def)
  have none: "pending (configure_output_buffer f) fs = fs" for f fs
    by (cases f) (simp_all add: configure_output_buffer_def pending_def c_fflush_def)
  have sep: "separate (stream_path (log_stream q)) (stream_path (json_stream q))"
    using assms(4) by (simp add: assms(5) path)
  have files: "files s' = flushed (fold buffered_write ws q)"
    using writes_flushed [OF sep, of ws] snapshot_files [OF s' assms(3) refl] assms(6)
    by (simp add: assms(5) path flushed_def none)
  have "flush_output_files (fold buffered_write ws q) = q\<lparr>disk := files s'\<rparr>"
    using writes_flushed [OF sep, of ws] flush_all [of "fold buffered_write ws q"]
    by (intro out_streams.equality) (simp_all add: files, simp_all add: assms(5) path)
  with s' files show ?thesis using writes_on_disk [OF sep] by metis
qed

definition demo_streams :: out_streams where
  "demo_streams = \<lparr>disk = files demo_snapshot_state, log_stream = Some ([''o'', ''ptime.log''], []),
     json_stream = Some ([''o'', ''ptime.jsonl''], [])\<rparr>"

text \<open>Eight bytes written out at each call.\<close>

theorem buffering_invisible_witness:
  "\<exists>s' ws. collect_snapshot demo_config demo_snapshot_env empty_whitelist (undefined\<lparr>i_pid := 0\<rparr>) demo_snapshot_state = Inr s'
    \<and> length ws = 5 \<and> flush_output_files (fold buffered_write ws demo_streams) = demo_streams\<lparr>disk := files s'\<rparr>"
proof -
  let ?d = "undefined\<lparr>i_pid := 0\<rparr>"
  define xs where "xs = snapshot_samples demo_config demo_snapshot_env empty_whitelist 4 (stamped demo_clock ?d)"
  define ws where "ws = map (Pair (8 :: nat)) (snapshot_writes demo_clock xs)"
  have "length xs = 1" using demo_samples [of ?d] by (auto simp: xs_def)
  then have len: "length ws = 5" by (auto simp: ws_def snapshot_writes_def length_Suc_conv)
  have safe: "proc_safe (proc demo_snapshot_env)" by (simp add: demo_safe)
  have sep: "separate (pfOutputFile demo_snapshot_state) (pfOutputJsonlFile demo_snapshot_state)"
    by (simp add: separate_def demo_snapshot_state_def)
  have q: "demo_streams = \<lparr>disk = files demo_snapshot_state,
      log_stream = configure_output_buffer (pfOutputFile demo_snapshot_state),
      json_stream = configure_output_buffer (pfOutputJsonlFile demo_snapshot_state)\<rparr>"
    by (simp add: demo_streams_def configure_output_buffer_def) (simp add: demo_snapshot_state_def)
  have ws: "map snd ws = snapshot_writes (clock demo_snapshot_env) (snapshot_samples demo_config demo_snapshot_env
      empty_whitelist (page_size_kb demo_snapshot_state) (stamped (clock demo_snapshot_env) ?d))"
    unfolding demo_safe(3,5) by (simp add: ws_def xs_def comp_def)
  from buffering_invisible [OF demo_safe(2) safe demo_no_rotation [symmetric] sep q ws] len show ?thesis by blast
qed

end
