(* ===== verification/Run_Disk.thy ===== *)
theory Run_Disk
  imports Analyzer_Run Output_Buffer
begin

text \<open>
  What a run leaves alone on the disk. Rotation, compression, the snapshots and the end of the modules work
  on files only: every view of the disk that does not see the files (\<open>disk_view\<close>), such as the tree of the
  directories with the refusals of the kernel, is the same when the report is printed as when the timer
  loop began.
\<close>

context disk_view
begin

lemma view_try_rename [simp]: "view (files (snd (try_rename msg old new s))) = view (files s)"
  by (auto simp: try_rename_def dest: view_renamed split: prod.split option.split)

lemma view_rotate_one [simp]: "view (files (rotate_one c f i s)) = view (files s)"
proof -
  obtain m s1 where r: "try_rename ''rotate rename failed (gz), trying fallback '' (gz_name f i) (gz_name f (i + 1)) s = (m, s1)"
    by fastforce
  then have "view (files s1) = view (files s)" using view_try_rename by (metis snd_conv)
  then show ?thesis by (simp add: rotate_one_def r)
qed

lemma view_rotate_down [simp]: "view (files (rotate_down c f k s)) = view (files s)"
  by (induction k arbitrary: s) simp_all

lemma view_rotate_logs [simp]: "view (files (rotate_logs c e f s)) = view (files s)"
  by (simp add: rotate_logs_def Let_def remove_file_def split: prod.split)

lemma view_rotate_and_reopen: "rotate_and_reopen c e f s = (out, s') \<Longrightarrow> view (files s') = view (files s)"
  by (auto simp: rotate_and_reopen_def Let_def dest!: view_opened split: prod.splits option.splits)

lemma view_handle_rotations [simp]: "view (files (handle_rotations c env s)) = view (files s)"
proof -
  have "view (files (rotate_raw_log c env s)) = view (files s)" for s
    by (auto simp: rotate_raw_log_def Let_def dest!: view_rotate_and_reopen split: prod.split)
  moreover have "view (files (rotate_jsonl c env s)) = view (files s)" for s
    by (auto simp: rotate_jsonl_def Let_def dest!: view_rotate_and_reopen split: prod.split)
  ultimately show ?thesis by (simp add: handle_rotations_def Let_def)
qed

lemma view_direct_write [simp]: "view (direct_write p q x fs) = view fs"
  by (cases x) (simp_all add: append_to_def split: option.split)

lemma view_direct_writes: "view (fold (direct_write p q) ws fs) = view fs"
  by (induction ws arbitrary: fs) simp_all

lemma view_collect_snapshot: "collect_snapshot c env w d0 s = Inr s' \<Longrightarrow> view (files s') = view (files s)"
  by (simp add: snapshot_files [OF _ refl refl] view_direct_writes)

lemma view_compress: "compress_file_gzip z fs src dst = (rc, fs', msg) \<Longrightarrow> view fs' = view fs"
  by (auto simp: compress_file_gzip_def Let_def dest!: view_opened split: option.splits prod.splits if_splits)

lemma view_process_job [simp]: "view (fst (process_job z fs p)) = view fs"
  by (auto simp: process_job_def Let_def dest!: view_compress view_renamed split: option.split prod.split)

lemma view_job: "process_job z fs p = (fs', msg) \<Longrightarrow> view fs' = view fs"
  using view_process_job [of z fs p] by simp

lemma view_worker_turn [simp]: "view (fst (snd (worker_turn z v))) = view (fst (snd v))"
proof -
  obtain w fs err where "v = (w, fs, err)" by (cases v)
  then show ?thesis
    by (auto simp: worker_turn_def dest!: view_job split: prod.split option.split)
qed

lemma view_worker_runs [simp]: "view (files (worker_runs z n s)) = view (files s)"
proof -
  have "view (fst (snd ((worker_turn z ^^ n) v))) = view (fst (snd v))" for v by (induction n) simp_all
  from this [of "(queue s, files s, err_out s)"] show ?thesis
    by (cases "(worker_turn z ^^ n) (queue s, files s, err_out s)") (simp add: worker_runs_def)
qed

lemma view_drain:
  assumes "drain z v = Some v'"
  shows "view (fst (snd v')) = view (fst (snd v))"
proof (rule drain.raw_induct [OF _ assms, of "\<lambda>z v v'. view (fst (snd v')) = view (fst (snd v))"])
  fix d :: "zlib \<Rightarrow> worker_view \<Rightarrow> worker_view option" and z v v'
  assume ih: "\<And>z v v'. d z v = Some v' \<Longrightarrow> view (fst (snd v')) = view (fst (snd v))"
    and step: "(if job_head (fst v) = None then Some v else d z (worker_turn z v)) = Some v'"
  show "view (fst (snd v')) = view (fst (snd v))"
    using step ih [of z "worker_turn z v" v'] by (simp split: if_splits)
qed

lemma view_shutdown: "compression_worker_shutdown c z (w, fs, err) = Some (w', fs', err') \<Longrightarrow> view fs' = view fs"
  by (auto simp: compression_worker_shutdown_def dest: view_drain split: if_splits option.splits)

lemma view_run_snapshot_once: "run_snapshot_once c z t a = Inr a' \<Longrightarrow> view (files (module a')) = view (files (module a))"
  by (auto simp: run_snapshot_once_def bind_fault_def dest!: view_collect_snapshot split: sum.splits)

lemma view_burst: "burst c z ts n k e a = Inr a' \<Longrightarrow> view (files (module a')) = view (files (module a))"
proof (induction e arbitrary: k a)
  case (Suc e)
  then show ?case by (auto simp: bind_fault_def dest!: view_run_snapshot_once split: if_splits sum.splits)
qed simp

lemma view_main_loop: "main_loop c z ws n a = Some (Inr a') \<Longrightarrow> view (files (module a')) = view (files (module a))"
proof (induction ws arbitrary: n a)
  case Nil
  then show ?case by (auto simp: say_def split: if_splits)
next
  case (Cons w ws)
  then show ?case
    by (auto simp: Let_def say_def complain_def dest!: view_burst split: if_splits timer_read.splits sum.splits)
qed

lemma view_acquire_lock: "acquire_lock fl p s = (r, s') \<Longrightarrow> view (files s') = view (files s)"
  by (auto simp: acquire_lock_def dest!: view_opened split: prod.splits option.splits flock_answer.splits)

lemma view_open_raw [simp]:
  "view (files (snd (open_raw_log c rs))) = view (files (snd rs))"
  "view (files (snd (open_raw_jsonl c rs))) = view (files (snd rs))"
  by (auto simp: open_raw_log_def open_raw_jsonl_def dest!: view_opened split: prod.split option.split)

lemma view_initialize:
  assumes "process_snapshot_initialize c ok pb fl s = (r, s')"
  shows "view (files s') = view (files s)"
proof -
  obtain r2 s2 where lock: "acquire_lock fl (output_path c CONFIG_LOCK_FILE)
      (s\<lparr>proc_open := True, page_size_kb := initialize_page_size_kb pb (page_size_kb s)\<rparr>) = (r2, s2)" by fastforce
  have "view (files s2) = view (files s)" using view_acquire_lock [OF lock] by simp
  moreover have "s' = snd (open_raw_jsonl c (open_raw_log c (process_snapshot_success, s2))) \<or> s' = s2 \<or> files s' = files s"
    using assms lock by (cases r2) (auto simp: process_snapshot_initialize_def Let_def split: if_splits)
  ultimately show ?thesis by auto
qed

lemma view_stop_modules:
  assumes "stop_modules c e a = Some a'"
  shows "view (files (module a')) = view (files (module a))"
proof -
  let ?s = "process_snapshot_deinit (log_closes e) (json_closes e) (proc_closes e) (module a)"
  have "files ?s = files (module a)" by (simp add: process_snapshot_deinit_def Let_def)
  with assms show ?thesis
    by (auto simp: stop_modules_def Let_def dest!: view_shutdown)
qed

end

end
