(* ===== verification/Snapshot_Types.thy ===== *)
theory Snapshot_Types
  imports Snapshot_Samples
begin

text \<open>
  The C types of the samples and of the records: integers within the range of their type, names
  and time stamps terminated within their 64-byte buffers. Words are typed by construction; here
  the integers and the strings are, for everything a snapshot reads and everything the table keeps.
\<close>

section \<open>Well-typed samples and records\<close>

definition char_array :: "nat \<Rightarrow> string \<Rightarrow> bool" where
  "char_array n s = (length s < n \<and> CHR 0x00 \<notin> set s)"

definition sample_typed :: "process_state_input_t \<Rightarrow> bool" where
  "sample_typed d = (fits C_int (i_pid d) \<and> fits C_int (i_ppid d) \<and> fits C_int (i_threads d)
     \<and> fits C_long (i_rssKb d) \<and> char_array 64 (i_comm d) \<and> i_state d \<noteq> CHR 0x00
     \<and> char_array 64 (i_h_r_timestamp d))"

definition record_typed :: "process_state_t \<Rightarrow> bool" where
  "record_typed ps = (fits C_int (pid ps) \<and> fits C_int (threads ps) \<and> char_array 64 (comm ps)
     \<and> list_all (fits C_long) [rss_kb ps, prev_rss_kb ps, fd_delta ps, cpu_usage_samples ps, rss_initial_kb ps,
          rss_average_kb ps, rss_sum ps, rss_variation_since_startup ps])"

definition stats_typed :: "process_stats \<Rightarrow> bool" where
  "stats_typed st = list_all record_typed (HASH_ITER (g_process_table st))"

section \<open>Conversions stay in range\<close>

lemma to_int_fits: "fits C_int (to_int x)"
proof -
  have "0 \<le> (x + 2 ^ 31) mod 2 ^ 32" and "(x + 2 ^ 31) mod 2 ^ 32 < 2 ^ 32" by simp_all
  then show ?thesis by (simp add: to_int_def)
qed

lemma to_long_fits: "fits C_long (to_long x)"
  using to_long_range by simp

lemma strtol_fits: "fits C_long (fst (c_strtol s))"
proof -
  obtain neg u where "split_sign (dropWhile c_isspace s) = (neg, u)" by fastforce
  then show ?thesis by (simp add: c_strtol_def Let_def) (simp add: limits_defs)
qed

lemma scan_number_fits: "scan_number k s = Some (v, r) \<Longrightarrow> fits k v"
proof (cases k)
  case C_uint
  have "uint (w :: u32) \<le> 4294967295" for w using unsigned_less [of w, where ?'a = int] by simp
  then show "scan_number k s = Some (v, r) \<Longrightarrow> fits k v"
    by (auto simp: C_uint scan_number_def Let_def split: prod.splits if_splits)
next
  case C_ulong
  have "uint (w :: u64) \<le> int ULLONG_MAX" for w
    using unsigned_less [of w, where ?'a = int] by (simp add: limits_defs)
  then show "scan_number k s = Some (v, r) \<Longrightarrow> fits k v"
    by (auto simp: C_ulong scan_number_def Let_def split: prod.splits if_splits)
qed (use strtol_fits [of s] to_int_fits in
    \<open>auto simp: scan_number_def Let_def simp del: fits.simps split: prod.splits if_splits\<close>)

lemma sscanf_fits: "c_sscanf (numbers ks) s = map Int_Value ns \<Longrightarrow> i < length ns \<Longrightarrow> fits (ks ! i) (ns ! i)"
proof (induction ks arbitrary: s ns i)
  case (Cons k ks)
  then obtain v r where v: "scan_number k (dropWhile c_isspace s) = Some (v, r)"
    by (cases ns) (auto split: option.splits)
  then obtain ns' where ns: "ns = v # ns'" "c_sscanf (numbers ks) r = map Int_Value ns'"
    using Cons.prems(1) by (cases ns) auto
  show ?case
  proof (cases i)
    case 0
    with scan_number_fits [OF v] ns show ?thesis by simp
  next
    case (Suc m)
    with Cons.IH [OF ns(2), of m] Cons.prems(2) ns(1) show ?thesis by simp
  qed
qed simp

lemma stat_values_fit:
  assumes "c_sscanf stat_format s = Char_Value c # map Int_Value ns" and "length ns = 21"
  shows "fits C_int (ns ! 0)" and "fits C_int (ns ! 16)" and "c \<in> set s"
proof -
  obtain t where s: "s = c # t" and n: "c_sscanf (numbers stat_kinds) t = map Int_Value ns"
    using assms(1) by (cases s) (auto simp: stat_format_kinds)
  show "fits C_int (ns ! 0)" using sscanf_fits [OF n, of 0] assms(2) by (simp add: stat_kinds_def)
  show "fits C_int (ns ! 16)" using sscanf_fits [OF n, of 16] assms(2) by (simp add: stat_kinds_def)
  show "c \<in> set s" using s by simp
qed

section \<open>A sample is well typed\<close>

lemma c_str_no_nul: "CHR 0x00 \<notin> set (c_str buf)"
  by (auto simp: c_str_def dest: set_takeWhileD)

lemma fmt_zero_no_nul: "CHR 0x00 \<notin> set (fmt_zero w i)"
  by (auto simp: fmt_zero_def pad_zeros_def show_nat_notin)

lemma timestamp_char_array: "char_array 64 (hr_timestamp k)"
  by (auto simp: char_array_def hr_timestamp_def Let_def c_snprintf_def fmt_zero_no_nul dest!: in_set_takeD)

lemma copy_comm_array:
  assumes "copy_comm (c_str buf) l r = Inr name"
  shows "char_array 64 name"
proof -
  obtain n where "name = take n (drop (l + 1) (c_str buf))" and "n < 64"
    using assms by (auto simp: copy_comm_def Let_def split: if_splits)
  then show ?thesis using c_str_no_nul [of buf]
    by (auto simp: char_array_def dest!: in_set_takeD in_set_dropD)
qed

lemma parse_stat_typed:
  assumes "parse_stat pr kb p (c_str buf) l r after d = Inr (True, kb', x)" and "set after \<subseteq> set (c_str buf)"
    and "fits C_int (i_pid d)" and "char_array 64 (i_h_r_timestamp d)"
  shows "sample_typed x"
proof -
  obtain name where name: "copy_comm (c_str buf) l r = Inr name" and after: "after \<noteq> []"
      and n: "length (c_sscanf stat_format (tl after)) = 22"
    using assms(1) by (auto simp: parse_stat_def Let_def split: sum.splits if_splits)
  obtain c ns where vs: "c_sscanf stat_format (tl after) = Char_Value c # map Int_Value ns" "length ns = 21"
    using stat_values [OF n] by blast
  note fit = stat_values_fit [OF vs]
  have "c \<noteq> CHR 0x00" using fit(3) assms(2) c_str_no_nul [of buf] after list.set_sel(2) by fastforce
  moreover have x: "x = store_io pr p (store_rss kb (ns ! 20)
      (store_stat (Char_Value c # map Int_Value ns) (d\<lparr>i_comm := name\<rparr>)))"
    using assms(1) vs by (auto simp: parse_stat_def name after Let_def int_at_def)
  moreover have "fits C_long (i_rssKb x)"
    using to_long_fits [of "ns ! 20 * kb"] unfolding x by (simp add: store_rss_def limits_defs)
  ultimately show ?thesis
    using assms(3,4) fit(1,2) vs(2) copy_comm_array [OF name]
    by (simp add: sample_typed_def store_rss_def store_stat_def char_at_def int_at_def del: fits.simps)
qed

lemma read_stat_typed:
  assumes "read_proc_stat pr ps g p d = Inr (True, kb, x)"
    and "fits C_int (i_pid d)" and "char_array 64 (i_h_r_timestamp d)"
  shows "sample_typed x"
proof -
  obtain f line r before y front after where f: "proc_file pr (proc_path p ''stat'') = Some f"
      "c_fgets 1024 f = Some (line, r)" "split_first (CHR ''('') (c_str line) = Some (before, y)"
      "split_last (CHR '')'') (c_str line) = Some (front, after)"
    using assms(1) by (auto simp: read_proc_stat_def Let_def split: option.splits prod.splits)
  have "parse_stat pr (initialize_page_size_kb ps g) p (c_str line) (length before) (length front) after d
      = Inr (True, kb, x)"
    using assms(1) by (simp only: read_proc_stat_def f option.case prod.case Let_def)
  moreover have "c_str line = front @ CHR '')'' # after" by (rule split_last_shape [OF f(4)])
  then have "set after \<subseteq> set (c_str line)" by auto
  ultimately show ?thesis using assms(2,3) by (rule parse_stat_typed)
qed

lemma entry_sample_typed:
  assumes "entry_sample c env w g (stamped k d) de = Some x"
  shows "sample_typed x"
proof -
  let ?d = "(stamped k d)\<lparr>i_pid := c_atoi (fst de)\<rparr>"
  obtain kb y where read: "read_proc_stat (proc env) (sys_page_size env) g (c_atoi (fst de)) ?d = Inr (True, kb, y)"
      and x: "x = read_fd (proc env) y"
    using assms by (auto simp: entry_sample_def split: if_splits sum.splits prod.splits bool.splits)
  have "sample_typed y"
    using to_int_fits timestamp_char_array
    by (intro read_stat_typed [OF read]) (simp_all add: stamped_def c_atoi_def del: fits.simps)
  then show ?thesis by (simp add: x sample_typed_def read_fd_def Let_def del: fits.simps)
qed

lemma samples_typed: "list_all sample_typed (snapshot_samples c env w g (stamped k d))"
  by (auto simp: snapshot_samples_def List.map_filter_def list_all_iff dest: entry_sample_typed)

section \<open>The table stays well typed\<close>

lemma new_process_typed: "sample_typed i \<Longrightarrow> record_typed (new_process i)"
  by (simp add: sample_typed_def record_typed_def new_process_def zero_process_def char_array_def limits_defs)

lemma update_rss_kb:
  "rss_kb (update_process hz cpus i ps) = (if i_bo_is_rss_valid i then i_rssKb i else rss_kb ps)"
  "prev_rss_kb (update_process hz cpus i ps) = (if i_bo_is_rss_valid i then i_rssKb i else prev_rss_kb ps)"
  by (simp_all add: stats_defs)

lemma update_process_typed:
  assumes "sample_typed i" and "record_typed ps"
  shows "record_typed (update_process hz cpus i ps)"
proof -
  have c: "char_array 64 (take 64 (i_comm i))" "fits C_int (i_threads i)" "fits C_long (i_rssKb i)"
    using assms(1) by (auto simp: sample_typed_def char_array_def dest: in_set_takeD)
  have "fits C_long (sint (w :: u64))" for w using to_long_fits by (simp add: sint_long)
  then show ?thesis
    using assms(2) c to_long_fits
    by (simp add: record_typed_def update_rss_kb del: fits.simps)
qed

lemma list_all_write:
  assumes "list_all P (HASH_ITER head)" and "\<And>x. P x \<Longrightarrow> P (f x)"
  shows "list_all P (HASH_ITER (write_item i f head))"
proof (cases head)
  case (Some t)
  with assms show ?thesis
    by (cases "i < length (items t)")
      (auto simp: write_item_def HASH_ITER_def list_all_length nth_list_update list_update_beyond not_less)
qed (simp add: write_item_def HASH_ITER_def)

lemma get_or_create_typed:
  assumes "sample_typed i" and "list_all record_typed (HASH_ITER tbl)"
    and "get_or_create_process a i tbl = (q, tbl')"
  shows "list_all record_typed (HASH_ITER tbl')"
  using assms new_process_typed [OF assms(1)]
  by (auto simp: get_or_create_process_def Let_def add_int_iter split: option.splits if_splits)

lemma stats_update_typed:
  assumes "sample_typed i" and "stats_typed st"
  shows "stats_typed (process_stats_update a i st)"
proof (cases "is_module_initialized st")
  case True
  obtain q tbl where g: "get_or_create_process a i (g_process_table st) = (q, tbl)" by fastforce
  then have "list_all record_typed (HASH_ITER tbl)"
    using get_or_create_typed [OF assms(1)] assms(2) by (simp add: stats_typed_def)
  with update_process_typed [OF assms(1)] show ?thesis
    by (simp add: stats_typed_def update_table [OF True] g list_all_write split: option.split)
qed (use assms(2) in \<open>simp add: process_stats_update_def\<close>)

lemma fold_update_typed:
  "list_all sample_typed xs \<Longrightarrow> stats_typed st \<Longrightarrow> stats_typed (fold (\<lambda>x. process_stats_update (f x) x) xs st)"
  by (induction xs arbitrary: st) (simp_all add: stats_update_typed)

text \<open>C16: Everything a snapshot reads and keeps is well typed, whatever \<^verbatim>\<open>/proc\<close> shows: in each sample the
  process id, the parent and the thread count are C ints and the resident size is a C long, and the name
  and the time stamp are terminated within their 64 bytes; and the records of the table, well typed before
  the snapshot, are so after it, in particular the names \<^verbatim>\<open>strncpy\<close> copied are terminated.\<close>

theorem snapshot_well_typed:
  assumes "proc_open s" and "proc_safe (proc env)" and "stats_typed (stats s)"
  shows "\<exists>s'. collect_snapshot c env w d0 s = Inr s' \<and> stats_typed (stats s')
    \<and> list_all sample_typed (snapshot_samples c env w (page_size_kb s) (stamped (clock env) d0))"
proof -
  obtain s' where s': "collect_snapshot c env w d0 s = Inr s'"
    using collect_snapshot_returns [OF assms(1,2)] by blast
  let ?xs = "snapshot_samples c env w (page_size_kb s) (stamped (clock env) d0)"
  have "stats_typed (fold (\<lambda>x. process_stats_update (record_alloc env (i_pid x)) x) ?xs (stats s))"
    using samples_typed assms(3) by (rule fold_update_typed)
  with collect_snapshot_stats [OF s', of d0] have "stats_typed (stats s')"
    by (simp add: stats_typed_def process_stats_snapshot_end_def)
  with s' samples_typed show ?thesis by blast
qed

theorem snapshot_well_typed_witness:
  "\<exists>s' x. collect_snapshot demo_config demo_snapshot_env empty_whitelist (undefined\<lparr>i_pid := 0\<rparr>) demo_snapshot_state = Inr s'
    \<and> stats_typed (stats s') \<and> sample_typed x
    \<and> snapshot_samples demo_config demo_snapshot_env empty_whitelist 4 (stamped demo_clock (undefined\<lparr>i_pid := 0\<rparr>)) = [x]"
proof -
  have safe: "proc_safe (proc demo_snapshot_env)" by (simp add: demo_safe)
  have typed: "stats_typed (stats demo_snapshot_state)"
    by (simp add: demo_snapshot_state_def stats_typed_def initialize_fields HASH_ITER_def)
  obtain x where x: "snapshot_samples demo_config demo_snapshot_env empty_whitelist 4 (stamped demo_clock (undefined\<lparr>i_pid := 0\<rparr>)) = [x]"
    using demo_samples by blast
  from snapshot_well_typed [OF demo_safe(2) safe typed, of demo_config empty_whitelist "undefined\<lparr>i_pid := 0\<rparr>"]
  show ?thesis unfolding demo_safe(3,5) x by auto
qed

end
