(* ===== verification/Spec2Isabelle.thy ===== *)
theory Spec2Isabelle
  imports Report_JSON Run_Disk Snapshot_Types
begin

text \<open>
  A verification library for the process analyzer of \<^verbatim>\<open>src/code\<close>: a C program for Linux that, at a
  fixed interval, reads the state of all processes below \<^verbatim>\<open>/proc\<close>, appends it to a log and to a file
  of JSON lines, rotates and compresses these files, keeps per-process statistics in a hash table, and
  prints a ranking of the processes at the end, on the console and in \<^verbatim>\<open>metrics.json\<close>.

  \<^bold>\<open>How the parts interact.\<close> \<^verbatim>\<open>main\<close> (\<^verbatim>\<open>process_analyzer.c\<close>) reads the configuration
  (\<^verbatim>\<open>config/config.c\<close>), parses the command line (\<^verbatim>\<open>args_parser/args_parser.c\<close>), which initialises the
  statistics (\<^verbatim>\<open>process_stats/process_stats.c\<close>) when a metric is requested, starts the snapshot module
  (\<^verbatim>\<open>process_snapshot/process_snapshot.c\<close>) and the compression thread
  (\<^verbatim>\<open>compression/compression_worker.c\<close>), and waits for a timer. Each expiration is one
  \<^verbatim>\<open>collect_snapshot\<close>: rotation of the files that are full, which hands jobs to the compression
  thread, then one sample per process, written out and fed into the statistics. At the end the modules
  are stopped, the queue is worked off and the report is printed. The hash table is that of
  \<^verbatim>\<open>third_party/uthash/uthash.h\<close>, as far as the program uses its macros.

  \<^bold>\<open>Foundations.\<close>
  \<^item> \<open>Prelude\<close>: integer types (unsigned ones are words, signed ones \<^typ>\<open>int\<close> reduced explicitly by
    \<open>to_int\<close> and \<open>to_long\<close>), limits, fact collections, lemmas on lists.
  \<^item> \<open>C_Strings\<close>: the functions of the C library on strings that the sources call (\<open>strtol\<close>,
    \<open>strtoull\<close>, \<open>atoi\<close>, \<open>fgets\<close>, \<open>snprintf\<close>, \<open>strchr\<close>), printing of numbers and reading them back.
  \<^item> \<open>C_Double\<close>: binary64 arithmetic over the rationals with rounding to nearest, infinities and NaN,
    and the printing of \<open>%.2f\<close>; \<open>C_Qsort\<close>: \<open>qsort\<close> as a stable merge sort over a C comparator.
  \<^item> \<open>File_System\<close>: paths, nodes and the calls of the program. \<open>refuses\<close> lets any of the calls it names fail
    (\<open>stat\<close>, \<open>mkdir\<close>, opening, unlinking, renaming, and reading a byte of a file that is compressed), the
    same calls for a whole run; writing to an open stream does not fail. A locale (\<open>disk_view\<close>) says what
    work on files leaves alone.

  \<^bold>\<open>Statistics and report.\<close>
  \<^item> \<open>Process_State\<close>, \<open>UT_Hash\<close>, \<open>UT_Delete\<close>, \<open>Process_Stats\<close>: the records, the Jenkins hash, buckets with
    their expansion, deletion, and every operation on the statistics. The table is an implementation of
    a locale for maps keyed by process (\<open>int_table\<close>, extended by deletion in \<open>int_table_del\<close>);
    \<open>Process_History\<close> shows that after any sequence of samples it holds for each process what its own
    samples give (CPU, I/O, resident size, descriptors, names), and that tearing the module down frees
    every record once.
  \<^item> \<open>Timestamps\<close>, \<open>Metrics_Report\<close>, \<open>Report_Ranking\<close>, \<open>JSON\<close>, \<open>Report_JSON\<close>: durations, the eleven
    sections, that each shows the top processes of its own metric on both outputs, and that \<^verbatim>\<open>metrics.json\<close> is the JSON text
    of the report; a null stream is an explicit fault.

  \<^bold>\<open>Configuration and arguments.\<close>
  \<^item> \<open>Config\<close>: defaults, parser, creation of the output directory, validation, banner and getters;
    a configuration is read back from its text, and a successful start has a valid one.
  \<^item> \<open>Args_Parser\<close>: numbers, durations, whitelists with their growing arrays, and the option switch over
    \<open>getopt_long\<close>, each error path with its message and its release of the arguments; results are in
    range, whitelists well formed, refusals release memory.

  \<^bold>\<open>Compression and rotation.\<close>
  \<^item> \<open>Job_Queue\<close>: the linked list of jobs in a heap, an instance of a locale for first-in first-out
    queues. \<open>Compression\<close>: one job on the file system over a parameter for zlib (\<open>gzwrite\<close>, \<open>gzclose\<close>);
    that an archive decompresses is the hypothesis \<open>gzip_lossless\<close>, used where it is named.
  \<^item> \<open>Compression_Worker\<close>: the two threads as a step relation with mutex and condition variable; an
    invariant over all reachable states gives the order of jobs, mutual exclusion, the absence of lost
    wake-ups, and that shutdown drains the queue and returns after a bounded number of steps.
    \<open>Worker_Shutdown\<close>: every schedule after the stop request gives the result of a sequential loop.
  \<^item> \<open>Log_Rotation\<close>: the numbered files, plain or compressed, as a shift on the disk, and the hand-over
    to the worker; what a rotation leaves alone is a locale (\<open>renaming_frame\<close>, \<open>rotation_frame\<close>) that the
    later theories interpret on the parts of the state they follow.

  \<^bold>\<open>Snapshots.\<close>
  \<^item> \<open>Proc_Reader\<close>: \<open>sscanf\<close> as far as used, \<^verbatim>\<open>stat\<close>, \<^verbatim>\<open>io\<close> and \<^verbatim>\<open>fd\<close> of a process, the filters; what
    the kernel prints is read back. \<open>Snapshot_Clock\<close>: the two time stamps.
  \<^item> \<open>Process_Snapshot\<close>: one snapshot, starting and stopping the module. \<open>Snapshot_Samples\<close>: a snapshot
    feeds exactly the samples of the selected processes and appends one JSON line for each; it returns
    whenever the lines of \<^verbatim>\<open>stat\<close> have their parentheses in order (\<open>proc_safe\<close>), as those of the kernel do.
    \<open>Snapshot_Log\<close>: the block a snapshot appends to the log. \<open>Snapshot_Types\<close>: samples and records stay
    within their C types. \<open>Output_Buffer\<close>: the buffers of the two streams, the moments at which the library
    writes out left open, and that they cannot be seen after the flush that ends a snapshot.
    \<open>Snapshot_Files\<close>: deleting the files of earlier runs.

  \<^bold>\<open>The program.\<close>
  \<^item> \<open>Process_Analyzer\<close>: the timer, signals (before and during a wait, and during a snapshot), the loop with
    its bursts, start-up and end, \<open>main\<close>. \<open>Analyzer_Loop\<close>, \<open>Analyzer_Run\<close> and this theory: which snapshots a
    run takes, that it ends, how a stop request ends it, that its report is that of the samples of the whole
    run, and that \<^verbatim>\<open>metrics.json\<close> then holds it exactly when the file can be opened. \<open>Run_Disk\<close>: all a run does
    on the disk before is work on files, so whether it can be opened is settled when the loop begins.

  \<^bold>\<open>State, faults and loops.\<close> Every module's static variables are one record; operations return it
  updated. What the system answers (clocks, allocations, signals, results of calls) is an argument, so
  the theorems hold for all answers. Accesses that C leaves undefined are values of \<open>c_fault\<close>. All loops
  are total functions except three: clearing the job list and draining it are
  \<open>partial_function (option)\<close> and are shown to return on every well-formed queue; the main loop takes
  the timer's answers as a list and gives \<open>None\<close> when it still waits at its end, and it is shown that
  as many answers as the count of the command line are always enough.

  \<^bold>\<open>Not modelled.\<close> The unit and integration tests, the dashboard (HTML) and the build files are not part
  of the program; of \<^verbatim>\<open>uthash.h\<close> the macros the program does not use (sorting, selection, string and
  pointer keys, the Bloom filter) are left out. \<^verbatim>\<open>dump_whitelist_filters\<close> is compiled out. Symbolic links
  and \<^verbatim>\<open>..\<close> in paths, failures of \<^verbatim>\<open>pthread_create\<close>, the inside of zlib and the concurrent access of other
  programs to the output directory are outside of the model. So are failing writes to an open stream
  (\<^verbatim>\<open>fprintf\<close>, \<^verbatim>\<open>fflush\<close>, the output of zlib, whose errors are those of its parameter), a read error of the
  configuration file, refusals that change during a run, and memory running out inside the macros of
  \<^verbatim>\<open>uthash.h\<close>, which then leave the program by \<^verbatim>\<open>exit(-1)\<close>. The snapshot writes to its files at once; the
  buffers, and the call of \<^verbatim>\<open>flush_output_files\<close> that ends a snapshot, are those of \<open>Output_Buffer\<close>.
  In the model of the main program the worker finishes whole jobs between two snapshots; the finer
  interleaving is that of \<open>Compression_Worker\<close>. Messages on the error stream are modelled for the snapshot
  module, the worker, the option switch and the main program, not for the configuration, the report, a
  failed allocation in a whitelist and what \<^verbatim>\<open>getopt_long\<close> prints itself.
\<close>

section \<open>The whole program\<close>

text \<open>
  A complete run: the configuration \<open>c\<close> is read, the arguments \<open>g\<close> are accepted and ask for a metric, the
  modules start, no signal arrives, every timer answer up to the count is an expiration, and each record
  gets its memory. Its snapshots are \<open>ts\<close>, and \<open>a\<close> is the state in which the timer loop
  begins. The cells of the jobs are told apart over the whole run; where \<^verbatim>\<open>malloc\<close> reuses a freed address
  this is a renaming, since nothing depends on the addresses but their being different while in use.
\<close>

definition started_run ::
  "main_env \<Rightarrow> file_system \<Rightarrow> config_t \<Rightarrow> ap_arguments \<Rightarrow> snapshot_turn list \<Rightarrow> analyzer \<Rightarrow> bool" where
  "started_run e fs c g ts a = (\<exists>fs1 st msg s1 s2 ws rest.
     config_init fs (config_path e) configuration_zero = Inr (config_success, c, fs1)
     \<and> st = process_stats_initialize (clock_ticks e) (cpu_count e) (program e) process_stats_initial
     \<and> ap_parse_args c (clock_ticks e) (cpu_count e) (memory e) (program e) (arguments e) zero_arguments process_stats_initial
         = (parse_args_ok, g, st, msg)
     \<and> (if delete_old_files g then process_snapshot_delete_old_files c (old_files e) (module (configured c fs1 g st msg))
         else (process_snapshot_success, module (configured c fs1 g st msg))) = (process_snapshot_success, s1)
     \<and> process_snapshot_initialize c (proc_opens e) (page_bytes e) (lock_answer e) s1 = (process_snapshot_success, s2)
     \<and> a = started c (configured c fs1 g st msg) s2
     \<and> timer_created e \<and> timer_set e \<and> wakes e = ws @ rest \<and> list_all quiet ws \<and> list_all wake_safe ws
     \<and> int (length ws) = count g \<and> distinct (concat (map wake_cells (wakes e)))
     \<and> ts = concat (map wake_turns ws) \<and> list_all (\<lambda>t. \<forall>p. record_alloc (turn_env t) p) ts)"

definition complete_run ::
  "main_env \<Rightarrow> file_system \<Rightarrow> config_t \<Rightarrow> ap_arguments \<Rightarrow> snapshot_turn list \<Rightarrow> bool" where
  "complete_run e fs c g ts = (\<exists>a. started_run e fs c g ts a)"

text \<open>The samples of a run and the statistics they give.\<close>

definition run_samples :: "main_env \<Rightarrow> config_t \<Rightarrow> ap_arguments \<Rightarrow> snapshot_turn list \<Rightarrow> process_state_input_t list" where
  "run_samples e c g ts =
     concat (map (turn_samples c (pid_whitelist g) (initialize_page_size_kb (page_bytes e) 0)) ts)"

definition run_statistics :: "main_env \<Rightarrow> config_t \<Rightarrow> ap_arguments \<Rightarrow> snapshot_turn list \<Rightarrow> process_stats" where
  "run_statistics e c g ts = (collect (clock_ticks e) (cpu_count e) (program e) (run_samples e c g ts))
     \<lparr>g_number_of_snapshots := of_nat (length ts)\<rparr>"

lemma run_collected:
  assumes "started_run e fs c g ts a0"
  shows "\<exists>a. main e fs = (case print_report c (reporting e) a of Inl f \<Rightarrow> Some (Inl f) | Inr a' \<Rightarrow> leave 0 a')
    \<and> gArguments a = g \<and> stats (module a) = run_statistics e c g ts
    \<and> dir_tree (files (module a)) = dir_tree (files (module a0))"
proof -
  let ?kb = "initialize_page_size_kb (page_bytes e) 0"
  obtain fs1 st msg s1 s2 ws rest where
      cfg: "config_init fs (config_path e) configuration_zero = Inr (config_success, c, fs1)"
      and st: "st = process_stats_initialize (clock_ticks e) (cpu_count e) (program e) process_stats_initial"
      and args: "ap_parse_args c (clock_ticks e) (cpu_count e) (memory e) (program e) (arguments e) zero_arguments process_stats_initial
        = (parse_args_ok, g, st, msg)"
      and del: "(if delete_old_files (gArguments (configured c fs1 g st msg))
        then process_snapshot_delete_old_files c (old_files e) (module (configured c fs1 g st msg))
        else (process_snapshot_success, module (configured c fs1 g st msg))) = (process_snapshot_success, s1)"
      and init: "process_snapshot_initialize c (proc_opens e) (page_bytes e) (lock_answer e) s1 = (process_snapshot_success, s2)"
      and timer: "timer_created e" "timer_set e" "wakes e = ws @ rest" "list_all quiet ws" "list_all wake_safe ws"
      and len: "int (length ws) = count g" and cells: "distinct (concat (map wake_cells (wakes e)))"
      and ts: "ts = concat (map wake_turns ws)" and alloc: "list_all (\<lambda>t. \<forall>p. record_alloc (turn_env t) p) ts"
      and a0: "a0 = started c (configured c fs1 g st msg) s2"
    using assms by (auto simp: started_run_def)
  have start: "main e fs = run_timer c e a0" and a1: "running a0" "gArguments a0 = g" "\<not> g_stop_requested a0"
      "stats (module a0) = st" "queue (module a0) = compression_worker_init c compression_worker_initial"
      "page_size_kb (module a0) = ?kb"
    using main_configured [OF cfg args] start_modules_runs [OF del init a0] by auto
  obtain a1 a where loop: "main_loop c (compressor e) (wakes e) 0 a0 = Some (Inr a1)" "stop_modules c e a1 = Some a"
      and a: "main e fs = (case print_report c (reporting e) a of Inl f \<Rightarrow> Some (Inl f) | Inr a' \<Rightarrow> leave 0 a')"
      "gArguments a = g" "stats (module a) = fold (feed_snapshot c (pid_whitelist g) ?kb) ts st"
    using run_timer_reports [OF a1(1,3) timer _ cells, of c] len ts start a1 queue_inv_init by auto
  have "dir_tree (files (module a)) = dir_tree (files (module a0))"
    using tree.view_stop_modules [OF loop(2)] tree.view_main_loop [OF loop(1)] by simp
  note a = a this
  have "is_module_initialized st" "g_number_of_snapshots st = 0"
    by (simp_all add: st initialize_fields process_stats_initialize_def process_stats_initial_def Let_def)
  from fold_feed_snapshot [OF this(1) alloc, of c "pid_whitelist g" ?kb] this(2) a show ?thesis
    by (auto simp: collect_def st run_statistics_def run_samples_def)
qed

text \<open>C2: From the samples to the report. In a complete run the report is printed, after the modules have
  been stopped, from exactly the statistics that all the samples of all its snapshots give, fed in order
  into the freshly initialised collector; the reported number of snapshots is that of the timer's
  expirations.\<close>

theorem run_reports_collected:
  assumes "complete_run e fs c g ts"
  shows "\<exists>a. main e fs = (case print_report c (reporting e) a of Inl f \<Rightarrow> Some (Inl f) | Inr a' \<Rightarrow> leave 0 a')
    \<and> gArguments a = g \<and> stats (module a) =
      (collect (clock_ticks e) (cpu_count e) (program e)
        (concat (map (turn_samples c (pid_whitelist g) (initialize_page_size_kb (page_bytes e) 0)) ts)))
        \<lparr>g_number_of_snapshots := of_nat (length ts)\<rparr>"
  using assms run_collected by (fastforce simp: complete_run_def run_statistics_def run_samples_def)

text \<open>C1: From the processes to \<^verbatim>\<open>metrics.json\<close>. Of a complete run that saw a process, the outcome is decided by
  whether the file can be opened: the memory for its path is there and, on the disk with which the timer
  loop began, the kernel does not refuse to open it and it is no directory. If so, the program exits with
  status 0 and the file, unless it is a device, holds the JSON object of the report computed from all the
  samples of the run. If not, the report writes to a null stream. (The metrics are enabled, the output
  directory is absolute and exists, the report's array is allocated, and the texts that enter the file
  unescaped need no escapes.)\<close>

theorem run_writes_metrics:
  assumes "started_run e fs c g ts a" and "run_samples e c g ts \<noteq> []"
    and "metrics_console_enabled c" and "absolute (output_dir c)" and "arr_alloc (reporting e)"
    and "printable_report (reporting e) (end_metrics_args g) (run_statistics e c g ts)"
    and "p = components (output_dir c @ ''/metrics.json'')" and "is_dir (files (module a)) (butlast p)"
  shows "if path_alloc (reporting e) \<and> \<not> refuses (files (module a)) (Open_Write p) \<and> \<not> is_dir (files (module a)) p
    then \<exists>a'. main e fs = Some (Inr (0, a')) \<and> (node_at (files (module a')) p = Some Special \<or>
      (\<exists>f. node_at (files (module a')) p = Some (File f) \<and>
        json_text (report_value (reporting e) (end_metrics_args g) (interval_ms g) (run_statistics e c g ts)) f))
    else main e fs = Some (Inl Null_Stream)"
proof -
  obtain b where b: "main e fs = (case print_report c (reporting e) b of Inl f \<Rightarrow> Some (Inl f) | Inr a' \<Rightarrow> leave 0 a')"
      "gArguments b = g" "stats (module b) = run_statistics e c g ts" "dir_tree (files (module b)) = dir_tree (files (module a))"
    using run_collected [OF assms(1)] by blast
  define r where "r = \<lparr>r_stats = stats (module b), r_files = files (module b), r_console = console (module b)\<rparr>"
  have st: "r_stats r = run_statistics e c g ts" and fs: "r_files r = files (module b)" by (simp_all add: r_def b(3))
  have "report_ready c (reporting e) r" "pfJsonOutput (r_stats r) = None"
    using assms(2,5) by (simp_all add: report_ready_def st run_statistics_def collect_report)
  note tree = dir_tree_eq [OF b(4), folded fs]
  from print_metrics_outcome [OF \<open>report_ready c (reporting e) r\<close> assms(3) \<open>pfJsonOutput (r_stats r) = None\<close> assms(4)
      assms(6) [folded st] assms(7) assms(8) [folded tree(3)], of "interval_ms g"]
  show ?thesis
    unfolding b(1) print_report_def Let_def b(2) r_def [symmetric] st can_open_metrics_def assms(7) [symmetric] tree(2,3)
    by (auto simp: bind_fault_def leave_def split: if_splits)
qed

text \<open>C7: The program terminates. When the timer answers as often as the count of the command line asks
  for, the processes can be read and every job gets a fresh cell, then whatever the configuration, the
  signals and the results of the system calls, the main function does not wait for ever: neither in the
  loop nor when it joins the worker.\<close>

theorem main_terminates:
  assumes "list_all wake_safe (wakes e)" and "distinct (concat (map wake_cells (wakes e)))"
    and "\<forall>c g st msg. ap_parse_args c (clock_ticks e) (cpu_count e) (memory e) (program e) (arguments e)
      zero_arguments process_stats_initial = (parse_args_ok, g, st, msg) \<longrightarrow> count g \<le> int (length (wakes e))"
  shows "\<exists>r. main e fs = Some r"
proof -
  have runs: "\<exists>r. run_timer c e a = Some r"
    if "running a" "count (gArguments a) \<le> int (length (wakes e))" "queue (module a) = compression_worker_init c' compression_worker_initial"
    for c c' a
    using run_timer_returns [OF assms(1,2) that(1,2), of c] that(3) queue_inv_init by auto
  have start: "\<exists>r. start_modules c e (configured c fs1 g st msg) = Some r"
    if "count g \<le> int (length (wakes e))" for c fs1 g st msg
    using start_modules_cases [of c e "configured c fs1 g st msg"] runs that leave_not_None by (metis configured_fields(1,3))
  from main_cases [of e fs] assms(3) start leave_not_None show ?thesis by metis
qed

text \<open>C22: Every way out of the program releases what it holds: the status is 0 or -1, the whitelists have
  been freed, and after a complete run the lock file is unlocked.\<close>

theorem main_exit:
  assumes "main e fs = Some (Inr (r, a))"
  shows "(r = 0 \<or> r = -1) \<and> pid_whitelist (gArguments a) = empty_whitelist \<and> (r = 0 \<longrightarrow> lock_fd (module a) = None)"
proof -
  have "(\<exists>a'. main e fs = leave (-1) a') \<or> (\<exists>c a'. main e fs = run_timer c e a')"
    using main_cases [of e fs] assms start_modules_cases by (metis Inl_Inr_False option.inject)
  then show ?thesis using assms leave_exit [of "-1"] run_timer_exit by fastforce
qed

section \<open>A concrete run\<close>

definition demo_main :: "wake list \<Rightarrow> main_env" where
  "demo_main ws = \<lparr>config_path = None, clock_ticks = 100, cpu_count = 4, memory = plenty, program = ''pa'',
     arguments = [''-r'', show_nat 5, ''-i'', show_nat 500 @ ''ms'', ''-n'', show_nat 2], old_files = Inl ENOENT,
     proc_opens = True, page_bytes = 4096, lock_answer = Lock_Granted, timer_created = True, timer_set = True,
     wakes = ws, compressor = stored, log_closes = True, json_closes = True, proc_closes = True, reporting = demo_env\<rparr>"

definition demo_arguments :: ap_arguments where
  "demo_arguments = zero_arguments\<lparr>interval_ms := 500, count := 2, end_metrics_args := rss_only\<rparr>"

lemma demo_parsed:
  "ap_parse_args c (clock_ticks (demo_main ws)) (cpu_count (demo_main ws)) (memory (demo_main ws)) (program (demo_main ws))
     (arguments (demo_main ws)) zero_arguments process_stats_initial
   = (parse_args_ok, demo_arguments, if metrics_console_enabled c then process_stats_initialize 100 4 ''pa'' process_stats_initial
        else process_stats_initial, ([], []))"
proof -
  have "getopt_long (arguments (demo_main ws)) = [Opt (CHR ''r'') (show_nat 5), Opt (CHR ''i'') (show_nat 500 @ ''ms''),
      Opt (CHR ''n'') (show_nat 2)]"
    by (simp add: demo_main_def short_opt_def)
  moreover have "parse_duration_ms (show_nat 500 @ ''ms'') = Some 500"
    using parse_duration_show [of 500 "''ms''" 1] by (simp add: unit_ms_def LONG_MAX_def)
  moreover have "parse_integer_arg (show_nat 2) = Some 2" "parse_integer_arg (show_nat 5) = Some 5"
    using parse_integer_show [of 2] parse_integer_show [of 5] by (simp_all add: INT_MAX_def)
  moreover have "show_nat 2 \<noteq> ''infinity''" by (simp add: show_nat.simps)
  ultimately show ?thesis
    by (simp add: ap_parse_args_def accept_arguments_def Let_def handle_option_def handle_metric_option_def set_metrics_def parse_number_of_snapshots_def ap_free_arguments_def
        zero_arguments_def demo_arguments_def any_metric_requested_def zero_metrics_arguments_def rss_only_def demo_main_def
        config_get_metrics_console_enabled_def config_get_metrics_json_enabled_def)
qed

lemma demo_configured:
  "\<exists>fs. config_init (r_files demo_report) (config_path (demo_main ws)) configuration_zero = Inr (config_success, config_default, fs)
    \<and> cwd fs = [] \<and> refuses fs = (\<lambda>_. False) \<and> node_at fs = (node_at (r_files demo_report))([''tmp'', ''ptime'', ''dummyfile''] := None)"
  by (simp add: config_init_def demo_main_def validate_config_def ensure_output_dir_def sys_stat_def demo_report_def
      config_default_def resolve_def absolute_def components_def check_file_access_def open_write_def parent_ok_def is_dir_def
      PATH_MAX_def sys_unlink_def Let_def)

lemma demo_output_open:
  assumes "refuses fs = (\<lambda>_. False)" and "node_at fs [''tmp'', ''ptime''] = Some Dir" and "node_at fs [''tmp'', ''ptime'', n] = None"
    and "n \<in> {''ptime.lock'', ''ptime.log'', ''ptime.jsonl''}"
  shows "open_write False fs (output_path config_default n)
    = (Some [''tmp'', ''ptime'', n], fs\<lparr>node_at := (node_at fs)([''tmp'', ''ptime'', n] \<mapsto> File [])\<rparr>)"
proof -
  have "length n < 100" "n \<noteq> []" "last n \<noteq> CHR ''/''" using assms(4) by auto
  then have path: "output_path config_default n = ''/tmp/ptime/'' @ n"
    by (simp add: output_path_def config_default_def config_get_output_dir_def PATH_MAX_def)
  have "resolve fs (''/tmp/ptime/'' @ n) = [''tmp'', ''ptime'', n]"
    using assms(4) by (auto simp: resolve_def absolute_def components_def)
  then show ?thesis
    unfolding path open_write_def using assms(1-3) \<open>n \<noteq> []\<close> \<open>last n \<noteq> CHR ''/''\<close>
    by (simp add: parent_ok_def is_dir_def Let_def)
qed

lemma demo_initialized_module:
  assumes "files s = fs" and "refuses fs = (\<lambda>_. False)"
    and "node_at fs = (node_at (r_files demo_report))([''tmp'', ''ptime'', ''dummyfile''] := None)"
  shows "\<exists>s2. process_snapshot_initialize config_default True 4096 Lock_Granted s = (process_snapshot_success, s2)"
proof -
  have nodes: "node_at fs [''tmp'', ''ptime''] = Some Dir" "node_at fs [''tmp'', ''ptime'', n] = None" for n
    by (simp_all add: assms(3) demo_report_def)
  have enabled: "config_get_raw_log_enabled config_default" "config_get_raw_jsonl_enabled config_default"
    by (simp_all add: config_get_raw_log_enabled_def config_get_raw_jsonl_enabled_def config_default_def)
  show ?thesis
    by (simp add: process_snapshot_initialize_def Let_def acquire_lock_def open_raw_log_def open_raw_jsonl_def enabled
        demo_output_open assms(1,2) nodes CONFIG_LOCK_FILE_def CONFIG_LOG_FILE_def CONFIG_JSON_FILE_def)
qed

definition demo_waits :: "wake list" where
  "demo_waits = [(demo_wake False 1)\<lparr>turns := (\<lambda>_. demo_turn\<lparr>turn_env := demo_snapshot_env\<lparr>log_rotation := demo_now\<lparr>job_cell := None\<rparr>,
     json_rotation := demo_now\<lparr>job_cell := None\<rparr>\<rparr>\<rparr>)\<rparr>, (demo_wake False 2)\<lparr>turns := (\<lambda>_. demo_turn\<lparr>turn_env := demo_snapshot_env
     \<lparr>log_rotation := demo_now\<lparr>job_cell := None\<rparr>, json_rotation := demo_now\<lparr>job_cell := None\<rparr>\<rparr>\<rparr>)\<rparr>]"

lemma demo_waits:
  "list_all quiet demo_waits" "list_all wake_safe demo_waits" "int (length demo_waits) = 2"
  "distinct (concat (map wake_cells demo_waits))" "length (concat (map wake_turns demo_waits)) = 3"
  "list_all (\<lambda>t. \<forall>p. record_alloc (turn_env t) p) (concat (map wake_turns demo_waits))"
proof -
  show "list_all quiet demo_waits" "list_all wake_safe demo_waits" "int (length demo_waits) = 2"
    using demo_safe(1,4) by (simp_all add: demo_waits_def demo_wake_def quiet_def wake_safe_def turn_safe_def demo_turn_def
        wake_turns_def list_ex_iff)
  have cells: "wake_cells w = []" if "w \<in> set demo_waits" for w
    using that by (auto simp: demo_waits_def wake_cells_def wake_turns_def turn_cells_def)
  then have "concat (map wake_cells demo_waits) = []" by simp
  then show "distinct (concat (map wake_cells demo_waits))" by (metis distinct.simps(1))
  show "length (concat (map wake_turns demo_waits)) = 3"
    by (simp add: wake_turns_def demo_waits_def demo_wake_def expirations_def)
  show "list_all (\<lambda>t. \<forall>p. record_alloc (turn_env t) p) (concat (map wake_turns demo_waits))"
    by (auto simp: list_all_iff demo_waits_def wake_turns_def demo_turn_def demo_snapshot_env_def)
qed

lemma demo_started:
  "\<exists>a. started_run (demo_main demo_waits) (r_files demo_report) config_default demo_arguments (concat (map wake_turns demo_waits)) a
    \<and> refuses (files (module a)) = (\<lambda>_. False) \<and> is_dir (files (module a)) [''tmp'', ''ptime'']
    \<and> \<not> is_dir (files (module a)) [''tmp'', ''ptime'', ''metrics.json'']"
proof -
  let ?e = "demo_main demo_waits"
  obtain fs where fs: "config_init (r_files demo_report) (config_path ?e) configuration_zero = Inr (config_success, config_default, fs)"
      "cwd fs = []" "refuses fs = (\<lambda>_. False)" "node_at fs = (node_at (r_files demo_report))([''tmp'', ''ptime'', ''dummyfile''] := None)"
    using demo_configured by blast
  define st where "st = process_stats_initialize (clock_ticks ?e) (cpu_count ?e) (program ?e) process_stats_initial"
  have parsed: "ap_parse_args config_default (clock_ticks ?e) (cpu_count ?e) (memory ?e) (program ?e) (arguments ?e)
      zero_arguments process_stats_initial = (parse_args_ok, demo_arguments, st, ([], []))"
    using demo_parsed [of config_default demo_waits] by (simp add: st_def config_default_def) (simp add: demo_main_def)
  let ?s = "module (configured config_default fs demo_arguments st ([], []))"
  have "files ?s = fs" by (simp add: configured_def say_def complain_def analyzer_initial_def snapshot_state_initial_def)
  from demo_initialized_module [OF this fs(3,4)] obtain s2 where
      init: "process_snapshot_initialize config_default (proc_opens ?e) (page_bytes ?e) (lock_answer ?e) ?s = (process_snapshot_success, s2)"
    by (auto simp: demo_main_def)
  have del: "(if delete_old_files demo_arguments then process_snapshot_delete_old_files config_default (old_files ?e) ?s
      else (process_snapshot_success, ?s)) = (process_snapshot_success, ?s)"
    by (simp add: demo_arguments_def zero_arguments_def)
  have e: "timer_created ?e" "timer_set ?e" "wakes ?e = demo_waits @ []" "int (length demo_waits) = count demo_arguments"
      "distinct (concat (map wake_cells (wakes ?e)))"
    using demo_waits(3,4) by (simp_all add: demo_main_def demo_arguments_def)
  let ?a = "started config_default (configured config_default fs demo_arguments st ([], [])) s2"
  have "started_run ?e (r_files demo_report) config_default demo_arguments (concat (map wake_turns demo_waits)) ?a"
    unfolding started_run_def using fs(1) st_def parsed del init e(1-3) demo_waits(1,2) e(4,5) demo_waits(6) by blast
  moreover have "dir_tree (files (module ?a)) = dir_tree fs"
    using tree.view_initialize [OF init] \<open>files ?s = fs\<close> by (simp add: started_def)
  then have "refuses (files (module ?a)) = refuses fs" "is_dir (files (module ?a)) = is_dir fs"
    by (rule dir_tree_eq)+
  moreover have "is_dir fs [''tmp'', ''ptime'']" "\<not> is_dir fs [''tmp'', ''ptime'', ''metrics.json'']"
    by (simp_all add: fs(4) is_dir_def demo_report_def)
  ultimately show ?thesis using fs(3) by metis
qed

lemma demo_complete:
  "complete_run (demo_main demo_waits) (r_files demo_report) config_default demo_arguments (concat (map wake_turns demo_waits))"
  using demo_started by (auto simp: complete_run_def)

theorem run_reports_collected_witness:
  "\<exists>a. main (demo_main demo_waits) (r_files demo_report)
      = (case print_report config_default demo_env a of Inl f \<Rightarrow> Some (Inl f) | Inr a' \<Rightarrow> leave 0 a')
    \<and> g_number_of_snapshots (stats (module a)) = 3"
proof -
  have "reporting (demo_main demo_waits) = demo_env" by (simp add: demo_main_def)
  with run_reports_collected [OF demo_complete] demo_waits(5) show ?thesis by auto
qed

lemma demo_run_samples:
  "run_samples (demo_main demo_waits) config_default demo_arguments (concat (map wake_turns demo_waits)) \<noteq> []"
  "\<forall>x \<in> set (run_samples (demo_main demo_waits) config_default demo_arguments (concat (map wake_turns demo_waits))).
     plain_sample x \<and> i_h_r_timestamp x = hr_timestamp demo_clock"
proof -
  let ?ts = "concat (map wake_turns demo_waits)"
  let ?S = "turn_samples config_default (pid_whitelist demo_arguments) (initialize_page_size_kb 4096 0)"
  have w: "pid_whitelist demo_arguments = empty_whitelist" "initialize_page_size_kb 4096 0 = 4"
    by (simp_all add: demo_arguments_def zero_arguments_def initialize_page_size_kb_def)
  have one: "\<exists>x. ?S t = [x] \<and> plain_sample x \<and> i_h_r_timestamp x = hr_timestamp demo_clock" if "t \<in> set ?ts" for t
  proof -
    have "proc (turn_env t) = demo_proc \<and> sys_page_size (turn_env t) = 4096 \<and> own_pid (turn_env t) = 1
        \<and> clock (turn_env t) = demo_clock"
      using that by (auto simp: demo_waits_def wake_turns_def demo_turn_def demo_snapshot_env_def)
    then show ?thesis unfolding turn_samples_def w using demo_samples_any by auto
  qed
  have samples: "run_samples (demo_main demo_waits) config_default demo_arguments ?ts = concat (map ?S ?ts)"
    by (simp add: run_samples_def demo_main_def)
  obtain t where "t \<in> set ?ts" using demo_waits(5) by (metis length_0_conv neq_Nil_conv list.set_intros(1) zero_neq_numeral)
  with one [of t] show "run_samples (demo_main demo_waits) config_default demo_arguments ?ts \<noteq> []"
    unfolding samples by fastforce
  show "\<forall>x \<in> set (run_samples (demo_main demo_waits) config_default demo_arguments ?ts).
     plain_sample x \<and> i_h_r_timestamp x = hr_timestamp demo_clock"
    unfolding samples using one by fastforce
qed

text \<open>Samples that need no escapes give records that need none.\<close>

lemma plain_records:
  assumes "list_all plain_sample js" and "ps \<in> set (HASH_ITER (g_process_table (collect hz cpus prog js)))"
  shows "json_plain (comm ps) \<and> json_plain [state ps]"
proof -
  let ?h = "history (pid ps) js"
  have r: "run_process (ticks_per_second hz) (online_cpus cpus) ?h = Some ps"
    using iter_lookup [OF collect_run(1) assms(2)] by (simp add: collect_run(2))
  then have "?h \<noteq> []" by auto
  then have "hd ?h \<in> set js" "last ?h \<in> set js"
    using hd_in_set [of ?h] last_in_set [of ?h] by (auto simp: history_def)
  then have "plain_sample (hd ?h)" "plain_sample (last ?h)" using assms(1) by (simp_all add: list_all_iff)
  moreover have "json_plain (take n t)" if "json_plain t" for n t
    using that by (auto simp: json_plain_def list_all_iff dest: in_set_takeD)
  ultimately show ?thesis using run_comm_state [OF r] by (simp add: plain_sample_def)
qed

lemma demo_run_printable:
  "printable_report demo_env rss_only
     (run_statistics (demo_main demo_waits) config_default demo_arguments (concat (map wake_turns demo_waits)))"
proof -
  let ?ts = "concat (map wake_turns demo_waits)" and ?e = "demo_main demo_waits"
  define js where "js = run_samples ?e config_default demo_arguments ?ts"
  define st where "st = collect (clock_ticks ?e) (cpu_count ?e) (program ?e) js"
  have js: "js \<noteq> []" "\<And>x. x \<in> set js \<Longrightarrow> plain_sample x \<and> i_h_r_timestamp x = hr_timestamp demo_clock"
    using demo_run_samples by (simp_all add: js_def)
  have stamp: "json_plain (take 63 (hr_timestamp demo_clock))" "hr_timestamp demo_clock \<noteq> []" by code_simp+
  have "prog_name st = Some ''pa''" "h_r_initial_timestamp st = take 63 (hr_timestamp demo_clock)"
      "h_r_last_timestamp st = take 63 (hr_timestamp demo_clock)"
    using collect_stamps [OF js(1)] js(2) [OF hd_in_set [OF js(1)]] js(2) [OF last_in_set [OF js(1)]] stamp(2)
    by (simp_all add: st_def) (simp add: demo_main_def)
  moreover have "json_plain (comm ps) \<and> json_plain [state ps]" if "ps \<in> set (HASH_ITER (g_process_table st))" for ps
    using plain_records [OF _ that [unfolded st_def]] js(2) by (simp add: list_all_iff)
  moreover have "wanted (section_specs rss_only) = [(avg_rss, 5)]"
    by (simp add: wanted_def section_specs_def rss_only_def zero_metrics_arguments_def)
  moreover have "comm (finalize_process rss_only ps) = comm ps" "state (finalize_process rss_only ps) = state ps" for ps
    by (simp_all add: finalize_process_def Let_def)
  moreover have "json_plain ''pa''" "json_plain ''box''" by (simp_all add: json_plain_def)
  ultimately have "printable_report demo_env rss_only st"
    using stamp(1) by (auto simp: printable_report_def printable_def host_text_def
        get_hostname_alloc_def demo_env_def report_array_def iter_update_items)
  then show ?thesis
    by (simp add: run_statistics_def js_def [symmetric] st_def [symmetric] printable_report_def report_array_def)
qed

theorem run_writes_metrics_witness:
  "\<exists>a. main (demo_main demo_waits) (r_files demo_report) = Some (Inr (0, a)) \<and>
      (node_at (files (module a)) [''tmp'', ''ptime'', ''metrics.json''] = Some Special \<or>
      (\<exists>f. node_at (files (module a)) [''tmp'', ''ptime'', ''metrics.json''] = Some (File f) \<and>
        json_text (report_value demo_env rss_only 500
          (run_statistics (demo_main demo_waits) config_default demo_arguments (concat (map wake_turns demo_waits)))) f))"
proof -
  let ?p = "[''tmp'', ''ptime'', ''metrics.json'']"
  have c: "metrics_console_enabled config_default" "absolute (output_dir config_default)"
      "?p = components (output_dir config_default @ ''/metrics.json'')"
    by (simp_all add: config_default_def absolute_def components_def)
  have e: "reporting (demo_main demo_waits) = demo_env" "arr_alloc demo_env" "path_alloc demo_env"
      "end_metrics_args demo_arguments = rss_only" "interval_ms demo_arguments = 500"
    by (simp_all add: demo_main_def demo_env_def demo_arguments_def)
  obtain a where a: "started_run (demo_main demo_waits) (r_files demo_report) config_default demo_arguments
      (concat (map wake_turns demo_waits)) a" "refuses (files (module a)) = (\<lambda>_. False)"
      "is_dir (files (module a)) (butlast ?p)" "\<not> is_dir (files (module a)) ?p"
    using demo_started by auto
  from run_writes_metrics [OF a(1) demo_run_samples(1) c(1,2) _ _ c(3) a(3), unfolded e(1,4,5)] e(2,3) demo_run_printable a(2,4)
  show ?thesis by simp
qed

theorem main_terminates_witness:
  "\<exists>r. main (demo_main demo_waits) (r_files demo_report) = Some r"
proof (rule main_terminates)
  show "list_all wake_safe (wakes (demo_main demo_waits))" "distinct (concat (map wake_cells (wakes (demo_main demo_waits))))"
    using demo_waits(2,4) by (simp_all add: demo_main_def)
  have "wakes (demo_main demo_waits) = demo_waits" "count demo_arguments = 2" by (simp_all add: demo_main_def demo_arguments_def)
  then show "\<forall>c g st msg. ap_parse_args c (clock_ticks (demo_main demo_waits)) (cpu_count (demo_main demo_waits))
      (memory (demo_main demo_waits)) (program (demo_main demo_waits)) (arguments (demo_main demo_waits))
      zero_arguments process_stats_initial = (parse_args_ok, g, st, msg) \<longrightarrow> count g \<le> int (length (wakes (demo_main demo_waits)))"
    using demo_waits(3) by (auto simp: demo_parsed)
qed

theorem main_exit_witness:
  "\<exists>r a. main ((demo_main [])\<lparr>arguments := []\<rparr>) (r_files demo_report) = Some (Inr (r, a))
    \<and> pid_whitelist (gArguments a) = empty_whitelist"
proof -
  let ?e = "(demo_main [])\<lparr>arguments := []\<rparr>"
  have "\<exists>r a. main ?e (r_files demo_report) = Some (Inr (r, a))"
    using demo_configured [of "[]"]
    by (auto simp: main_def Let_def ap_parse_args_def accept_arguments_def leave_def demo_main_def)
  then show ?thesis using main_exit by blast
qed

end
